(* ===== verification/CLib.thy ===== *)
theory CLib
  imports Main "HOL-Library.Word" "HOL-Library.Monad_Syntax"
begin

text \<open>
  Prelude of the development: the part of the C language and of its standard library
  that the gateway's sources use.

  A C string (\<^verbatim>\<open>char *\<close>, not NULL) is a \<^typ>\<open>string\<close> without the terminating NUL; a
  buffer that is read at several offsets is a \<^typ>\<open>char list\<close> that contains its NULs, and
  \<open>cstr\<close> reads the C string that starts at the front of a buffer. A pointer that may be
  NULL is an \<^typ>\<open>'a option\<close>.  \<open>strcmp (a, b) == 0\<close> is \<open>a = b\<close>, \<open>strncmp\<close> and
  \<open>strcasecmp\<close> have definitions below.  Numbers are parsed as glibc does on LP64:
  \<open>strtol\<close> saturates at the 64-bit range and \<open>atoi\<close> keeps the low 32 bits of it.

  A call that does not return normally (a NULL or dangling pointer is dereferenced, the
  process exits, or a loop runs forever) is \<^term>\<open>None\<close> of the option monad; where the
  difference between these matters, the component has an error type of its own.
\<close>

named_theorems clib_simps \<open>evaluation of the C library model on concrete input\<close>
named_theorems heap_specs \<open>laws of load, store, malloc and free\<close>
named_theorems client_specs \<open>functional specifications of the client list operations\<close>

type_synonym ptr = "nat option"
type_synonym u64 = "64 word"
type_synonym u32 = "32 word"

section \<open>Characters\<close>

definition NUL :: char where
  "NUL = CHR 0x00"

definition NL :: char where
  "NL = CHR 0x0A"

definition CR :: char where
  "CR = CHR 0x0D"

definition TAB :: char where
  "TAB = CHR 0x09"

definition code :: "char \<Rightarrow> nat" where
  "code c = of_char c"

definition chr :: "nat \<Rightarrow> char" where
  "chr n = char_of n"

definition isdigit :: "char \<Rightarrow> bool" where
  "isdigit c \<longleftrightarrow> 48 \<le> code c \<and> code c \<le> 57"

definition isupper :: "char \<Rightarrow> bool" where
  "isupper c \<longleftrightarrow> 65 \<le> code c \<and> code c \<le> 90"

definition islower :: "char \<Rightarrow> bool" where
  "islower c \<longleftrightarrow> 97 \<le> code c \<and> code c \<le> 122"

definition isalpha :: "char \<Rightarrow> bool" where
  "isalpha c \<longleftrightarrow> isupper c \<or> islower c"

definition isalnum :: "char \<Rightarrow> bool" where
  "isalnum c \<longleftrightarrow> isalpha c \<or> isdigit c"

definition isxdigit :: "char \<Rightarrow> bool" where
  "isxdigit c \<longleftrightarrow> isdigit c \<or> (65 \<le> code c \<and> code c \<le> 70) \<or> (97 \<le> code c \<and> code c \<le> 102)"

definition isblank :: "char \<Rightarrow> bool" where
  "isblank c \<longleftrightarrow> c = CHR '' '' \<or> c = TAB"

definition isspace :: "char \<Rightarrow> bool" where
  "isspace c \<longleftrightarrow> c = CHR '' '' \<or> (9 \<le> code c \<and> code c \<le> 13)"

definition isascii :: "char \<Rightarrow> bool" where
  "isascii c \<longleftrightarrow> code c < 128"

definition tolower :: "char \<Rightarrow> char" where
  "tolower c = (if isupper c then chr (code c + 32) else c)"

lemmas char_class_defs [clib_simps] =
  code_def chr_def isdigit_def isupper_def islower_def isalpha_def isalnum_def isxdigit_def
  isblank_def isspace_def isascii_def tolower_def NUL_def NL_def CR_def TAB_def

section \<open>Strings\<close>

text \<open>The C string at the front of a buffer: everything before the first NUL.\<close>

definition cstr :: "char list \<Rightarrow> string" where
  "cstr buf = takeWhile (\<lambda>c. c \<noteq> NUL) buf"

definition strncmp_eq :: "nat \<Rightarrow> string \<Rightarrow> string \<Rightarrow> bool" where
  "strncmp_eq n s t \<longleftrightarrow> take n s = take n t"

definition strcasecmp_eq :: "string \<Rightarrow> string \<Rightarrow> bool" where
  "strcasecmp_eq s t \<longleftrightarrow> map tolower s = map tolower t"

definition strncasecmp_eq :: "nat \<Rightarrow> string \<Rightarrow> string \<Rightarrow> bool" where
  "strncasecmp_eq n s t \<longleftrightarrow> map tolower (take n s) = map tolower (take n t)"

text \<open>\<open>strchr\<close>: the suffix that starts at the first occurrence, or NULL.\<close>

fun strchr :: "string \<Rightarrow> char \<Rightarrow> string option" where
  "strchr [] c = None"
| "strchr (x # s) c = (if x = c then Some (x # s) else strchr s c)"

text \<open>\<open>strrchr\<close>: the suffix that starts at the last occurrence, or NULL.\<close>

fun strrchr :: "string \<Rightarrow> char \<Rightarrow> string option" where
  "strrchr [] c = None"
| "strrchr (x # s) c =
     (case strrchr s c of
        Some t \<Rightarrow> Some t
      | None \<Rightarrow> if x = c then Some (x # s) else None)"

text \<open>\<open>strstr haystack needle\<close>: the suffix that starts at the first occurrence, or NULL.\<close>

fun strstr :: "string \<Rightarrow> string \<Rightarrow> string option" where
  "strstr [] n = (if n = [] then Some [] else None)"
| "strstr (x # s) n = (if take (length n) (x # s) = n then Some (x # s) else strstr s n)"

text \<open>
  \<open>strsep (&s, d)\<close> with a one-character delimiter: the token, and the new value of \<open>s\<close>
  (NULL after the last token). \<open>strsep_all\<close> is the loop that calls it until NULL.
\<close>

definition strsep :: "string \<Rightarrow> char \<Rightarrow> string \<times> string option" where
  "strsep s d =
     (takeWhile (\<lambda>c. c \<noteq> d) s,
      (case dropWhile (\<lambda>c. c \<noteq> d) s of [] \<Rightarrow> None | _ # r \<Rightarrow> Some r))"

fun strsep_all :: "string \<Rightarrow> char \<Rightarrow> string list" where
  "strsep_all [] d = [[]]"
| "strsep_all (c # s) d =
     (if c = d then [] # strsep_all s d
      else case strsep_all s d of t # ts \<Rightarrow> (c # t) # ts | [] \<Rightarrow> [[c]])"

text \<open>\<open>snprintf (buf, n, ...)\<close> keeps at most \<open>n - 1\<close> characters.\<close>

definition snprintf :: "nat \<Rightarrow> string \<Rightarrow> string" where
  "snprintf n s = take (n - 1) s"

section \<open>Decimal numbers\<close>

definition digit_char :: "nat \<Rightarrow> char" where
  "digit_char d = chr (48 + d)"

fun show_nat :: "nat \<Rightarrow> string" where
  "show_nat n = (if n < 10 then [digit_char n] else show_nat (n div 10) @ [digit_char (n mod 10)])"

declare show_nat.simps [simp del]

definition show_int :: "int \<Rightarrow> string" where
  "show_int i = (if i < 0 then CHR ''-'' # show_nat (nat (- i)) else show_nat (nat i))"

text \<open>\<open>%u\<close> of an \<open>int\<close>, and \<open>%llu\<close> of an \<open>unsigned long long\<close>.\<close>

definition show_u32_of_int :: "int \<Rightarrow> string" where
  "show_u32_of_int i = show_nat (nat (i mod 2 ^ 32))"

definition show_u64 :: "u64 \<Rightarrow> string" where
  "show_u64 w = show_nat (unat w)"

definition digit_val :: "char \<Rightarrow> nat" where
  "digit_val c = code c - 48"

fun read_digits :: "nat \<Rightarrow> string \<Rightarrow> nat" where
  "read_digits acc [] = acc"
| "read_digits acc (c # s) = (if isdigit c then read_digits (10 * acc + digit_val c) s else acc)"

text \<open>The subject sequence of \<open>strtol\<close>: white space, an optional sign, digits.\<close>

definition parse_long :: "string \<Rightarrow> int" where
  "parse_long s =
     (let t = dropWhile isspace s in
      case t of
        [] \<Rightarrow> 0
      | c # r \<Rightarrow>
          if c = CHR ''-'' then - int (read_digits 0 r)
          else if c = CHR ''+'' then int (read_digits 0 r)
          else int (read_digits 0 t))"

definition sat64 :: "int \<Rightarrow> int" where
  "sat64 i = max (- (2 ^ 63)) (min (2 ^ 63 - 1) i)"

definition strtol :: "string \<Rightarrow> int" where
  "strtol s = sat64 (parse_long s)"

definition wrap32 :: "int \<Rightarrow> int" where
  "wrap32 i = (i + 2 ^ 31) mod 2 ^ 32 - 2 ^ 31"

definition atoi :: "string \<Rightarrow> int" where
  "atoi s = wrap32 (strtol s)"

definition atol :: "string \<Rightarrow> int" where
  "atol s = strtol s"

definition atoll :: "string \<Rightarrow> int" where
  "atoll s = strtol s"

text \<open>
  \<open>sscanf (s, "%d", &x) == 1\<close>: at least one digit after white space and sign; the value
  stored is converted as by \<open>atoi\<close>.
\<close>

definition sscanf_d :: "string \<Rightarrow> int option" where
  "sscanf_d s =
     (let t = dropWhile isspace s;
          r = (case t of [] \<Rightarrow> [] | c # u \<Rightarrow> if c = CHR ''-'' \<or> c = CHR ''+'' then u else t)
      in case r of
           [] \<Rightarrow> None
         | c # _ \<Rightarrow> if isdigit c then Some (atoi s) else None)"

section \<open>Lemmas on characters and strings\<close>

lemma code_chr [simp]: "n < 256 \<Longrightarrow> code (chr n) = n"
  by (simp add: code_def chr_def)

lemma code_less_256 [simp]: "code c < 256"
  by (simp add: code_def)

lemma chr_code [simp]: "chr (code c) = c"
  by (simp add: code_def chr_def)

lemma code_NUL [simp]: "code NUL = 0"
  by (simp add: code_def NUL_def)

lemma code_inject: "code c = code d \<longleftrightarrow> c = d"
  by (metis chr_code)

lemma isdigit_digit_char [simp]: "d < 10 \<Longrightarrow> isdigit (digit_char d)"
  by (simp add: isdigit_def digit_char_def)

lemma digit_val_digit_char [simp]: "d < 10 \<Longrightarrow> digit_val (digit_char d) = d"
  by (simp add: digit_val_def digit_char_def)

lemma isdigit_not_special:
  "isdigit c \<Longrightarrow> c \<noteq> NUL \<and> c \<noteq> NL \<and> c \<noteq> CHR ''|'' \<and> c \<noteq> CHR ''='' \<and> c \<noteq> CHR ''-'' \<and> c \<noteq> CHR ''+'' \<and>
     c \<noteq> CHR '' '' \<and> c \<noteq> CHR ''%'' \<and> c \<noteq> CHR ''$'' \<and> \<not> isspace c"
  by (auto simp: char_class_defs)

lemma set_show_nat: "c \<in> set (show_nat n) \<Longrightarrow> isdigit c"
  by (induction n rule: show_nat.induct) (subst (asm) (2) show_nat.simps, auto split: if_splits)

lemma show_nat_nonempty [simp]: "show_nat n \<noteq> []"
  by (subst show_nat.simps) simp

lemma read_digits_append:
  "(\<forall>c\<in>set s. isdigit c) \<Longrightarrow> read_digits acc (s @ t) = read_digits (read_digits acc s) t"
  by (induction s arbitrary: acc) auto

text \<open>Reading back a printed number, also when other text follows it.\<close>

lemma read_digits_show_nat: "read_digits 0 (show_nat n) = n"
proof (induction n rule: show_nat.induct)
  case (1 n)
  show ?case
  proof (cases "n < 10")
    case True
    then show ?thesis by (subst show_nat.simps) simp
  next
    case False
    with 1 show ?thesis
      by (subst show_nat.simps) (simp add: read_digits_append set_show_nat)
  qed
qed

lemma parse_long_show_nat: "parse_long (show_nat n) = int n"
proof -
  obtain c r where cr: "show_nat n = c # r"
    by (cases "show_nat n") auto
  then have "isdigit c"
    using set_show_nat [of c n] by simp
  then have "\<not> isspace c" "c \<noteq> CHR ''-''" "c \<noteq> CHR ''+''"
    by (auto dest: isdigit_not_special)
  with cr have "parse_long (show_nat n) = int (read_digits 0 (show_nat n))"
    by (simp add: parse_long_def)
  then show ?thesis
    by (simp add: read_digits_show_nat)
qed

lemma sat64_id: "- (2 ^ 63) \<le> i \<Longrightarrow> i < 2 ^ 63 \<Longrightarrow> sat64 i = i"
  by (simp add: sat64_def)

lemma atoll_show_u64:
  assumes "unat w < 2 ^ 63"
  shows "atoll (show_u64 w) = int (unat w)"
proof -
  have "int (unat w) < 2 ^ 63"
    using assms of_nat_less_iff [of "unat w" "2 ^ 63", where 'a = int]
    by (simp only: of_nat_power of_nat_numeral)
  moreover have "0 \<le> int (unat w)"
    by (rule of_nat_0_le_iff)
  ultimately have "sat64 (int (unat w)) = int (unat w)"
    using sat64_id [of "int (unat w)"] by linarith
  then show ?thesis
    by (simp only: atoll_def strtol_def show_u64_def parse_long_show_nat)
qed

lemma atoi_show_u32: 
  assumes "- (2 ^ 31) \<le> i" "i < 2 ^ 31"
  shows "atoi (show_u32_of_int i) = i"
proof -
  have r: "0 \<le> i mod 2 ^ 32" "i mod 2 ^ 32 < 2 ^ 32"
    by simp_all
  then have "sat64 (i mod 2 ^ 32) = i mod 2 ^ 32"
    by (simp add: sat64_def)
  moreover have "wrap32 (i mod 2 ^ 32) = i"
    using assms by (simp add: wrap32_def mod_add_left_eq)
  ultimately show ?thesis
    using r by (simp add: atoi_def strtol_def show_u32_of_int_def parse_long_show_nat)
qed

lemma parse_long_show_int: "parse_long (show_int i) = i"
proof (cases "i < 0")
  case True
  then show ?thesis
    by (simp add: show_int_def parse_long_def read_digits_show_nat char_class_defs)
next
  case False
  then show ?thesis
    by (simp add: show_int_def parse_long_show_nat)
qed

lemma atoi_show_int: "- (2 ^ 31) \<le> i \<Longrightarrow> i < 2 ^ 31 \<Longrightarrow> atoi (show_int i) = i"
  by (simp add: atoi_def strtol_def parse_long_show_int sat64_def wrap32_def)

lemma atol_show_int: "- (2 ^ 63) \<le> i \<Longrightarrow> i < 2 ^ 63 \<Longrightarrow> atol (show_int i) = i"
  by (simp add: atol_def strtol_def parse_long_show_int sat64_def)

lemma cstr_append_NUL [simp]: "NUL \<notin> set t \<Longrightarrow> cstr (t @ NUL # r) = t"
  by (induction t) (auto simp: cstr_def)

lemma cstr_id [simp]: "NUL \<notin> set t \<Longrightarrow> cstr t = t"
  by (induction t) (auto simp: cstr_def)

lemma strsep_all_nonempty [simp]: "strsep_all s d \<noteq> []"
  by (induction s) (auto split: list.splits)

lemma strsep_all_no_delim: "d \<notin> set s \<Longrightarrow> strsep_all s d = [s]"
  by (induction s) auto

text \<open>A token without the delimiter, the delimiter, and the rest.\<close>

lemma strsep_all_step: "d \<notin> set s \<Longrightarrow> strsep_all (s @ d # t) d = s # strsep_all t d"
  by (induction s) auto

lemma strsep_all_unfold:
  "strsep_all s d = (case strsep s d of (t, None) \<Rightarrow> [t] | (t, Some r) \<Rightarrow> t # strsep_all r d)"
  by (induction s) (auto simp: strsep_def split: list.splits)

lemma strstr_None: "strstr s n = None \<longleftrightarrow> (\<forall>p q. s \<noteq> p @ n @ q)"
proof (induction s)
  case Nil
  then show ?case by auto
next
  case (Cons x s)
  have "(\<exists>p q. x # s = p @ n @ q) \<longleftrightarrow> take (length n) (x # s) = n \<or> (\<exists>p q. s = p @ n @ q)"
  proof
    assume "\<exists>p q. x # s = p @ n @ q"
    then obtain p q where "x # s = p @ n @ q" by blast
    then show "take (length n) (x # s) = n \<or> (\<exists>p q. s = p @ n @ q)"
      by (cases p) auto
  next
    assume "take (length n) (x # s) = n \<or> (\<exists>p q. s = p @ n @ q)"
    then show "\<exists>p q. x # s = p @ n @ q"
      by (metis append_Cons append_Nil append_take_drop_id)
  qed
  with Cons show ?case by auto
qed

lemma strcasecmp_eq_refl [simp]: "strcasecmp_eq s s"
  by (simp add: strcasecmp_eq_def)

end
