(* ===== verification/Pstring.thy ===== *)
theory Pstring
  imports CLib
begin

text \<open>
  Growing strings (\<^verbatim>\<open>src/pstring.c\<close>) and the registry of descriptors that a forked child
  closes (\<^verbatim>\<open>src/safe.c\<close>).

  The buffer of a \<open>pstr_t\<close> is modelled byte by byte. \<open>safe_realloc\<close> does not clear the
  bytes it adds: their content is the argument \<open>junk\<close>. A write past the end of the buffer
  is \<^term>\<open>None\<close>, so that the theorem that appending returns is the theorem that it stays in
  bounds. The locale \<open>string_builder\<close> is what the users of \<open>pstr_t\<close> rely on.
\<close>

definition MAX_BUF :: nat where
  "MAX_BUF = 4096"

section \<open>pstr\<close>

record pstr =
  p_buf :: "char list"
  p_len :: nat
  p_size :: nat

definition pstr_new :: pstr where
  "pstr_new = \<lparr>p_buf = replicate MAX_BUF NUL, p_len = 0, p_size = MAX_BUF\<rparr>"

definition pstr_to_string :: "pstr \<Rightarrow> string" where
  "pstr_to_string p = cstr (p_buf p)"

definition pstr_grow :: "(nat \<Rightarrow> char) \<Rightarrow> pstr \<Rightarrow> pstr" where
  "pstr_grow junk p = p\<lparr>p_buf := p_buf p @ map junk [p_size p..<p_size p + MAX_BUF],
     p_size := p_size p + MAX_BUF\<rparr>"

text \<open>
  \<open>strncat (buf + off, src, n)\<close>: the copy starts at the first NUL at or after \<open>off\<close> and
  ends with a NUL of its own.
\<close>

definition strncat_at :: "char list \<Rightarrow> nat \<Rightarrow> string \<Rightarrow> nat \<Rightarrow> char list option" where
  "strncat_at buf off src n =
     (let e = off + length (cstr (drop off buf)); t = take n src @ [NUL]
      in if e < length buf \<and> e + length t \<le> length buf
         then Some (take e buf @ t @ drop (e + length t) buf) else None)"

function pstr_grow_to :: "(nat \<Rightarrow> char) \<Rightarrow> nat \<Rightarrow> pstr \<Rightarrow> pstr" where
  "pstr_grow_to junk inlen p =
     (if p_len p + inlen + 1 > p_size p then pstr_grow_to junk inlen (pstr_grow junk p) else p)"
  by pat_completeness auto
termination
  by (relation "measure (\<lambda>(junk, inlen, p). p_len p + inlen + 1 - p_size p)")
     (auto simp: pstr_grow_def MAX_BUF_def)

declare pstr_grow_to.simps [simp del]

definition pstr_cat :: "(nat \<Rightarrow> char) \<Rightarrow> pstr \<Rightarrow> string \<Rightarrow> pstr option" where
  "pstr_cat junk p s =
     (let p1 = pstr_grow_to junk (length s) p in do {
        b \<leftarrow> strncat_at (p_buf p1) (p_len p1) s (p_size p1 - p_len p1 - 1);
        Some (p1\<lparr>p_buf := b, p_len := p_len p1 + length s\<rparr>)
      })"

text \<open>
  \<open>pstr_append_sprintf\<close> formats first; \<open>vasprintf\<close> is given by its result, and a negative
  one (which \<open>safe_vasprintf\<close> turns into an exit) never arrives here.
\<close>

definition pstr_append_sprintf :: "(nat \<Rightarrow> char) \<Rightarrow> pstr \<Rightarrow> string \<Rightarrow> (pstr \<times> int) option" where
  "pstr_append_sprintf junk p formatted = do {
     p1 \<leftarrow> pstr_cat junk p formatted;
     Some (p1, int (length formatted))
   }"

section \<open>Descriptors closed on fork\<close>

datatype exit_error = Exit int

definition MAX_FD_CLEANUP :: nat where
  "MAX_FD_CLEANUP = 16"

type_synonym fd_list = "int list"

text \<open>The closed descriptors, in order, and the cleared list.\<close>

definition cleanup_fds :: "fd_list \<Rightarrow> int list \<times> fd_list" where
  "cleanup_fds fds = (filter (\<lambda>fd. fd \<noteq> 0) fds, map (\<lambda>fd. 0) fds)"

definition register_fd_cleanup_on_fork :: "int \<Rightarrow> fd_list \<Rightarrow> exit_error + fd_list" where
  "register_fd_cleanup_on_fork fd fds =
     (let i = length (takeWhile (\<lambda>x. x \<noteq> 0) fds)
      in if i = MAX_FD_CLEANUP then Inl (Exit 1) else Inr (fds[i := fd]))"

text \<open>
  \<open>safe_fork\<close>, given the result of \<open>fork\<close>: the returned pid, the closed descriptors and
  the list in the process that returns.
\<close>

definition safe_fork :: "int \<Rightarrow> fd_list \<Rightarrow> exit_error + (int \<times> int list \<times> fd_list)" where
  "safe_fork result fds =
     (if result = -1 then Inl (Exit 1)
      else if result = 0 then (case cleanup_fds fds of (closed, fds') \<Rightarrow> Inr (0, closed, fds'))
      else Inr (result, [], fds))"

text \<open>\<open>safe_strdup\<close> of a pointer that may be NULL (\<open>malloc\<close> does not fail in the model).\<close>

definition safe_strdup :: "string option \<Rightarrow> exit_error + string" where
  "safe_strdup s = (case s of None \<Rightarrow> Inl (Exit 1) | Some t \<Rightarrow> Inr t)"

text \<open>
  The allocating functions, given whether the allocation succeeds: cleared memory, a block that
  keeps its content and is junk behind it, and a formatted string with its length. \<open>vasprintf\<close> is given
  by its result, \<^term>\<open>None\<close> for \<open>-1\<close>.
\<close>

definition safe_malloc :: "bool \<Rightarrow> nat \<Rightarrow> exit_error + char list" where
  "safe_malloc got sz = (if got then Inr (replicate sz NUL) else Inl (Exit 1))"

definition safe_realloc :: "bool \<Rightarrow> (nat \<Rightarrow> char) \<Rightarrow> char list \<Rightarrow> nat \<Rightarrow> exit_error + char list" where
  "safe_realloc got junk ptr newsize =
     (if got then Inr (take newsize ptr @ map junk [length ptr..<newsize]) else Inl (Exit 1))"

definition safe_vasprintf :: "string option \<Rightarrow> exit_error + (string \<times> int)" where
  "safe_vasprintf formatted =
     (case formatted of None \<Rightarrow> Inl (Exit 1) | Some s \<Rightarrow> Inr (s, int (length s)))"

definition safe_asprintf :: "string option \<Rightarrow> exit_error + (string \<times> int)" where
  "safe_asprintf formatted = safe_vasprintf formatted"

text \<open>The string builder allocates with them: a new buffer is cleared, a longer one keeps the text.\<close>

lemma pstr_new_malloc: "safe_malloc True MAX_BUF = Inr (p_buf pstr_new)"
  by (simp add: safe_malloc_def pstr_new_def)

lemma pstr_grow_realloc:
  "length (p_buf p) = p_size p \<Longrightarrow>
    safe_realloc True junk (p_buf p) (p_size p + MAX_BUF) = Inr (p_buf (pstr_grow junk p))"
  by (simp add: safe_realloc_def pstr_grow_def)

section \<open>The interface of a string builder\<close>

locale string_builder =
  fixes new :: 'b
    and cat :: "'b \<Rightarrow> string \<Rightarrow> 'b option"
    and to_string :: "'b \<Rightarrow> string"
    and holds :: "'b \<Rightarrow> string \<Rightarrow> bool"
  assumes new_holds: "holds new []"
    and cat_holds: "holds b t \<Longrightarrow> NUL \<notin> set s \<Longrightarrow> \<exists>b'. cat b s = Some b' \<and> holds b' (t @ s)"
    and to_string_holds: "holds b t \<Longrightarrow> to_string b = t"
begin

text \<open>Appending one string after the other, as the users of the builder do.\<close>

fun cat_all :: "'b \<Rightarrow> string list \<Rightarrow> 'b option" where
  "cat_all b [] = Some b"
| "cat_all b (s # ss) = Option.bind (cat b s) (\<lambda>b'. cat_all b' ss)"

lemma cat_all_holds:
  "holds b t \<Longrightarrow> \<forall>s\<in>set ss. NUL \<notin> set s \<Longrightarrow> \<exists>b'. cat_all b ss = Some b' \<and> holds b' (t @ concat ss)"
proof (induction ss arbitrary: b t)
  case Nil
  then show ?case by simp
next
  case (Cons s ss)
  then obtain b1 where "cat b s = Some b1" "holds b1 (t @ s)"
    using cat_holds by fastforce
  with Cons.IH [of b1 "t @ s"] Cons.prems(2) show ?case by auto
qed

lemma build_all:
  "\<forall>s\<in>set ss. NUL \<notin> set s \<Longrightarrow> \<exists>b. cat_all new ss = Some b \<and> to_string b = concat ss"
  using cat_all_holds [OF new_holds] to_string_holds by fastforce

end

section \<open>pstr is a string builder\<close>

text \<open>The invariant: the text, a NUL behind it, and the recorded size of the buffer.\<close>

definition pstr_holds :: "pstr \<Rightarrow> string \<Rightarrow> bool" where
  "pstr_holds p t \<longleftrightarrow> length (p_buf p) = p_size p \<and> p_len p = length t \<and> p_len p < p_size p \<and>
     take (p_len p) (p_buf p) = t \<and> p_buf p ! p_len p = NUL \<and> NUL \<notin> set t"

lemma pstr_holds_split:
  assumes "pstr_holds p t"
  shows "p_buf p = t @ NUL # drop (Suc (length t)) (p_buf p)"
proof -
  have "p_buf p = take (length t) (p_buf p) @ drop (length t) (p_buf p)" by simp
  moreover have "drop (length t) (p_buf p) = NUL # drop (Suc (length t)) (p_buf p)"
    using assms by (metis pstr_holds_def Cons_nth_drop_Suc)
  ultimately show ?thesis
    using assms by (metis pstr_holds_def)
qed

lemma pstr_grow_holds: "pstr_holds p t \<Longrightarrow> pstr_holds (pstr_grow junk p) t"
  by (auto simp: pstr_holds_def pstr_grow_def nth_append)

lemma pstr_grow_to_holds:
  "pstr_holds p t \<Longrightarrow> pstr_holds (pstr_grow_to junk n p) t \<and>
     p_len (pstr_grow_to junk n p) + n + 1 \<le> p_size (pstr_grow_to junk n p)"
proof (induction junk n p rule: pstr_grow_to.induct)
  case (1 junk n p)
  then show ?case
    using pstr_grow_holds [of p t junk] by (subst (1 2 3) pstr_grow_to.simps) simp
qed

lemma pstr_cat_holds:
  assumes "pstr_holds p t" and "NUL \<notin> set s"
  shows "\<exists>p'. pstr_cat junk p s = Some p' \<and> pstr_holds p' (t @ s)"
proof -
  define q where "q = pstr_grow_to junk (length s) p"
  have q: "pstr_holds q t" "length t + length s + 1 \<le> p_size q"
    using pstr_grow_to_holds [OF assms(1), of junk "length s"]
    by (auto simp: q_def pstr_holds_def)
  let ?r = "drop (Suc (length t)) (p_buf q)"
  have buf: "p_buf q = t @ NUL # ?r" and len: "p_len q = length t" "length (p_buf q) = p_size q"
    using pstr_holds_split [OF q(1)] q(1) by (auto simp: pstr_holds_def)
  have "drop (length t) (p_buf q) = NUL # ?r"
    by (subst buf) simp
  then have e: "cstr (drop (p_len q) (p_buf q)) = []"
    by (simp add: len cstr_def)
  have tk: "take (p_size q - p_len q - 1) s = s"
    using q(2) len by simp
  have "take (length t) (p_buf q) = t"
    by (subst buf) simp
  then have "pstr_cat junk p s = Some (q\<lparr>p_buf := t @ s @ NUL # drop (Suc (length t + length s)) (p_buf q),
      p_len := length t + length s\<rparr>)"
    using q(2) len e tk
    by (simp add: pstr_cat_def strncat_at_def flip: q_def)
  then show ?thesis
    using q assms(2) len(2) by (auto simp: pstr_holds_def nth_append)
qed

interpretation builder: string_builder pstr_new "pstr_cat junk" pstr_to_string pstr_holds for junk
proof unfold_locales
  show "pstr_holds pstr_new []"
    by (simp add: pstr_holds_def pstr_new_def MAX_BUF_def)
  show "pstr_holds b t \<Longrightarrow> NUL \<notin> set s \<Longrightarrow> \<exists>b'. pstr_cat junk b s = Some b' \<and> pstr_holds b' (t @ s)"
    for b t s by (rule pstr_cat_holds)
  show "pstr_holds b t \<Longrightarrow> pstr_to_string b = t" for b t
    using pstr_holds_split [of b t] by (metis pstr_to_string_def pstr_holds_def cstr_append_NUL)
qed

section \<open>Properties\<close>

lemma fold_cat_holds:
  "pstr_holds p t \<Longrightarrow> \<forall>s\<in>set ss. NUL \<notin> set s \<Longrightarrow>
     \<exists>q. fold (\<lambda>s r. Option.bind r (\<lambda>p. pstr_cat junk p s)) ss (Some p) = Some q \<and>
         pstr_holds q (t @ concat ss)"
proof (induction ss arbitrary: p t)
  case (Cons s ss)
  then obtain p1 where p1: "pstr_cat junk p s = Some p1" "pstr_holds p1 (t @ s)"
    using builder.cat_holds [of p t s junk] by auto
  with Cons show ?case
    using Cons.IH [of p1 "t @ s"] by auto
qed auto

text \<open>
  C33: Appending any sequence of strings to a new growing string never writes outside
  the allocated buffer, whatever the bytes are that \<open>realloc\<close> adds, and the result is the
  concatenation.
\<close>

theorem pstr_builds_concat:
  assumes "\<forall>s\<in>set ss. NUL \<notin> set s"
  shows "\<exists>p. fold (\<lambda>s r. Option.bind r (\<lambda>p. pstr_cat junk p s)) ss (Some pstr_new) = Some p \<and>
    pstr_to_string p = concat ss \<and> length (concat ss) < p_size p"
proof -
  obtain p where "fold (\<lambda>s r. Option.bind r (\<lambda>p. pstr_cat junk p s)) ss (Some pstr_new) = Some p"
    "pstr_holds p ([] @ concat ss)"
    using fold_cat_holds [OF builder.new_holds assms] by blast
  then show ?thesis
    using builder.to_string_holds [of p "concat ss"] by (auto simp: pstr_holds_def)
qed

theorem pstr_builds_concat_witness:
  "\<exists>p. fold (\<lambda>s r. Option.bind r (\<lambda>p. pstr_cat (\<lambda>_. CHR ''x'') p s)) [''ab'', ''c''] (Some pstr_new) = Some p
    \<and> pstr_to_string p = ''abc''"
  using pstr_builds_concat [of "[''ab'', ''c'']" "\<lambda>_. CHR ''x''"] by (auto simp: NUL_def)

fun register_all :: "int list \<Rightarrow> fd_list \<Rightarrow> exit_error + fd_list" where
  "register_all [] l = Inr l"
| "register_all (fd # fds) l =
     (case register_fd_cleanup_on_fork fd l of Inl e \<Rightarrow> Inl e | Inr l' \<Rightarrow> register_all fds l')"

definition registered :: "int list \<Rightarrow> fd_list" where
  "registered fds = fds @ replicate (MAX_FD_CLEANUP - length fds) 0"

lemma takeWhile_registered:
  "0 \<notin> set fds \<Longrightarrow> length fds \<le> MAX_FD_CLEANUP \<Longrightarrow> takeWhile (\<lambda>x. x \<noteq> 0) (registered fds) = fds"
  unfolding registered_def
  by (cases "MAX_FD_CLEANUP - length fds") (auto simp: takeWhile_append)

lemma register_one:
  assumes "0 \<notin> set fds" and "length fds < MAX_FD_CLEANUP"
  shows "register_fd_cleanup_on_fork fd (registered fds) = Inr (registered (fds @ [fd]))"
proof -
  obtain k where "MAX_FD_CLEANUP - length fds = Suc k"
    using assms(2) by (metis Suc_diff_Suc)
  then have "(registered fds)[length fds := fd] = registered (fds @ [fd])"
    by (simp add: registered_def list_update_append)
  then show ?thesis
    using assms takeWhile_registered [of fds] by (simp add: register_fd_cleanup_on_fork_def)
qed

lemma register_all_spec:
  "0 \<notin> set (used @ fds) \<Longrightarrow> length (used @ fds) \<le> MAX_FD_CLEANUP \<Longrightarrow>
     register_all fds (registered used) = Inr (registered (used @ fds))"
proof (induction fds arbitrary: used)
  case (Cons fd fds)
  then show ?case
    using register_one [of used fd] Cons.IH [of "used @ [fd]"] by simp
qed simp

text \<open>
  The descriptors registered for clean-up, up to sixteen, are exactly what a forked
  child closes, once each and in order, and the parent keeps them; a seventeenth registration ends
  the process instead of writing behind the table.
\<close>

theorem register_then_fork:
  assumes "0 \<notin> set fds" and "length fds \<le> 16" and "pid > 0"
  shows "\<exists>l. register_all fds (replicate 16 0) = Inr l \<and>
    safe_fork 0 l = Inr (0, fds, replicate 16 0) \<and> safe_fork pid l = Inr (pid, [], l) \<and>
    (length fds = 16 \<longrightarrow> register_fd_cleanup_on_fork fd l = Inl (Exit 1))"
proof -
  have len: "length fds \<le> MAX_FD_CLEANUP"
    using assms(2) by (simp add: MAX_FD_CLEANUP_def)
  have "filter (\<lambda>x. x \<noteq> 0) (registered fds) = fds"
    using assms(1) by (auto simp: registered_def filter_id_conv)
  moreover have "map (\<lambda>x. 0) (registered fds) = replicate 16 (0::int)"
    using assms(2) by (simp add: registered_def map_replicate_const MAX_FD_CLEANUP_def flip: replicate_add)
  ultimately have "cleanup_fds (registered fds) = (fds, replicate 16 0)"
    by (simp add: cleanup_fds_def)
  moreover have "length fds = 16 \<longrightarrow> register_fd_cleanup_on_fork fd (registered fds) = Inl (Exit 1)"
    using takeWhile_registered [OF assms(1) len]
    by (simp add: register_fd_cleanup_on_fork_def MAX_FD_CLEANUP_def)
  moreover have "register_all fds (replicate 16 0) = Inr (registered fds)"
    using register_all_spec [of "[]" fds] assms(1) len by (simp add: registered_def MAX_FD_CLEANUP_def)
  ultimately show ?thesis
    using assms(3) by (intro exI [of _ "registered fds"]) (simp add: safe_fork_def)
qed

theorem register_then_fork_witness:
  "\<exists>l. register_all [3, 5] (replicate 16 0) = Inr l \<and> safe_fork 0 l = Inr (0, [3, 5], replicate 16 0)"
  using register_then_fork [of "[3, 5]" 99 0] by auto

end
