(* ===== verification/CHeap.thy ===== *)
theory CHeap
  imports CLib
begin

text \<open>
  The C heap for one type of object: a list of cells, the address of a cell is its index,
  a free cell is \<^term>\<open>None\<close>. \<open>malloc\<close> takes the first free cell, so an address is
  reused as soon as it has been freed. Loading from, storing to or freeing an address
  that is not allocated is undefined behaviour, the value \<^term>\<open>None\<close>.

  The locale \<open>c_heap\<close> is the interface the clients of the heap rely on, and its extension
  \<open>c_list\<close> holds the facts on NULL-terminated singly linked lists that hold in every such
  heap.
\<close>

section \<open>Cells\<close>

type_synonym 'a heap = "'a option list"

definition load :: "'a heap \<Rightarrow> nat \<Rightarrow> 'a option" where
  "load h a = (if a < length h then h ! a else None)"

definition store :: "'a heap \<Rightarrow> nat \<Rightarrow> 'a \<Rightarrow> 'a heap option" where
  "store h a v = (if load h a = None then None else Some (h[a := Some v]))"

definition malloc_addr :: "'a heap \<Rightarrow> nat" where
  "malloc_addr h = length (takeWhile (\<lambda>x. x \<noteq> None) h)"

definition malloc :: "'a heap \<Rightarrow> 'a \<Rightarrow> nat \<times> 'a heap" where
  "malloc h v =
     (let a = malloc_addr h
      in (a, if a < length h then h[a := Some v] else h @ [Some v]))"

definition free :: "'a heap \<Rightarrow> nat \<Rightarrow> 'a heap option" where
  "free h a = (if load h a = None then None else Some (h[a := None]))"

lemmas heap_defs [clib_simps] = load_def store_def malloc_addr_def malloc_def free_def

section \<open>Linked lists in a heap\<close>

text \<open>
  \<open>lseg ld nxt p xs\<close>: from pointer \<open>p\<close>, following \<open>nxt\<close> until NULL visits exactly the
  cells \<open>xs\<close>, each given with its address and content.
\<close>

fun lseg :: "(nat \<Rightarrow> 'a option) \<Rightarrow> ('a \<Rightarrow> ptr) \<Rightarrow> ptr \<Rightarrow> (nat \<times> 'a) list \<Rightarrow> bool" where
  "lseg ld nxt p [] \<longleftrightarrow> p = None"
| "lseg ld nxt p ((a, c) # xs) \<longleftrightarrow> p = Some a \<and> ld a = Some c \<and> lseg ld nxt (nxt c) xs"

lemma lseg_load: "lseg ld nxt p xs \<Longrightarrow> (a, c) \<in> set xs \<Longrightarrow> ld a = Some c"
  by (induction ld nxt p xs rule: lseg.induct) auto

lemma lseg_cong:
  "lseg ld nxt p xs \<Longrightarrow> (\<And>a. a \<in> fst ` set xs \<Longrightarrow> ld' a = ld a) \<Longrightarrow> lseg ld' nxt p xs"
  by (induction ld nxt p xs rule: lseg.induct) auto

lemma lseg_functional: "lseg ld nxt p xs \<Longrightarrow> lseg ld nxt p ys \<Longrightarrow> xs = ys"
proof (induction xs arbitrary: p ys)
  case Nil
  then show ?case by (cases ys) auto
next
  case (Cons x xs)
  obtain a c where x: "x = (a, c)" by (cases x)
  with Cons.prems obtain zs where ys: "ys = (a, c) # zs" and "lseg ld nxt (nxt c) zs"
    by (cases ys) auto
  with Cons.IH [of "nxt c" zs] Cons.prems(1) x show ?case by simp
qed

lemma lseg_suffix:
  "lseg ld nxt p (xs @ (a, c) # ys) \<Longrightarrow> lseg ld nxt (nxt c) ys"
  by (induction xs arbitrary: p) auto

text \<open>A list that ends in NULL visits no cell twice: the visited cells are distinct.\<close>

lemma lseg_distinct: "lseg ld nxt p xs \<Longrightarrow> distinct (map fst xs)"
proof (induction ld nxt p xs rule: lseg.induct)
  case (1 ld nxt p)
  then show ?case by simp
next
  case (2 ld nxt p a c xs)
  have "a \<notin> fst ` set xs"
  proof
    assume "a \<in> fst ` set xs"
    then obtain d where d: "(a, d) \<in> set xs" by auto
    from 2(2) have seg: "lseg ld nxt (nxt c) xs" and ac: "ld a = Some c" by auto
    with d have "d = c" using lseg_load by fastforce
    with d obtain us vs where uv: "xs = us @ (a, c) # vs"
      by (meson split_list)
    with seg have "lseg ld nxt (nxt c) vs" using lseg_suffix [of ld nxt "nxt c" us a c vs] by simp
    with seg have "xs = vs" by (rule lseg_functional)
    with uv show False by (metis impossible_Cons length_append le_add2)
  qed
  with 2 show ?case by simp
qed

section \<open>The heap interface\<close>

locale c_heap =
  fixes ld :: "'h \<Rightarrow> nat \<Rightarrow> 'a option"
    and st :: "'h \<Rightarrow> nat \<Rightarrow> 'a \<Rightarrow> 'h option"
    and new :: "'h \<Rightarrow> 'a \<Rightarrow> nat \<times> 'h"
    and fr :: "'h \<Rightarrow> nat \<Rightarrow> 'h option"
  assumes st_defined: "st h a v = None \<longleftrightarrow> ld h a = None"
    and ld_st: "st h a v = Some h' \<Longrightarrow> ld h' = (ld h)(a \<mapsto> v)"
    and new_fresh: "new h v = (a, h') \<Longrightarrow> ld h a = None"
    and ld_new: "new h v = (a, h') \<Longrightarrow> ld h' = (ld h)(a \<mapsto> v)"
    and fr_defined: "fr h a = None \<longleftrightarrow> ld h a = None"
    and ld_fr: "fr h a = Some h' \<Longrightarrow> ld h' = (ld h)(a := None)"
begin

lemma st_some: "ld h a = Some w \<Longrightarrow> \<exists>h'. st h a v = Some h' \<and> ld h' = (ld h)(a \<mapsto> v)"
  using st_defined [of h a v] ld_st [of h a v] by (cases "st h a v") auto

lemma fr_some: "ld h a = Some w \<Longrightarrow> \<exists>h'. fr h a = Some h' \<and> ld h' = (ld h)(a := None)"
  using fr_defined [of h a] ld_fr [of h a] by (cases "fr h a") auto

lemma double_free: "fr h a = Some h' \<Longrightarrow> fr h' a = None"
  using fr_defined ld_fr by fastforce

end

locale c_list = c_heap ld st new fr
  for ld :: "'h \<Rightarrow> nat \<Rightarrow> 'a option"
    and st :: "'h \<Rightarrow> nat \<Rightarrow> 'a \<Rightarrow> 'h option"
    and new :: "'h \<Rightarrow> 'a \<Rightarrow> nat \<times> 'h"
    and fr :: "'h \<Rightarrow> nat \<Rightarrow> 'h option" +
  fixes nxt :: "'a \<Rightarrow> ptr"
    and set_nxt :: "ptr \<Rightarrow> 'a \<Rightarrow> 'a"
  assumes nxt_set_nxt: "nxt (set_nxt p c) = p"
begin

lemma lseg_st_other:
  "lseg (ld h) nxt p xs \<Longrightarrow> st h a v = Some h' \<Longrightarrow> a \<notin> fst ` set xs \<Longrightarrow> lseg (ld h') nxt p xs"
  by (erule lseg_cong) (auto simp: ld_st)

lemma lseg_new:
  assumes "lseg (ld h) nxt p xs" and "new h v = (a, h')"
  shows "lseg (ld h') nxt p xs" "a \<notin> fst ` set xs"
proof -
  show a: "a \<notin> fst ` set xs"
    using lseg_load [OF assms(1)] new_fresh [OF assms(2)] by fastforce
  show "lseg (ld h') nxt p xs"
    using assms(1) by (rule lseg_cong) (use a ld_new [OF assms(2)] in auto)
qed

lemma lseg_fr_other:
  "lseg (ld h) nxt p xs \<Longrightarrow> fr h a = Some h' \<Longrightarrow> a \<notin> fst ` set xs \<Longrightarrow> lseg (ld h') nxt p xs"
  by (erule lseg_cong) (auto simp: ld_fr)

text \<open>Linking a fresh cell in front of a list.\<close>

lemma lseg_push:
  assumes "lseg (ld h) nxt p xs" and "st h a v = Some h'" and "a \<notin> fst ` set xs"
    and "nxt v = p"
  shows "lseg (ld h') nxt (Some a) ((a, v) # xs)"
proof -
  have "ld h' a = Some v"
    using ld_st [OF assms(2)] by simp
  with lseg_st_other [OF assms(1-3)] assms(4) show ?thesis by simp
qed

text \<open>Unlinking the cell \<open>b\<close> behind \<open>a\<close>: the store to \<open>a->next\<close> of \<open>b->next\<close>.\<close>

lemma lseg_unlink:
  assumes "lseg (ld h) nxt p (xs @ (a, c) # (b, d) # ys)"
    and "st h a (set_nxt (nxt d) c) = Some h'"
  shows "lseg (ld h') nxt p (xs @ (a, set_nxt (nxt d) c) # ys)"
  using assms
proof (induction xs arbitrary: p)
  case Nil
  then have seg: "lseg (ld h) nxt (nxt d) ys" and p: "p = Some a"
    by auto
  have "a \<notin> fst ` set ys"
    using lseg_distinct [OF Nil(1)] by force
  then have "lseg (ld h') nxt (nxt d) ys"
    using seg Nil(2) lseg_st_other by blast
  moreover have "ld h' a = Some (set_nxt (nxt d) c)"
    using ld_st [OF Nil(2)] by simp
  ultimately show ?case
    by (simp add: p nxt_set_nxt)
next
  case (Cons x xs)
  obtain e f where x: "x = (e, f)" by (cases x)
  have "a \<noteq> e"
    using lseg_distinct [OF Cons.prems(1)] x by auto
  then have "ld h' e = ld h e"
    using ld_st [OF Cons.prems(2)] by simp
  with Cons x show ?case
    by simp
qed

end

section \<open>The cells implement the interface\<close>

lemma store_defined: "store h a v = None \<longleftrightarrow> load h a = None"
  by (simp add: store_def)

lemma load_store: "store h a v = Some h' \<Longrightarrow> load h' = (load h)(a \<mapsto> v)"
  by (auto simp: store_def load_def fun_eq_iff split: if_splits)

lemma malloc_addr_free: "load h (malloc_addr h) = None"
proof (cases "malloc_addr h < length h")
  case True
  then have "h ! malloc_addr h = None"
    unfolding malloc_addr_def using nth_length_takeWhile by blast
  then show ?thesis by (simp add: load_def)
next
  case False
  then show ?thesis by (simp add: load_def)
qed

lemma malloc_addr_le: "malloc_addr h \<le> length h"
  by (simp add: malloc_addr_def length_takeWhile_le)

lemma load_malloc: "malloc h v = (a, h') \<Longrightarrow> load h' = (load h)(a \<mapsto> v)"
  using malloc_addr_le [of h]
  by (auto simp: malloc_def Let_def load_def fun_eq_iff nth_append split: if_splits)

lemma free_defined: "free h a = None \<longleftrightarrow> load h a = None"
  by (simp add: free_def)

lemma load_free: "free h a = Some h' \<Longrightarrow> load h' = (load h)(a := None)"
  by (auto simp: free_def load_def fun_eq_iff split: if_splits)

interpretation cells: c_heap load store malloc free
proof unfold_locales
  fix h :: "'a heap" and a v h'
  show "store h a v = None \<longleftrightarrow> load h a = None" by (rule store_defined)
  show "store h a v = Some h' \<Longrightarrow> load h' = (load h)(a \<mapsto> v)" by (rule load_store)
  show "malloc h v = (a, h') \<Longrightarrow> load h a = None"
    using malloc_addr_free [of h] by (auto simp: malloc_def Let_def)
  show "malloc h v = (a, h') \<Longrightarrow> load h' = (load h)(a \<mapsto> v)" by (rule load_malloc)
  show "free h a = None \<longleftrightarrow> load h a = None" by (rule free_defined)
  show "free h a = Some h' \<Longrightarrow> load h' = (load h)(a := None)" by (rule load_free)
qed

lemmas cell_specs [heap_specs] = cells.st_some cells.fr_some cells.ld_new cells.new_fresh

end
