(* ===== verification/Client_List.thy ===== *)
theory Client_List
  imports CHeap
begin

text \<open>
  The list of connected clients (\<^verbatim>\<open>src/client_list.c\<close>, \<^verbatim>\<open>src/client_list.h\<close>): nodes on
  the heap, linked by their \<open>next\<close> pointers from the static variable \<open>firstclient\<close>, each
  with a number drawn from the static counter \<open>client_id\<close>.

  The operations are those of the C file on an explicit heap, so that a dangling pointer,
  a double free or a cyclic list makes them return \<^term>\<open>None\<close>. The predicate \<open>clist\<close>
  relates a heap to the list of clients it holds; the specifications collected in
  \<open>client_specs\<close> say that on such a heap every operation returns and acts on the list as
  the comments of the header promise, and that it leaves every other cell alone.
  The names of record fields that clash with a HOL constant carry the prefix \<open>c_\<close>.
\<close>

section \<open>Data\<close>

record t_counters =
  incoming :: u64
  outgoing :: u64
  incoming_history :: u64
  outgoing_history :: u64
  incoming_delta :: u64
  outgoing_delta :: u64
  last_updated :: int

record t_client =
  c_next :: ptr
  c_id :: u64
  c_ip :: "string option"
  c_mac :: "string option"
  c_token :: "string option"
  fw_connection_state :: int
  c_fd :: int
  counters :: t_counters

record client_state =
  heap :: "t_client heap"
  firstclient :: ptr
  client_id :: u64

definition zero_counters :: t_counters where
  "zero_counters = \<lparr>incoming = 0, outgoing = 0, incoming_history = 0, outgoing_history = 0,
     incoming_delta = 0, outgoing_delta = 0, last_updated = 0\<rparr>"

text \<open>A node as \<open>safe_malloc\<close> returns it: every byte zero.\<close>

definition zero_client :: t_client where
  "zero_client = \<lparr>c_next = None, c_id = 0, c_ip = None, c_mac = None, c_token = None,
     fw_connection_state = 0, c_fd = 0, counters = zero_counters\<rparr>"

definition initial_clients :: client_state where
  "initial_clients = \<lparr>heap = [], firstclient = None, client_id = 1\<rparr>"

section \<open>Operations\<close>

definition client_get_new :: "client_state \<Rightarrow> nat \<times> client_state" where
  "client_get_new s = (let (a, h) = malloc (heap s) zero_client in (a, s\<lparr>heap := h\<rparr>))"

definition client_get_first_client :: "client_state \<Rightarrow> ptr" where
  "client_get_first_client s = firstclient s"

definition client_list_init :: "client_state \<Rightarrow> client_state" where
  "client_list_init s = s\<lparr>firstclient := None\<rparr>"

definition client_list_insert_client :: "nat \<Rightarrow> client_state \<Rightarrow> client_state option" where
  "client_list_insert_client a s = do {
     c \<leftarrow> load (heap s) a;
     h \<leftarrow> store (heap s) a (c\<lparr>c_id := client_id s, c_next := firstclient s\<rparr>);
     Some (s\<lparr>heap := h, client_id := client_id s + 1, firstclient := Some a\<rparr>)
   }"

text \<open>\<open>now\<close> is the result of \<open>time (NULL)\<close>.\<close>

definition client_list_add ::
  "string \<Rightarrow> string \<Rightarrow> string \<Rightarrow> int \<Rightarrow> client_state \<Rightarrow> (nat \<times> client_state) option" where
  "client_list_add ip mac token now s = (let (a, s1) = client_get_new s in do {
     c \<leftarrow> load (heap s1) a;
     h \<leftarrow> store (heap s1) a (c\<lparr>c_ip := Some ip, c_mac := Some mac, c_token := Some token,
        counters := (counters c)\<lparr>incoming_delta := 0, outgoing_delta := 0, incoming := 0,
           incoming_history := 0, outgoing := 0, outgoing_history := 0, last_updated := now\<rparr>\<rparr>);
     s2 \<leftarrow> client_list_insert_client a (s1\<lparr>heap := h\<rparr>);
     Some (a, s2)
   })"

text \<open>
  \<open>client_dup\<close> copies neither \<open>fw_connection_state\<close> nor \<open>fd\<close>: they stay zero in the
  copy. \<open>safe_strdup\<close> exits on NULL.
\<close>

definition client_dup :: "ptr \<Rightarrow> client_state \<Rightarrow> (ptr \<times> client_state) option" where
  "client_dup src s =
     (case src of
        None \<Rightarrow> Some (None, s)
      | Some a \<Rightarrow> (let (b, s1) = client_get_new s in do {
          c \<leftarrow> load (heap s1) a;
          n \<leftarrow> load (heap s1) b;
          ip \<leftarrow> c_ip c;
          mac \<leftarrow> c_mac c;
          token \<leftarrow> c_token c;
          h \<leftarrow> store (heap s1) b (n\<lparr>c_id := c_id c, c_ip := Some ip, c_mac := Some mac,
                 c_token := Some token, counters := counters c, c_next := None\<rparr>);
          Some (Some b, s1\<lparr>heap := h\<rparr>)
        }))"

text \<open>The assignment \<open>p->next = q\<close>.\<close>

definition set_next :: "ptr \<Rightarrow> ptr \<Rightarrow> client_state \<Rightarrow> client_state option" where
  "set_next p q s = do {
     a \<leftarrow> p;
     c \<leftarrow> load (heap s) a;
     h \<leftarrow> store (heap s) a (c\<lparr>c_next := q\<rparr>);
     Some (s\<lparr>heap := h\<rparr>)
   }"

partial_function (option) client_list_dup_loop ::
  "client_state \<Rightarrow> ptr \<Rightarrow> ptr \<Rightarrow> ptr \<Rightarrow> int \<Rightarrow> (ptr \<times> int \<times> client_state) option" where
  "client_list_dup_loop s cur first prev copied =
     (case cur of
        None \<Rightarrow> Some (first, copied, s)
      | Some a \<Rightarrow> Option.bind (client_dup cur s) (\<lambda>(new, s1).
          Option.bind (if first = None then Some s1 else set_next prev new s1) (\<lambda>s2.
            Option.bind (load (heap s2) a) (\<lambda>c.
              client_list_dup_loop s2 (c_next c) (if first = None then new else first) new
                (copied + 1)))))"

definition client_list_dup :: "client_state \<Rightarrow> (ptr \<times> int \<times> client_state) option" where
  "client_list_dup s = client_list_dup_loop s (firstclient s) None None 0"

text \<open>
  The four lookups are the same loop with another test; a test is \<^term>\<open>None\<close> where
  \<open>strcmp\<close> would be called on NULL.
\<close>

partial_function (option) find_loop ::
  "(t_client \<Rightarrow> bool option) \<Rightarrow> client_state \<Rightarrow> ptr \<Rightarrow> ptr option" where
  "find_loop test s p =
     (case p of
        None \<Rightarrow> Some None
      | Some a \<Rightarrow> Option.bind (load (heap s) a) (\<lambda>c.
          Option.bind (test c) (\<lambda>found.
            if found then Some p else find_loop test s (c_next c))))"

definition client_list_find_by_client :: "nat \<Rightarrow> client_state \<Rightarrow> ptr option" where
  "client_list_find_by_client b s =
     find_loop (\<lambda>c. do { d \<leftarrow> load (heap s) b; Some (c_id c = c_id d) }) s (firstclient s)"

definition client_list_find :: "string \<Rightarrow> string \<Rightarrow> client_state \<Rightarrow> ptr option" where
  "client_list_find ip mac s =
     find_loop (\<lambda>c. do { i \<leftarrow> c_ip c;
       if i = ip then do { m \<leftarrow> c_mac c; Some (m = mac) } else Some False }) s (firstclient s)"

definition client_list_find_by_ip :: "string \<Rightarrow> client_state \<Rightarrow> ptr option" where
  "client_list_find_by_ip ip s =
     find_loop (\<lambda>c. do { i \<leftarrow> c_ip c; Some (i = ip) }) s (firstclient s)"

definition client_list_find_by_mac :: "string \<Rightarrow> client_state \<Rightarrow> ptr option" where
  "client_list_find_by_mac mac s =
     find_loop (\<lambda>c. do { m \<leftarrow> c_mac c; Some (m = mac) }) s (firstclient s)"

definition client_list_find_by_token :: "string \<Rightarrow> client_state \<Rightarrow> ptr option" where
  "client_list_find_by_token token s =
     find_loop (\<lambda>c. do { t \<leftarrow> c_token c; Some (t = token) }) s (firstclient s)"

definition client_free_node :: "nat \<Rightarrow> client_state \<Rightarrow> client_state option" where
  "client_free_node a s = do { h \<leftarrow> free (heap s) a; Some (s\<lparr>heap := h\<rparr>) }"

partial_function (option) client_list_destroy :: "ptr \<Rightarrow> client_state \<Rightarrow> client_state option" where
  "client_list_destroy p s =
     (case p of
        None \<Rightarrow> Some s
      | Some a \<Rightarrow> Option.bind (load (heap s) a) (\<lambda>c.
          Option.bind (client_free_node a s) (\<lambda>s1. client_list_destroy (c_next c) s1)))"

text \<open>
  The loop of \<open>client_list_remove\<close>: the node whose \<open>next\<close> is the client, or the last node.
\<close>

partial_function (option) remove_loop :: "nat \<Rightarrow> nat \<Rightarrow> client_state \<Rightarrow> nat option" where
  "remove_loop client a s =
     Option.bind (load (heap s) a) (\<lambda>c.
       case c_next c of
         None \<Rightarrow> Some a
       | Some b \<Rightarrow> if b = client then Some a else remove_loop client b s)"

definition client_list_remove :: "nat \<Rightarrow> client_state \<Rightarrow> client_state option" where
  "client_list_remove client s =
     (case firstclient s of
        None \<Rightarrow> Some s
      | Some a \<Rightarrow>
          if a = client then do {
            c \<leftarrow> load (heap s) a;
            Some (s\<lparr>firstclient := c_next c\<rparr>)
          }
          else do {
            p \<leftarrow> remove_loop client a s;
            c \<leftarrow> load (heap s) p;
            if c_next c = None then Some s
            else do {
              d \<leftarrow> load (heap s) client;
              set_next (Some p) (c_next d) s
            }
          })"

definition client_list_delete :: "nat \<Rightarrow> client_state \<Rightarrow> client_state option" where
  "client_list_delete client s = do {
     s1 \<leftarrow> client_list_remove client s;
     client_free_node client s1
   }"

text \<open>An assignment to fields of the node at \<open>a\<close>.\<close>

definition modify :: "nat \<Rightarrow> (t_client \<Rightarrow> t_client) \<Rightarrow> client_state \<Rightarrow> client_state option" where
  "modify a f s = do {
     c \<leftarrow> load (heap s) a;
     h \<leftarrow> store (heap s) a (f c);
     Some (s\<lparr>heap := h\<rparr>)
   }"

section \<open>The list a heap holds\<close>

text \<open>
  The data of a node is the node without its link. \<open>dseg s p ds\<close>: the nodes from \<open>p\<close> to
  NULL have the addresses and data \<open>ds\<close>; \<open>clist\<close> starts at \<open>firstclient\<close>.
\<close>

definition cdata :: "t_client \<Rightarrow> t_client" where
  "cdata c = c\<lparr>c_next := None\<rparr>"

definition dseg :: "client_state \<Rightarrow> ptr \<Rightarrow> (nat \<times> t_client) list \<Rightarrow> bool" where
  "dseg s p ds \<longleftrightarrow>
     (\<exists>xs. lseg (load (heap s)) c_next p xs \<and> ds = map (\<lambda>(a, c). (a, cdata c)) xs)"

definition clist :: "client_state \<Rightarrow> (nat \<times> t_client) list \<Rightarrow> bool" where
  "clist s ds \<longleftrightarrow> dseg s (firstclient s) ds"

definition valid_client :: "t_client \<Rightarrow> bool" where
  "valid_client d \<longleftrightarrow> c_ip d \<noteq> None \<and> c_mac d \<noteq> None \<and> c_token d \<noteq> None"

definition valid_clients :: "(nat \<times> t_client) list \<Rightarrow> bool" where
  "valid_clients ds \<longleftrightarrow> list_all (\<lambda>(a, d). valid_client d) ds"

text \<open>What \<open>client_dup\<close> makes of the data of a client.\<close>

definition dup_data :: "t_client \<Rightarrow> t_client" where
  "dup_data d = d\<lparr>c_next := None, fw_connection_state := 0, c_fd := 0\<rparr>"

interpretation cl: c_list load store malloc free c_next "\<lambda>p c. c\<lparr>c_next := p\<rparr>"
  by unfold_locales simp

lemma cdata_simps [simp]:
  "c_id (cdata c) = c_id c" "c_ip (cdata c) = c_ip c" "c_mac (cdata c) = c_mac c"
  "c_token (cdata c) = c_token c" "fw_connection_state (cdata c) = fw_connection_state c"
  "c_fd (cdata c) = c_fd c" "counters (cdata c) = counters c" "c_next (cdata c) = None"
  "cdata (c\<lparr>c_next := p\<rparr>) = cdata c" "cdata (cdata c) = cdata c"
  by (simp_all add: cdata_def)

lemma dseg_Nil [simp]: "dseg s p [] \<longleftrightarrow> p = None"
  by (simp add: dseg_def)

lemma dseg_Cons [simp]:
  "dseg s p ((a, d) # ds) \<longleftrightarrow>
     p = Some a \<and> (\<exists>c. load (heap s) a = Some c \<and> d = cdata c \<and> dseg s (c_next c) ds)"
proof
  assume "dseg s p ((a, d) # ds)"
  then show "p = Some a \<and> (\<exists>c. load (heap s) a = Some c \<and> d = cdata c \<and> dseg s (c_next c) ds)"
    by (auto simp: dseg_def Cons_eq_map_conv)
next
  assume "p = Some a \<and> (\<exists>c. load (heap s) a = Some c \<and> d = cdata c \<and> dseg s (c_next c) ds)"
  then obtain c xs where c: "p = Some a" "load (heap s) a = Some c" "d = cdata c"
    and xs: "lseg (load (heap s)) c_next (c_next c) xs" "ds = map (\<lambda>(a, c). (a, cdata c)) xs"
    by (auto simp: dseg_def)
  then show "dseg s p ((a, d) # ds)"
    unfolding dseg_def by (intro exI [of _ "(a, c) # xs"]) simp
qed

lemma fst_cdata [simp]: "fst ` (\<lambda>(a, c). (a, cdata c)) ` A = fst ` A"
  by (force simp: image_iff)

lemma dseg_distinct: "dseg s p ds \<Longrightarrow> distinct (map fst ds)"
proof -
  assume "dseg s p ds"
  then obtain xs where "lseg (load (heap s)) c_next p xs" "ds = map (\<lambda>(a, c). (a, cdata c)) xs"
    by (auto simp: dseg_def)
  moreover have "map fst (map (\<lambda>(a, c). (a, cdata c)) xs) = map fst xs"
    by (induction xs) auto
  ultimately show ?thesis
    using lseg_distinct by metis
qed

lemma dseg_load:
  "dseg s p ds \<Longrightarrow> (a, d) \<in> set ds \<Longrightarrow> \<exists>c. load (heap s) a = Some c \<and> cdata c = d"
  by (induction ds arbitrary: p) auto

lemma dseg_allocated: "dseg s p ds \<Longrightarrow> a \<in> fst ` set ds \<Longrightarrow> load (heap s) a \<noteq> None"
  using dseg_load by fastforce

lemma dseg_cong:
  "dseg s p ds \<Longrightarrow> (\<And>a. a \<in> fst ` set ds \<Longrightarrow> load (heap s') a = load (heap s) a) \<Longrightarrow> dseg s' p ds"
  by (induction ds arbitrary: p) auto

lemma dseg_upd:
  assumes "dseg s p ds" and "load (heap s') = (load (heap s))(a := v)" and "a \<notin> fst ` set ds"
  shows "dseg s' p ds"
  using assms(1)
proof (rule dseg_cong)
  fix b
  assume "b \<in> fst ` set ds"
  with assms(3) have "b \<noteq> a" by blast
  with assms(2) show "load (heap s') b = load (heap s) b" by simp
qed

lemma dseg_functional: "dseg s p ds \<Longrightarrow> dseg s p es \<Longrightarrow> ds = es"
  using lseg_functional unfolding dseg_def by blast

lemma clist_functional: "clist s ds \<Longrightarrow> clist s es \<Longrightarrow> ds = es"
  unfolding clist_def by (rule dseg_functional)

lemma valid_clients_simps [simp]:
  "valid_clients []" "valid_clients ((a, d) # ds) \<longleftrightarrow> valid_client d \<and> valid_clients ds"
  by (simp_all add: valid_clients_def)

lemma valid_clients_filter: "valid_clients ds \<Longrightarrow> valid_clients (filter P ds)"
  by (induction ds) auto

lemma valid_client_cdata [simp]: "valid_client (cdata c) = valid_client c"
  by (simp add: valid_client_def)

section \<open>Lookups\<close>

text \<open>The loop returns the first node that passes the test, or NULL at the end.\<close>

lemma find_loop_dseg:
  "dseg s p ds \<Longrightarrow> (\<And>a c. load (heap s) a = Some c \<Longrightarrow> (a, cdata c) \<in> set ds \<Longrightarrow> test c = Some (Q (cdata c)))
   \<Longrightarrow> find_loop test s p = Some (map_option fst (List.find (\<lambda>(a, d). Q d) ds))"
proof (induction ds arbitrary: p)
  case Nil
  then show ?case by (simp add: find_loop.simps)
next
  case (Cons x ds)
  obtain a d where x: "x = (a, d)" by (cases x)
  with Cons.prems(1) obtain c where c: "p = Some a" "load (heap s) a = Some c" "d = cdata c"
    and seg: "dseg s (c_next c) ds" by auto
  have "find_loop test s (c_next c) = Some (map_option fst (List.find (\<lambda>(a, d). Q d) ds))"
    using Cons.IH [OF seg] Cons.prems(2) by simp
  moreover have "test c = Some (Q d)"
    using Cons.prems(2) [of a c] c x by simp
  ultimately show ?case
    using c x by (simp add: find_loop.simps)
qed

lemma valid_mem: "valid_clients ds \<Longrightarrow> (a, d) \<in> set ds \<Longrightarrow> valid_client d"
  by (auto simp: valid_clients_def list_all_iff)

lemma find_by_ip_spec [client_specs]:
  "clist s ds \<Longrightarrow> valid_clients ds \<Longrightarrow>
     client_list_find_by_ip ip s = Some (map_option fst (List.find (\<lambda>(a, d). c_ip d = Some ip) ds))"
  unfolding client_list_find_by_ip_def clist_def
  by (rule find_loop_dseg) (auto dest!: valid_mem simp: valid_client_def)

lemma find_by_mac_spec [client_specs]:
  "clist s ds \<Longrightarrow> valid_clients ds \<Longrightarrow>
     client_list_find_by_mac mac s = Some (map_option fst (List.find (\<lambda>(a, d). c_mac d = Some mac) ds))"
  unfolding client_list_find_by_mac_def clist_def
  by (rule find_loop_dseg) (auto dest!: valid_mem simp: valid_client_def)

lemma find_by_token_spec [client_specs]:
  "clist s ds \<Longrightarrow> valid_clients ds \<Longrightarrow>
     client_list_find_by_token token s =
       Some (map_option fst (List.find (\<lambda>(a, d). c_token d = Some token) ds))"
  unfolding client_list_find_by_token_def clist_def
  by (rule find_loop_dseg) (auto dest!: valid_mem simp: valid_client_def)

lemma find_spec [client_specs]:
  "clist s ds \<Longrightarrow> valid_clients ds \<Longrightarrow>
     client_list_find ip mac s =
       Some (map_option fst (List.find (\<lambda>(a, d). c_ip d = Some ip \<and> c_mac d = Some mac) ds))"
  unfolding client_list_find_def clist_def
  by (rule find_loop_dseg) (auto dest!: valid_mem simp: valid_client_def)

lemma find_by_client_spec [client_specs]:
  "clist s ds \<Longrightarrow> load (heap s) b = Some e \<Longrightarrow>
     client_list_find_by_client b s = Some (map_option fst (List.find (\<lambda>(a, d). c_id d = c_id e) ds))"
  unfolding client_list_find_by_client_def clist_def
  by (rule find_loop_dseg) auto

section \<open>Insertion and assignment\<close>

lemma insert_client_spec:
  assumes "clist s ds" and "load (heap s) a = Some c" and "a \<notin> fst ` set ds"
  shows "\<exists>s'. client_list_insert_client a s = Some s' \<and>
     clist s' ((a, (cdata c)\<lparr>c_id := client_id s\<rparr>) # ds) \<and> client_id s' = client_id s + 1 \<and>
     load (heap s') = (load (heap s))(a \<mapsto> c\<lparr>c_id := client_id s, c_next := firstclient s\<rparr>)"
proof -
  let ?v = "c\<lparr>c_id := client_id s, c_next := firstclient s\<rparr>"
  obtain h where h: "store (heap s) a ?v = Some h" "load h = (load (heap s))(a \<mapsto> ?v)"
    using cells.st_some [OF assms(2)] by blast
  let ?s = "s\<lparr>heap := h, client_id := client_id s + 1, firstclient := Some a\<rparr>"
  have "client_list_insert_client a s = Some ?s"
    using assms(2) h(1) by (simp add: client_list_insert_client_def)
  moreover have "dseg ?s (firstclient s) ds"
    using assms(1,3) h(2) unfolding clist_def by (elim dseg_upd) auto
  then have "clist ?s ((a, (cdata c)\<lparr>c_id := client_id s\<rparr>) # ds)"
    using h(2) by (simp add: clist_def cdata_def)
  ultimately show ?thesis
    using h(2) by simp
qed

text \<open>\<open>client_list_add\<close> puts a valid client with fresh counters in front of the list.\<close>

definition new_client :: "string \<Rightarrow> string \<Rightarrow> string \<Rightarrow> int \<Rightarrow> u64 \<Rightarrow> t_client" where
  "new_client ip mac token now i = zero_client\<lparr>c_id := i, c_ip := Some ip, c_mac := Some mac,
     c_token := Some token, counters := zero_counters\<lparr>last_updated := now\<rparr>\<rparr>"

lemma client_list_add_spec:
  assumes "clist s ds"
  shows "\<exists>a s'. client_list_add ip mac token now s = Some (a, s') \<and>
     clist s' ((a, new_client ip mac token now (client_id s)) # ds) \<and>
     client_id s' = client_id s + 1 \<and> load (heap s) a = None \<and>
     (\<forall>b. b \<noteq> a \<longrightarrow> load (heap s') b = load (heap s) b)"
proof -
  obtain a h where ah: "malloc (heap s) zero_client = (a, h)" by fastforce
  have fresh: "load (heap s) a = None" and ld: "load h = (load (heap s))(a \<mapsto> zero_client)"
    using cells.new_fresh [OF ah] cells.ld_new [OF ah] by auto
  let ?c = "(new_client ip mac token now 0)\<lparr>c_next := None\<rparr>"
  obtain h2 where h2: "store h a ?c = Some h2" "load h2 = (load h)(a \<mapsto> ?c)"
    using cells.st_some [of h a zero_client] ld by auto
  let ?s1 = "s\<lparr>heap := h2\<rparr>"
  have a: "a \<notin> fst ` set ds"
    using assms fresh dseg_allocated unfolding clist_def by blast
  have "clist ?s1 ds"
    using assms a h2(2) ld dseg_upd [of s "firstclient s" ds ?s1 a "Some ?c"]
    by (simp add: clist_def)
  then obtain s' where s': "client_list_insert_client a ?s1 = Some s'"
    "clist s' ((a, (cdata ?c)\<lparr>c_id := client_id s\<rparr>) # ds)" "client_id s' = client_id s + 1"
    "\<And>b. b \<noteq> a \<Longrightarrow> load (heap s') b = load (heap s) b"
    using insert_client_spec [of ?s1 ds a ?c] a h2(2) ld by fastforce
  have "?c = zero_client\<lparr>c_ip := Some ip, c_mac := Some mac, c_token := Some token,
     counters := (counters zero_client)\<lparr>incoming_delta := 0, outgoing_delta := 0, incoming := 0,
       incoming_history := 0, outgoing := 0, outgoing_history := 0, last_updated := now\<rparr>\<rparr>"
    by (simp add: new_client_def zero_client_def zero_counters_def)
  then have "client_list_add ip mac token now s = Some (a, s')"
    using ah ld h2(1) s'(1) by (simp add: client_list_add_def client_get_new_def)
  moreover have "(cdata ?c)\<lparr>c_id := client_id s\<rparr> = new_client ip mac token now (client_id s)"
    by (simp add: new_client_def cdata_def zero_client_def)
  ultimately show ?thesis
    using s' fresh by auto
qed

text \<open>An assignment that leaves the link alone acts on the data of that one client.\<close>

lemma modify_spec:
  assumes "clist s ds" and "load (heap s) a = Some c"
    and nx: "\<And>c. c_next (f c) = c_next c" and data: "\<And>c. cdata (f c) = f (cdata c)"
  shows "\<exists>s'. modify a f s = Some s' \<and>
     clist s' (map (\<lambda>(b, d). (b, if b = a then f d else d)) ds) \<and>
     load (heap s') = (load (heap s))(a \<mapsto> f c) \<and> firstclient s' = firstclient s \<and>
     client_id s' = client_id s"
proof -
  obtain h where h: "store (heap s) a (f c) = Some h" "load h = (load (heap s))(a \<mapsto> f c)"
    using cells.st_some [OF assms(2)] by blast
  let ?s = "s\<lparr>heap := h\<rparr>"
  have "dseg s p ds \<Longrightarrow> dseg ?s p (map (\<lambda>(b, d). (b, if b = a then f d else d)) ds)" for p
  proof (induction ds arbitrary: p)
    case Nil
    then show ?case by simp
  next
    case (Cons x ds)
    obtain b d where x: "x = (b, d)" by (cases x)
    with Cons.prems obtain e where e: "p = Some b" "load (heap s) b = Some e" "d = cdata e"
      and seg: "dseg s (c_next e) ds" by auto
    show ?case
      using Cons.IH [OF seg] x e h(2) assms(2) nx data by (cases "b = a") auto
  qed
  then show ?thesis
    using assms(1,2) h by (simp add: modify_def clist_def)
qed

section \<open>Removal\<close>

lemma remove_loop_found:
  "lseg (load (heap s)) c_next (Some a) (xs @ (p, c) # (client, d) # ys) \<Longrightarrow> remove_loop client a s = Some p"
proof (induction xs arbitrary: a)
  case Nil
  then show ?case by (simp add: remove_loop.simps)
next
  case (Cons x xs)
  obtain b e where x: "x = (b, e)" by (cases x)
  with Cons.prems have b: "b = a" "load (heap s) a = Some e"
    and seg: "lseg (load (heap s)) c_next (c_next e) (xs @ (p, c) # (client, d) # ys)" by auto
  obtain n where n: "c_next e = Some n" "n = fst (hd (xs @ [(p, c)]))"
    using seg by (cases xs) (auto split: prod.splits)
  have "n \<noteq> client"
    using lseg_distinct [OF seg] n(2) by (cases xs) auto
  then show ?case
    using Cons.IH [of n] seg n(1) b by (simp add: remove_loop.simps)
qed

lemma remove_loop_absent:
  "lseg (load (heap s)) c_next (Some a) (xs @ [(p, c)]) \<Longrightarrow> client \<notin> fst ` set (xs @ [(p, c)]) \<Longrightarrow>
     remove_loop client a s = Some p"
proof (induction xs arbitrary: a)
  case Nil
  then show ?case by (simp add: remove_loop.simps)
next
  case (Cons x xs)
  obtain b e where x: "x = (b, e)" by (cases x)
  with Cons.prems have b: "b = a" "load (heap s) a = Some e"
    and seg: "lseg (load (heap s)) c_next (c_next e) (xs @ [(p, c)])" by auto
  obtain n where n: "c_next e = Some n" "n = fst (hd (xs @ [(p, c)]))"
    using seg by (cases xs) (auto split: prod.splits)
  have "n \<noteq> client"
    using Cons.prems(2) n(2) by (cases xs) auto
  then show ?case
    using Cons.IH [of n] Cons.prems(2) seg n(1) b by (simp add: remove_loop.simps)
qed

lemma split_at_pred:
  assumes "b \<in> fst ` set xs" and "fst (hd xs) \<noteq> b"
  shows "\<exists>us p c d ys. xs = us @ (p, c) # (b, d) # ys"
proof -
  obtain us d vs where xs: "xs = us @ (b, d) # vs"
    using assms(1) by (auto dest!: split_list)
  with assms(2) have "us \<noteq> []" by auto
  then obtain ws q where "us = ws @ [q]"
    by (metis rev_exhaust)
  with xs have "xs = ws @ (fst q, snd q) # (b, d) # vs" by simp
  then show ?thesis by blast
qed

lemma filter_fst_neq: "b \<notin> fst ` set xs \<Longrightarrow> filter (\<lambda>(a, d). a \<noteq> b) xs = xs"
  by (induction xs) auto

lemma filter_unlink:
  assumes "distinct (map fst (us @ (p, c) # (b, d) # ys))"
  shows "filter (\<lambda>(a, d). a \<noteq> b) (us @ (p, c) # (b, d) # ys) = us @ (p, c) # ys"
  using assms by (force simp: filter_fst_neq)

text \<open>The state after the node \<open>b\<close> has been taken off the list \<open>ds\<close> of \<open>s\<close>.\<close>

definition removed :: "client_state \<Rightarrow> nat \<Rightarrow> (nat \<times> t_client) list \<Rightarrow> client_state \<Rightarrow> bool" where
  "removed s b ds s' \<longleftrightarrow> clist s' (filter (\<lambda>(a, d). a \<noteq> b) ds) \<and> client_id s' = client_id s \<and>
     (\<forall>a. a = b \<or> a \<notin> fst ` set ds \<longrightarrow> load (heap s') a = load (heap s) a) \<and>
     (\<forall>a. load (heap s') a = None \<longleftrightarrow> load (heap s) a = None)"

lemma remove_first:
  assumes "clist s ds" and "firstclient s = Some b"
  shows "\<exists>s'. client_list_remove b s = Some s' \<and> removed s b ds s'"
proof -
  obtain d es where ds: "ds = (b, d) # es"
    using assms by (cases ds) (auto simp: clist_def)
  with assms obtain c where c: "load (heap s) b = Some c" "dseg s (c_next c) es"
    by (auto simp: clist_def)
  have "b \<notin> fst ` set es"
    using dseg_distinct [of s "firstclient s" ds] assms(1) ds by (simp add: clist_def)
  then have "filter (\<lambda>(a, d). a \<noteq> b) ds = es"
    by (simp add: ds filter_fst_neq)
  moreover have "dseg (s\<lparr>firstclient := c_next c\<rparr>) (c_next c) es"
    using c(2) by (rule dseg_cong) simp
  ultimately show ?thesis
    using assms(2) c by (simp add: client_list_remove_def removed_def clist_def)
qed

lemma remove_later:
  assumes "clist s ds" and "firstclient s = Some a" and "a \<noteq> b" and "b \<in> fst ` set ds"
  shows "\<exists>s'. client_list_remove b s = Some s' \<and> removed s b ds s'"
proof -
  let ?data = "\<lambda>(a, c). (a, cdata c)"
  obtain xs where xs: "lseg (load (heap s)) c_next (firstclient s) xs" and ds: "ds = map ?data xs"
    using assms(1) by (auto simp: clist_def dseg_def)
  have "b \<in> fst ` set xs"
    using assms(4) ds by simp
  moreover have "fst (hd xs) = a"
    using xs assms(2) calculation by (cases xs) auto
  ultimately obtain us p c d zs where split: "xs = us @ (p, c) # (b, d) # zs"
    using split_at_pred assms(3) by metis
  have p: "load (heap s) p = Some c" and d: "load (heap s) b = Some d"
    using lseg_load [OF xs] split by auto
  have nx: "c_next c = Some b"
    using lseg_suffix [of _ _ _ us p c "(b, d) # zs"] xs split by fastforce
  obtain h where h: "store (heap s) p (c\<lparr>c_next := c_next d\<rparr>) = Some h"
    "load h = (load (heap s))(p \<mapsto> c\<lparr>c_next := c_next d\<rparr>)"
    using cells.st_some [OF p] by blast
  have "remove_loop b a s = Some p"
    using remove_loop_found xs split assms(2) by simp
  then have res: "client_list_remove b s = Some (s\<lparr>heap := h\<rparr>)"
    using assms(2,3) p d nx h(1) by (simp add: client_list_remove_def set_next_def)
  have seg: "lseg (load h) c_next (firstclient s) (us @ (p, c\<lparr>c_next := c_next d\<rparr>) # zs)"
    using cl.lseg_unlink xs split h(1) by simp
  have dist: "distinct (map fst (us @ (p, c) # (b, d) # zs))"
    using lseg_distinct [OF xs] split by simp
  have "filter (\<lambda>(a, d). a \<noteq> b) ds = map ?data (filter (\<lambda>(a, d). a \<noteq> b) xs)"
    unfolding ds by (induction xs) auto
  also have "\<dots> = map ?data (us @ (p, c\<lparr>c_next := c_next d\<rparr>) # zs)"
    using filter_unlink [OF dist] split by simp
  finally have "clist (s\<lparr>heap := h\<rparr>) (filter (\<lambda>(a, d). a \<noteq> b) ds)"
    using seg unfolding clist_def dseg_def by auto
  moreover have "p \<noteq> b" "p \<in> fst ` set ds"
    using dist split ds by auto
  ultimately show ?thesis
    using res h(2) p by (auto simp: removed_def)
qed

lemma remove_absent:
  assumes "clist s ds" and "b \<notin> fst ` set ds"
  shows "client_list_remove b s = Some s"
proof (cases "firstclient s")
  case None
  then show ?thesis by (simp add: client_list_remove_def)
next
  case (Some a)
  obtain xs where xs: "lseg (load (heap s)) c_next (firstclient s) xs"
    and ds: "ds = map (\<lambda>(a, c). (a, cdata c)) xs"
    using assms(1) by (auto simp: clist_def dseg_def)
  with Some have "xs \<noteq> []" by auto
  then obtain us p c where split: "xs = us @ [(p, c)]"
    by (metis rev_exhaust surj_pair)
  have "b \<notin> fst ` set xs"
    using assms(2) ds by simp
  then have "remove_loop b a s = Some p"
    using remove_loop_absent [of s a us p c b] xs split Some by simp
  moreover have "a \<in> fst ` set xs"
    using xs Some \<open>xs \<noteq> []\<close> by (cases xs) auto
  with \<open>b \<notin> fst ` set xs\<close> have "a \<noteq> b" by blast
  moreover have "load (heap s) p = Some c" "c_next c = None"
    using lseg_load [OF xs] lseg_suffix [of _ _ _ us p c "[]"] xs split by fastforce+
  ultimately show ?thesis
    using Some by (simp add: client_list_remove_def)
qed

text \<open>
  \<open>client_list_remove\<close> takes the node off the list, wherever it is; a node that is not on
  the list leaves it as it is. Nothing is freed and the removed node keeps its content.
\<close>

lemma client_list_remove_spec:
  assumes "clist s ds"
  shows "\<exists>s'. client_list_remove b s = Some s' \<and> removed s b ds s'"
proof (cases "b \<in> fst ` set ds")
  case True
  then obtain a where "firstclient s = Some a"
    using assms by (cases ds) (auto simp: clist_def)
  with True assms show ?thesis
    using remove_first remove_later by (cases "a = b") auto
next
  case False
  then show ?thesis
    using assms remove_absent by (simp add: removed_def filter_fst_neq)
qed

lemma client_free_node_spec:
  assumes "load (heap s) a = Some c"
  shows "\<exists>s'. client_free_node a s = Some s' \<and> load (heap s') = (load (heap s))(a := None) \<and>
     firstclient s' = firstclient s \<and> client_id s' = client_id s"
proof -
  obtain h where "free (heap s) a = Some h" "load h = (load (heap s))(a := None)"
    using cells.fr_some [OF assms] by blast
  then show ?thesis by (simp add: client_free_node_def)
qed

lemma client_list_delete_spec:
  assumes "clist s ds" and "load (heap s) b = Some c"
  shows "\<exists>s'. client_list_delete b s = Some s' \<and> clist s' (filter (\<lambda>(a, d). a \<noteq> b) ds) \<and>
     client_id s' = client_id s \<and>
     (\<forall>a. a \<noteq> b \<and> a \<notin> fst ` set ds \<longrightarrow> load (heap s') a = load (heap s) a) \<and>
     (\<forall>a. load (heap s') a = None \<longleftrightarrow> a = b \<or> load (heap s) a = None)"
proof -
  obtain s1 where s1: "client_list_remove b s = Some s1" "removed s b ds s1"
    using client_list_remove_spec [OF assms(1)] by blast
  then have "load (heap s1) b = Some c"
    using assms(2) by (simp add: removed_def)
  then obtain s2 where s2: "client_free_node b s1 = Some s2"
    "load (heap s2) = (load (heap s1))(b := None)" "firstclient s2 = firstclient s1"
    "client_id s2 = client_id s1"
    using client_free_node_spec by blast
  have "b \<notin> fst ` set (filter (\<lambda>(a, d). a \<noteq> b) ds)"
    by auto
  then have "clist s2 (filter (\<lambda>(a, d). a \<noteq> b) ds)"
    using s1(2) s2(2,3) dseg_upd unfolding removed_def clist_def by metis
  then show ?thesis
    using s1 s2 by (simp add: client_list_delete_def removed_def)
qed

section \<open>Duplication and destruction\<close>

lemma client_list_destroy_spec:
  "dseg s p es \<Longrightarrow> \<exists>s'. client_list_destroy p s = Some s' \<and>
     load (heap s') = load (heap s) |` (- (fst ` set es)) \<and>
     firstclient s' = firstclient s \<and> client_id s' = client_id s"
proof (induction es arbitrary: p s)
  case Nil
  then show ?case by (simp add: client_list_destroy.simps)
next
  case (Cons x es)
  obtain a d where x: "x = (a, d)" by (cases x)
  with Cons.prems obtain c where c: "p = Some a" "load (heap s) a = Some c"
    and seg: "dseg s (c_next c) es" by auto
  obtain s1 where s1: "client_free_node a s = Some s1"
    "load (heap s1) = (load (heap s))(a := None)" "firstclient s1 = firstclient s"
    "client_id s1 = client_id s"
    using client_free_node_spec [OF c(2)] by blast
  have "a \<notin> fst ` set es"
    using dseg_distinct [OF Cons.prems] x by simp
  then have "dseg s1 (c_next c) es"
    using dseg_upd [OF seg s1(2)] by simp
  then obtain s2 where "client_list_destroy (c_next c) s1 = Some s2"
    "load (heap s2) = load (heap s1) |` (- (fst ` set es))" "firstclient s2 = firstclient s"
    "client_id s2 = client_id s"
    using Cons.IH s1(3,4) by metis
  then show ?case
    using c s1 x by (auto simp: client_list_destroy.simps restrict_map_def fun_eq_iff)
qed

lemma client_dup_spec:
  assumes "load (heap s) a = Some c" and "valid_client c"
  shows "\<exists>b s'. client_dup (Some a) s = Some (Some b, s') \<and> load (heap s) b = None \<and>
     load (heap s') = (load (heap s))(b \<mapsto> dup_data c) \<and> firstclient s' = firstclient s \<and>
     client_id s' = client_id s"
proof -
  obtain b h where bh: "malloc (heap s) zero_client = (b, h)" by fastforce
  have fresh: "load (heap s) b = None" and ld: "load h = (load (heap s))(b \<mapsto> zero_client)"
    using cells.new_fresh [OF bh] cells.ld_new [OF bh] by auto
  with assms(1) have ab: "a \<noteq> b" by auto
  obtain i m t where imt: "c_ip c = Some i" "c_mac c = Some m" "c_token c = Some t"
    using assms(2) by (auto simp: valid_client_def)
  have dup: "zero_client\<lparr>c_id := c_id c, c_ip := Some i, c_mac := Some m, c_token := Some t,
      counters := counters c, c_next := None\<rparr> = dup_data c"
    using imt by (cases c) (simp add: zero_client_def dup_data_def)
  obtain h2 where "store h b (dup_data c) = Some h2" "load h2 = (load h)(b \<mapsto> dup_data c)"
    using cells.st_some [of h b zero_client] ld by auto
  then show ?thesis
    using bh fresh ld ab assms(1) imt dup by (simp add: client_dup_def client_get_new_def)
qed

lemma dup_data_simps [simp]:
  "cdata (dup_data c) = dup_data c" "dup_data (cdata c) = dup_data c" "c_next (dup_data c) = None"
  "cdata ((dup_data c)\<lparr>c_next := p\<rparr>) = dup_data c" "c_id (dup_data c) = c_id c"
  "c_ip (dup_data c) = c_ip c" "c_mac (dup_data c) = c_mac c" "c_token (dup_data c) = c_token c"
  "counters (dup_data c) = counters c" "fw_connection_state (dup_data c) = 0"
  by (simp_all add: dup_data_def cdata_def)

text \<open>
  \<open>grows X s s' es\<close>: \<open>s'\<close> is \<open>s\<close> with the new cells \<open>es\<close>, and all old cells but those
  in \<open>X\<close> unchanged.
\<close>

definition grows :: "nat set \<Rightarrow> client_state \<Rightarrow> client_state \<Rightarrow> (nat \<times> t_client) list \<Rightarrow> bool" where
  "grows X s s' es \<longleftrightarrow> firstclient s' = firstclient s \<and> client_id s' = client_id s \<and>
     (\<forall>a. a \<notin> X \<and> load (heap s) a \<noteq> None \<longrightarrow> load (heap s') a = load (heap s) a) \<and>
     (\<forall>a \<in> fst ` set es. load (heap s) a = None) \<and>
     (\<forall>a. load (heap s') a \<noteq> None \<longrightarrow> load (heap s) a \<noteq> None \<or> a \<in> fst ` set es)"

lemma growsD:
  assumes "grows X s s' es"
  shows "firstclient s' = firstclient s" and "client_id s' = client_id s"
    and "a \<notin> X \<Longrightarrow> load (heap s) a \<noteq> None \<Longrightarrow> load (heap s') a = load (heap s) a"
    and "a \<in> fst ` set es \<Longrightarrow> load (heap s) a = None"
    and "load (heap s') a \<noteq> None \<Longrightarrow> load (heap s) a \<noteq> None \<or> a \<in> fst ` set es"
  using assms unfolding grows_def by (elim conjE; metis)+

lemma grows_dseg:
  assumes "grows X s s' es" and "dseg s p ds" and "X \<inter> fst ` set ds = {}"
  shows "dseg s' p ds"
  using assms(2)
proof (rule dseg_cong)
  fix a
  assume "a \<in> fst ` set ds"
  then have "load (heap s) a \<noteq> None" "a \<notin> X"
    using assms(2,3) dseg_allocated by blast+
  then show "load (heap s') a = load (heap s) a"
    by (intro growsD(3) [OF assms(1)])
qed

lemma grows_clist: "grows {} s s' es \<Longrightarrow> clist s ds \<Longrightarrow> clist s' ds"
  using grows_dseg [of "{}"] by (auto simp: grows_def clist_def)

text \<open>A new cell \<open>b\<close> first, then the growth from the state that has it.\<close>

lemma grows_Cons:
  assumes b: "load (heap s) b = None" and grow: "grows Y s2 s' es" and Y: "Y \<subseteq> insert b X"
    and same: "\<And>a. a \<notin> X \<Longrightarrow> a \<noteq> b \<Longrightarrow> load (heap s2) a = load (heap s) a"
    and dom: "\<And>a. load (heap s2) a \<noteq> None \<longleftrightarrow> load (heap s) a \<noteq> None \<or> a = b"
    and regs: "firstclient s2 = firstclient s" "client_id s2 = client_id s"
  shows "grows X s s' ((b, d) # es)"
  unfolding grows_def
proof (intro conjI allI ballI impI)
  show "firstclient s' = firstclient s" "client_id s' = client_id s"
    using grow regs by (simp_all add: grows_def)
next
  fix a
  assume "a \<notin> X \<and> load (heap s) a \<noteq> None"
  then have a: "a \<notin> X" "load (heap s) a \<noteq> None" "a \<noteq> b" using b by auto
  then have eq: "load (heap s2) a = load (heap s) a" by (intro same)
  have "a \<notin> Y" using a Y by blast
  with eq a(2) have "load (heap s') a = load (heap s2) a"
    by (intro growsD(3) [OF grow]) simp_all
  with eq show "load (heap s') a = load (heap s) a" by simp
next
  fix a
  assume "a \<in> fst ` set ((b, d) # es)"
  then have "a = b \<or> a \<in> fst ` set es" by simp
  then show "load (heap s) a = None"
  proof
    assume "a \<in> fst ` set es"
    then have "load (heap s2) a = None"
      by (rule growsD(4) [OF grow])
    then show ?thesis using dom [of a] by blast
  qed (simp add: b)
next
  fix a
  assume "load (heap s') a \<noteq> None"
  then have "load (heap s2) a \<noteq> None \<or> a \<in> fst ` set es"
    by (rule growsD(5) [OF grow])
  then show "load (heap s) a \<noteq> None \<or> a \<in> fst ` set ((b, d) # es)"
    using dom [of a] by force
qed

definition head_ptr :: "(nat \<times> 'a) list \<Rightarrow> ptr" where
  "head_ptr es = (case es of [] \<Rightarrow> None | (b, d) # _ \<Rightarrow> Some b)"

lemma head_ptr_simps [simp]: "head_ptr [] = None" "head_ptr ((b, d) # es) = Some b"
  by (simp_all add: head_ptr_def)

lemma set_next_spec:
  assumes "load (heap s) a = Some c"
  shows "\<exists>s'. set_next (Some a) q s = Some s' \<and> load (heap s') = (load (heap s))(a \<mapsto> c\<lparr>c_next := q\<rparr>) \<and>
     firstclient s' = firstclient s \<and> client_id s' = client_id s"
proof -
  obtain h where "store (heap s) a (c\<lparr>c_next := q\<rparr>) = Some h"
    "load h = (load (heap s))(a \<mapsto> c\<lparr>c_next := q\<rparr>)"
    using cells.st_some [OF assms] by blast
  then show ?thesis
    using assms by (simp add: set_next_def)
qed

text \<open>
  The loop of \<open>client_list_dup\<close> once the copy \<open>q\<close> has been made: it links the copies of
  \<open>ds\<close> behind \<open>q\<close>.
\<close>

lemma dup_loop_tail:
  assumes "dseg s cur ds" and "valid_clients ds" and "load (heap s) q = Some cq"
    and "c_next cq = None" and "q \<notin> fst ` set ds"
  shows "\<exists>s' es. client_list_dup_loop s cur (Some f) (Some q) n = Some (Some f, n + int (length ds), s') \<and>
     map snd es = map (\<lambda>x. dup_data (snd x)) ds \<and> dseg s' (head_ptr es) es \<and>
     load (heap s') q = Some (cq\<lparr>c_next := head_ptr es\<rparr>) \<and> grows {q} s s' es"
  using assms
proof (induction ds arbitrary: s cur q cq n)
  case Nil
  then show ?case
    by (auto simp: client_list_dup_loop.simps grows_def)
next
  case (Cons x ds)
  obtain a d where x: "x = (a, d)" by (cases x)
  with Cons.prems obtain c where cur: "cur = Some a" and c: "load (heap s) a = Some c" "d = cdata c"
    and seg: "dseg s (c_next c) ds" and val: "valid_client c" "valid_clients ds" by auto
  obtain b s1 where b: "client_dup (Some a) s = Some (Some b, s1)" "load (heap s) b = None"
    "load (heap s1) = (load (heap s))(b \<mapsto> dup_data c)" "firstclient s1 = firstclient s"
    "client_id s1 = client_id s"
    using client_dup_spec [OF c(1) val(1)] by blast
  have neq: "q \<noteq> b" "a \<noteq> b" "a \<noteq> q"
    using b(2) c(1) Cons.prems(3,5) x by auto
  obtain s2 where s2: "set_next (Some q) (Some b) s1 = Some s2"
    "load (heap s2) = (load (heap s1))(q \<mapsto> cq\<lparr>c_next := Some b\<rparr>)" "firstclient s2 = firstclient s"
    "client_id s2 = client_id s"
    using set_next_spec [of s1 q cq "Some b"] b Cons.prems(3) neq by auto
  have nb: "b \<notin> fst ` set ds"
    using dseg_allocated [OF seg] b(2) by blast
  have "dseg s1 (c_next c) ds"
    by (rule dseg_upd [OF seg b(3) nb])
  then have "dseg s2 (c_next c) ds"
    using dseg_upd [of s1 "c_next c" ds s2 q] s2(2) Cons.prems(5) by simp
  moreover have "load (heap s2) b = Some (dup_data c)"
    using s2(2) b(3) neq(1) by simp
  ultimately obtain s' es where IH:
    "client_list_dup_loop s2 (c_next c) (Some f) (Some b) (n + 1) = Some (Some f, n + 1 + int (length ds), s')"
    "map snd es = map (\<lambda>x. dup_data (snd x)) ds" "dseg s' (head_ptr es) es"
    "load (heap s') b = Some ((dup_data c)\<lparr>c_next := head_ptr es\<rparr>)" "grows {b} s2 s' es"
    using Cons.IH [of s2 "c_next c" b "dup_data c" "n + 1"] val(2) nb by auto
  have "client_list_dup_loop s cur (Some f) (Some q) n = Some (Some f, n + int (length (x # ds)), s')"
    using b(1) s2(1,2) IH(1) cur neq c(1) b(3) by (simp add: client_list_dup_loop.simps)
  moreover have "dseg s' (head_ptr ((b, dup_data c) # es)) ((b, dup_data c) # es)"
    using IH(3,4) by simp
  moreover have "load (heap s') q = Some (cq\<lparr>c_next := Some b\<rparr>)"
    using IH(5) s2(2) neq(1) by (simp add: grows_def)
  moreover have "grows {q} s s' ((b, dup_data c) # es)"
    by (rule grows_Cons [OF b(2) IH(5)]) (use s2(2-4) b(3) Cons.prems(3) in auto)
  ultimately show ?case
    using IH(2) x c(2) by (intro exI [of _ s'] exI [of _ "(b, dup_data c) # es"]) simp
qed

text \<open>
  \<open>client_list_dup\<close>: a second list with a copy of every client, in the same order, made of
  new cells only; the list itself and every other cell are unchanged.
\<close>

lemma client_list_dup_spec:
  assumes "clist s ds" and "valid_clients ds"
  shows "\<exists>p s' es. client_list_dup s = Some (p, int (length ds), s') \<and> clist s' ds \<and>
     dseg s' p es \<and> map snd es = map (\<lambda>x. dup_data (snd x)) ds \<and> grows {} s s' es"
proof (cases ds)
  case Nil
  with assms show ?thesis
    by (auto simp: client_list_dup_def clist_def client_list_dup_loop.simps grows_def
        intro!: exI [of _ "[]"])
next
  case (Cons x es)
  obtain a d where x: "x = (a, d)" by (cases x)
  with Cons assms obtain c where cur: "firstclient s = Some a" and c: "load (heap s) a = Some c" "d = cdata c"
    and seg: "dseg s (c_next c) es" and val: "valid_client c" "valid_clients es"
    by (auto simp: clist_def)
  obtain b s1 where b: "client_dup (Some a) s = Some (Some b, s1)" "load (heap s) b = None"
    "load (heap s1) = (load (heap s))(b \<mapsto> dup_data c)" "firstclient s1 = firstclient s"
    "client_id s1 = client_id s"
    using client_dup_spec [OF c(1) val(1)] by blast
  have nb: "b \<notin> fst ` set es"
    using dseg_allocated [OF seg] b(2) by blast
  have ab: "a \<noteq> b"
    using b(2) c(1) by auto
  have "dseg s1 (c_next c) es"
    by (rule dseg_upd [OF seg b(3) nb])
  then obtain s' fs where IH:
    "client_list_dup_loop s1 (c_next c) (Some b) (Some b) 1 = Some (Some b, 1 + int (length es), s')"
    "map snd fs = map (\<lambda>x. dup_data (snd x)) es" "dseg s' (head_ptr fs) fs"
    "load (heap s') b = Some ((dup_data c)\<lparr>c_next := head_ptr fs\<rparr>)" "grows {b} s1 s' fs"
    using dup_loop_tail [of s1 "c_next c" es b "dup_data c" b 1] val(2) nb b(3) by auto
  have "client_list_dup s = Some (Some b, int (length ds), s')"
    using b(1,3) IH(1) cur c(1) ab Cons x
    by (simp add: client_list_dup_def client_list_dup_loop.simps [of s])
  moreover have grow: "grows {} s s' ((b, dup_data c) # fs)"
    by (rule grows_Cons [OF b(2) IH(5)]) (use b(3-5) in auto)
  moreover have "dseg s' (Some b) ((b, dup_data c) # fs)"
    using IH(3,4) by simp
  moreover have "clist s' ds"
    using grows_clist [OF grow assms(1)] .
  ultimately show ?thesis
    using IH(2) Cons x c(2)
    by (intro exI [of _ "Some b"] exI [of _ s'] exI [of _ "(b, dup_data c) # fs"]) simp
qed

end
