(* ===== verification/Client_Registry.thy ===== *)
theory Client_Registry
  imports Client_List
begin

text \<open>
  What the firewall, the authentication code, the web pages and the control socket rely on
  when they call the client list: the locale \<open>client_store\<close>, interpreted on the operations of
  \<^verbatim>\<open>src/client_list.c\<close>, and the invariant of every state that a sequence of these
  calls can reach (unique numbers, every node allocated once and none lost).
\<close>

section \<open>The interface\<close>

locale client_store =
  fixes holds :: "'s \<Rightarrow> (nat \<times> t_client) list \<Rightarrow> bool"
    and add :: "string \<Rightarrow> string \<Rightarrow> string \<Rightarrow> int \<Rightarrow> 's \<Rightarrow> (nat \<times> 's) option"
    and find_key :: "string \<Rightarrow> string \<Rightarrow> 's \<Rightarrow> ptr option"
    and delete :: "nat \<Rightarrow> 's \<Rightarrow> 's option"
  assumes add_law: "holds s ds \<Longrightarrow> \<exists>a s' i. add ip mac token now s = Some (a, s') \<and>
      a \<notin> fst ` set ds \<and> holds s' ((a, new_client ip mac token now i) # ds)"
    and find_law: "holds s ds \<Longrightarrow> find_key ip mac s =
      Some (map_option fst (List.find (\<lambda>(a, d). c_ip d = Some ip \<and> c_mac d = Some mac) ds))"
    and delete_law: "holds s ds \<Longrightarrow> a \<in> fst ` set ds \<Longrightarrow>
      \<exists>s'. delete a s = Some s' \<and> holds s' (filter (\<lambda>(b, d). b \<noteq> a) ds)"
begin

lemma find_after_add:
  assumes "holds s ds"
  shows "\<exists>a s'. add ip mac token now s = Some (a, s') \<and> find_key ip mac s' = Some (Some a) \<and>
    (\<forall>ip' mac'. (ip', mac') \<noteq> (ip, mac) \<longrightarrow> find_key ip' mac' s' = find_key ip' mac' s)"
proof -
  obtain a s' i where a: "add ip mac token now s = Some (a, s')"
    and s': "holds s' ((a, new_client ip mac token now i) # ds)"
    using add_law [OF assms] by blast
  show ?thesis
    using a find_law [OF s'] find_law [OF assms]
    by (intro exI [of _ a] exI [of _ s']) (auto simp: new_client_def)
qed

lemma find_after_delete:
  assumes "holds s ds" and "a \<in> fst ` set ds"
    and "\<forall>(b, d) \<in> set ds. c_ip d = Some ip \<and> c_mac d = Some mac \<longrightarrow> b = a"
  shows "\<exists>s'. delete a s = Some s' \<and> find_key ip mac s' = Some None"
proof -
  obtain s' where "delete a s = Some s'" "holds s' (filter (\<lambda>(b, d). b \<noteq> a) ds)"
    using delete_law [OF assms(1,2)] by blast
  moreover have "List.find (\<lambda>(a, d). c_ip d = Some ip \<and> c_mac d = Some mac)
      (filter (\<lambda>(b, d). b \<noteq> a) ds) = None"
    using assms(3) by (auto simp: find_None_iff)
  ultimately show ?thesis
    using find_law by fastforce
qed

end

definition holds_clients :: "client_state \<Rightarrow> (nat \<times> t_client) list \<Rightarrow> bool" where
  "holds_clients s ds \<longleftrightarrow> clist s ds \<and> valid_clients ds"

lemma new_client_valid [simp]: "valid_client (new_client ip mac token now i)"
  by (simp add: valid_client_def new_client_def)

interpretation store: client_store holds_clients client_list_add client_list_find client_list_delete
proof unfold_locales
  fix s ds ip mac token now
  assume h: "holds_clients s ds"
  then obtain a s' where a: "client_list_add ip mac token now s = Some (a, s')"
    "clist s' ((a, new_client ip mac token now (client_id s)) # ds)" "load (heap s) a = None"
    using client_list_add_spec [of s ds ip mac token now] by (auto simp: holds_clients_def)
  moreover have "a \<notin> fst ` set ds"
    using h a(3) dseg_allocated unfolding holds_clients_def clist_def by blast
  ultimately show "\<exists>a s' i. client_list_add ip mac token now s = Some (a, s') \<and>
      a \<notin> fst ` set ds \<and> holds_clients s' ((a, new_client ip mac token now i) # ds)"
    using h by (auto simp: holds_clients_def)
next
  fix s ds ip mac
  assume "holds_clients s ds"
  then show "client_list_find ip mac s =
      Some (map_option fst (List.find (\<lambda>(a, d). c_ip d = Some ip \<and> c_mac d = Some mac) ds))"
    by (simp add: holds_clients_def find_spec)
next
  fix s ds a
  assume h: "holds_clients s ds" and "a \<in> fst ` set ds"
  then obtain c where "load (heap s) a = Some c"
    using dseg_allocated unfolding holds_clients_def clist_def by blast
  with h show "\<exists>s'. client_list_delete a s = Some s' \<and> holds_clients s' (filter (\<lambda>(b, d). b \<noteq> a) ds)"
    using client_list_delete_spec [of s ds a c] by (auto simp: holds_clients_def valid_clients_filter)
qed

section \<open>Reachable client lists\<close>

text \<open>
  The states after \<open>n\<close> insertions, in any order with deletions of listed clients and
  assignments to their counters, firewall state and token.
\<close>

definition node_update :: "(t_client \<Rightarrow> t_client) \<Rightarrow> bool" where
  "node_update f \<longleftrightarrow> (\<exists>g. f = (\<lambda>c. c\<lparr>counters := g (counters c)\<rparr>)) \<or>
     (\<exists>st. f = (\<lambda>c. c\<lparr>fw_connection_state := st\<rparr>)) \<or> (\<exists>t. f = (\<lambda>c. c\<lparr>c_token := Some t\<rparr>))"

inductive registry :: "nat \<Rightarrow> client_state \<Rightarrow> bool" where
  registry_init: "registry 0 initial_clients"
| registry_add: "registry n s \<Longrightarrow> client_list_add ip mac token now s = Some (a, s') \<Longrightarrow>
     registry (Suc n) s'"
| registry_delete: "registry n s \<Longrightarrow> clist s ds \<Longrightarrow> a \<in> fst ` set ds \<Longrightarrow>
     client_list_delete a s = Some s' \<Longrightarrow> registry n s'"
| registry_update: "registry n s \<Longrightarrow> clist s ds \<Longrightarrow> a \<in> fst ` set ds \<Longrightarrow> node_update f \<Longrightarrow>
     modify a f s = Some s' \<Longrightarrow> registry n s'"

definition id_of :: "nat \<times> t_client \<Rightarrow> u64" where
  "id_of x = c_id (snd x)"

definition registry_inv :: "nat \<Rightarrow> client_state \<Rightarrow> (nat \<times> t_client) list \<Rightarrow> bool" where
  "registry_inv n s ds \<longleftrightarrow> holds_clients s ds \<and> unat (client_id s) = Suc n \<and>
     distinct (map id_of ds) \<and> (\<forall>x \<in> set ds. unat (id_of x) \<le> n) \<and>
     (\<forall>a. load (heap s) a \<noteq> None \<longleftrightarrow> a \<in> fst ` set ds)"

lemma registry_inv_init: "registry_inv 0 initial_clients []"
  by (simp add: registry_inv_def holds_clients_def clist_def initial_clients_def load_def)

lemma registry_inv_load:
  assumes "registry_inv n s ds" and "a \<in> fst ` set ds"
  obtains c where "load (heap s) a = Some c"
  using assms unfolding registry_inv_def by (metis not_None_eq)

lemma id_of_new_client [simp]: "id_of (a, new_client ip mac token now i) = i"
  by (simp add: id_of_def new_client_def)

lemma registry_inv_add:
  assumes inv: "registry_inv n s ds" and add: "client_list_add ip mac token now s = Some (a, s')"
    and n: "Suc (Suc n) < 2 ^ 64"
  shows "registry_inv (Suc n) s' ((a, new_client ip mac token now (client_id s)) # ds)"
proof -
  have s: "clist s ds" "valid_clients ds" "unat (client_id s) = Suc n"
    using inv by (simp_all add: registry_inv_def holds_clients_def)
  have post: "clist s' ((a, new_client ip mac token now (client_id s)) # ds)"
    "client_id s' = client_id s + 1" "\<forall>b. b \<noteq> a \<longrightarrow> load (heap s') b = load (heap s) b"
    using client_list_add_spec [OF s(1), of ip mac token now] add by auto
  have "unat (client_id s') = Suc (Suc n)"
    using s(3) n post(2) by (simp add: unat_word_ariths)
  moreover have "load (heap s') a \<noteq> None"
    using post(1) by (auto simp: clist_def)
  moreover have "client_id s \<noteq> id_of x" if "x \<in> set ds" for x
    using inv s(3) that by (auto simp: registry_inv_def)
  moreover have "load (heap s') b \<noteq> None \<longleftrightarrow> b = a \<or> b \<in> fst ` set ds" for b
    using inv post(3) calculation(2) unfolding registry_inv_def by metis
  ultimately show ?thesis
    using inv post(1) s unfolding registry_inv_def holds_clients_def
    by (auto simp: le_SucI)
qed

lemma registry_inv_delete:
  assumes inv: "registry_inv n s ds" and a: "a \<in> fst ` set ds"
    and del: "client_list_delete a s = Some s'"
  shows "registry_inv n s' (filter (\<lambda>(b, d). b \<noteq> a) ds)"
proof -
  have s: "clist s ds" "valid_clients ds"
    using inv by (simp_all add: registry_inv_def holds_clients_def)
  obtain c where c: "load (heap s) a = Some c"
    using registry_inv_load [OF inv a] .
  have post: "clist s' (filter (\<lambda>(b, d). b \<noteq> a) ds)" "client_id s' = client_id s"
    "\<forall>b. load (heap s') b = None \<longleftrightarrow> b = a \<or> load (heap s) b = None"
    using client_list_delete_spec [OF s(1) c] del by auto
  have "distinct (map id_of (filter (\<lambda>(b, d). b \<noteq> a) ds))"
    using inv by (simp add: registry_inv_def distinct_map_filter)
  moreover have "b \<in> fst ` set (filter (\<lambda>(b, d). b \<noteq> a) ds) \<longleftrightarrow> b \<noteq> a \<and> b \<in> fst ` set ds" for b
    by force
  ultimately show ?thesis
    using inv post s unfolding registry_inv_def holds_clients_def
    by (auto simp: valid_clients_filter)
qed

lemma node_update_simps:
  assumes "node_update f"
  shows "c_next (f c) = c_next c" "cdata (f c) = f (cdata c)" "c_id (f c) = c_id c"
    "valid_client c \<Longrightarrow> valid_client (f c)"
  using assms by (auto simp: node_update_def cdata_def valid_client_def)

lemma update_ids:
  assumes "node_update f"
  shows "map id_of (map (\<lambda>(b, d). (b, if b = a then f d else d)) ds) = map id_of ds"
    and "fst ` set (map (\<lambda>(b, d). (b, if b = a then f d else d)) ds) = fst ` set ds"
    and "valid_clients ds \<Longrightarrow> valid_clients (map (\<lambda>(b, d). (b, if b = a then f d else d)) ds)"
  by (induction ds) (auto simp: id_of_def node_update_simps [OF assms])

lemma registry_inv_update:
  assumes inv: "registry_inv n s ds" and a: "a \<in> fst ` set ds" and f: "node_update f"
    and upd: "modify a f s = Some s'"
  shows "registry_inv n s' (map (\<lambda>(b, d). (b, if b = a then f d else d)) ds)"
proof -
  let ?ds = "map (\<lambda>(b, d). (b, if b = a then f d else d)) ds"
  have s: "clist s ds" "valid_clients ds"
    using inv by (simp_all add: registry_inv_def holds_clients_def)
  obtain c where c: "load (heap s) a = Some c"
    using registry_inv_load [OF inv a] .
  then have post: "clist s' ?ds" "client_id s' = client_id s" "load (heap s') = (load (heap s))(a \<mapsto> f c)"
    using modify_spec [OF s(1) c node_update_simps(1) [OF f] node_update_simps(2) [OF f]] upd by auto
  have ids: "map id_of ?ds = map id_of ds" "fst ` set ?ds = fst ` set ds"
    by (rule update_ids [OF f])+
  moreover have "valid_clients ?ds"
    using s(2) by (rule update_ids(3) [OF f])
  moreover have "id_of ` set ?ds = id_of ` set ds"
    using arg_cong [OF ids(1), of set] by (simp only: set_map)
  then have "\<forall>x \<in> set ?ds. unat (id_of x) \<le> n"
    using inv unfolding registry_inv_def by (metis (no_types, lifting) image_eqI imageE)
  moreover have "load (heap s') b \<noteq> None \<longleftrightarrow> b \<in> fst ` set ds" for b
    using inv a unfolding post(3) registry_inv_def by auto
  ultimately show ?thesis
    using inv post(1,2) unfolding registry_inv_def holds_clients_def by (simp only: simp_thms)
qed

lemma registry_inv_reachable:
  "registry n s \<Longrightarrow> Suc n < 2 ^ 64 \<Longrightarrow> \<exists>ds. registry_inv n s ds"
proof (induction rule: registry.induct)
  case registry_init
  then show ?case using registry_inv_init by blast
next
  case (registry_add n s ip mac token now a s')
  then obtain ds where "registry_inv n s ds" by auto
  then show ?case
    using registry_inv_add registry_add.hyps(2) registry_add.prems by blast
next
  case (registry_delete n s ds a s')
  then obtain es where es: "registry_inv n s es" by auto
  then have "es = ds"
    using registry_delete.hyps(2) clist_functional by (auto simp: registry_inv_def holds_clients_def)
  with es show ?case
    using registry_inv_delete registry_delete.hyps(3,4) by blast
next
  case (registry_update n s ds a f s')
  then obtain es where es: "registry_inv n s es" by auto
  then have "es = ds"
    using registry_update.hyps(2) clist_functional by (auto simp: registry_inv_def holds_clients_def)
  with es show ?case
    using registry_inv_update registry_update.hyps(3-5) by blast
qed

lemma find_unique_id:
  assumes "distinct (map id_of ds)" and "(a, d) \<in> set ds"
  shows "List.find (\<lambda>(b, e). c_id e = c_id d) ds = Some (a, d)"
  using assms
proof (induction ds)
  case (Cons x ds)
  then show ?case
    by (auto simp: id_of_def image_iff split: prod.splits)
qed simp

section \<open>Properties\<close>

text \<open>
  C8: After any number of insertions below \<open>2 ^ 64 - 1\<close>, mixed with deletions and updates,
  the nodes reachable from \<open>firstclient\<close> form a proper list, their numbers are
  pairwise different and below the counter, no address string is missing, and the heap holds
  these nodes and nothing else: deletion leaks no node and frees none that is still listed.
\<close>

theorem registry_invariant:
  assumes "registry n s" and "Suc n < 2 ^ 64"
  shows "\<exists>ds. clist s ds \<and> valid_clients ds \<and> distinct (map id_of ds) \<and>
    (\<forall>x \<in> set ds. id_of x < client_id s) \<and>
    (\<forall>a. load (heap s) a \<noteq> None \<longleftrightarrow> a \<in> fst ` set ds)"
proof -
  obtain ds where "registry_inv n s ds"
    using registry_inv_reachable [OF assms] by blast
  then show ?thesis
    by (intro exI [of _ ds]) (auto simp: registry_inv_def holds_clients_def word_less_nat_alt)
qed

lemma add_one_client:
  "client_list_add ''10.0.0.7'' ''00:01'' ''tok'' 5 initial_clients =
     Some (0, \<lparr>heap = [Some (new_client ''10.0.0.7'' ''00:01'' ''tok'' 5 1)], firstclient = Some 0,
       client_id = 2\<rparr>)"
  by (simp add: client_list_add_def client_get_new_def initial_clients_def malloc_def malloc_addr_def
      load_def store_def client_list_insert_client_def new_client_def zero_client_def zero_counters_def)

theorem registry_invariant_witness:
  "\<exists>s. registry 1 s \<and> (\<exists>ds. clist s ds \<and> distinct (map id_of ds) \<and>
    (\<forall>a. load (heap s) a \<noteq> None \<longleftrightarrow> a \<in> fst ` set ds))"
proof -
  have "registry (Suc 0) \<lparr>heap = [Some (new_client ''10.0.0.7'' ''00:01'' ''tok'' 5 1)],
      firstclient = Some 0, client_id = 2\<rparr>" (is "registry _ ?s")
    by (rule registry_add [OF registry_init add_one_client])
  then have "registry 1 ?s" by simp
  moreover have "Suc 1 < 2 ^ 64" by simp
  ultimately show ?thesis
    using registry_invariant [of 1 ?s] by blast
qed

text \<open>
  C30: A client that was just added is found by its address and MAC, and no other lookup
  changes.
\<close>

theorem add_then_find:
  assumes "clist s ds" and "valid_clients ds"
  shows "\<exists>a s'. client_list_add ip mac token now s = Some (a, s') \<and>
    client_list_find ip mac s' = Some (Some a) \<and>
    (\<forall>ip' mac'. (ip', mac') \<noteq> (ip, mac) \<longrightarrow> client_list_find ip' mac' s' = client_list_find ip' mac' s)"
  using store.find_after_add [of s ds] assms by (simp add: holds_clients_def)

theorem add_then_find_witness:
  "\<exists>a s'. client_list_add ''10.0.0.7'' ''00:01'' ''tok'' 5 initial_clients = Some (a, s') \<and>
    client_list_find ''10.0.0.7'' ''00:01'' s' = Some (Some a)"
  using add_then_find [of initial_clients "[]" "''10.0.0.7''" "''00:01''" "''tok''" 5] registry_inv_init
  by (auto simp: registry_inv_def holds_clients_def)

text \<open>
  C29: Deleting a listed client returns (no dangling pointer is followed), keeps the
  order of the others, frees exactly its node, and the lookup of its address and MAC fails
  afterwards if no other client had both.
\<close>

theorem delete_refines_filter:
  assumes "clist s ds" and "valid_clients ds" and "(a, d) \<in> set ds"
    and "c_ip d = Some ip" and "c_mac d = Some mac"
    and "\<forall>(b, e) \<in> set ds. c_ip e = Some ip \<and> c_mac e = Some mac \<longrightarrow> b = a"
  shows "\<exists>s'. client_list_delete a s = Some s' \<and> clist s' (filter (\<lambda>(b, e). b \<noteq> a) ds) \<and>
    (\<forall>b. load (heap s') b = None \<longleftrightarrow> b = a \<or> load (heap s) b = None) \<and>
    client_list_find ip mac s' = Some None"
proof -
  have a: "a \<in> fst ` set ds"
    using assms(3) by force
  obtain c where c: "load (heap s) a = Some c"
    using dseg_load [OF assms(1) [unfolded clist_def] assms(3)] by blast
  obtain s' where "client_list_delete a s = Some s'" "client_list_find ip mac s' = Some None"
    using store.find_after_delete [OF _ a assms(6)] assms(1,2) unfolding holds_clients_def by blast
  then show ?thesis
    using client_list_delete_spec [OF assms(1) c] by (intro exI [of _ s']) simp
qed

theorem delete_refines_filter_witness:
  "\<exists>s s'. client_list_delete 0 s = Some s' \<and> client_list_find ''10.0.0.7'' ''00:01'' s' = Some None"
proof -
  let ?d = "new_client ''10.0.0.7'' ''00:01'' ''tok'' 5 1"
  let ?s = "\<lparr>heap = [Some ?d], firstclient = Some 0, client_id = 2\<rparr>"
  have "clist ?s [(0, ?d)]" "valid_clients [(0, ?d)]"
    by (simp_all add: clist_def load_def cdata_def new_client_def zero_client_def valid_client_def)
  then show ?thesis
    using delete_refines_filter [of ?s "[(0, ?d)]" 0 ?d "''10.0.0.7''" "''00:01''"]
    by (auto simp: new_client_def)
qed

text \<open>
  C22: Duplicating the list returns a second list with one copy per client, in the same
  order and in new memory, without touching the list; looking a copy up by its number finds
  the client it was made from, which is what the synchronisation thread does after it has
  given up the lock.
\<close>

theorem dup_find_original:
  assumes "registry n s" and "Suc n < 2 ^ 64" and "clist s ds"
  shows "\<exists>p s' es. client_list_dup s = Some (p, int (length ds), s') \<and> clist s' ds \<and> dseg s' p es \<and>
    map snd es = map (\<lambda>x. dup_data (snd x)) ds \<and>
    (\<forall>a. load (heap s) a \<noteq> None \<longrightarrow> load (heap s') a = load (heap s) a) \<and>
    (\<forall>i < length ds. client_list_find_by_client (fst (es ! i)) s' = Some (Some (fst (ds ! i))))"
proof -
  obtain es0 where "registry_inv n s es0"
    using registry_inv_reachable [OF assms(1,2)] by blast
  with assms(3) have ds: "valid_clients ds" "distinct (map id_of ds)"
    using clist_functional by (auto simp: registry_inv_def holds_clients_def)
  obtain p s' es where dup: "client_list_dup s = Some (p, int (length ds), s')" "clist s' ds" "dseg s' p es"
    "map snd es = map (\<lambda>x. dup_data (snd x)) ds" "grows {} s s' es"
    using client_list_dup_spec [OF assms(3) ds(1)] by blast
  have "client_list_find_by_client (fst (es ! i)) s' = Some (Some (fst (ds ! i)))" if i: "i < length ds" for i
  proof -
    have len: "length es = length ds"
      using arg_cong [OF dup(4), of length] by simp
    have "snd (es ! i) = dup_data (snd (ds ! i))"
      using arg_cong [OF dup(4), of "\<lambda>l. l ! i"] i len by simp
    moreover obtain c where c: "load (heap s') (fst (es ! i)) = Some c" "cdata c = snd (es ! i)"
      using dseg_load [OF dup(3), of "fst (es ! i)" "snd (es ! i)"] i len by auto
    ultimately have "c_id c = c_id (snd (ds ! i))"
      by (metis cdata_simps(1) dup_data_simps(5))
    moreover have "List.find (\<lambda>(b, e). c_id e = c_id (snd (ds ! i))) ds = Some (ds ! i)"
      using find_unique_id [OF ds(2), of "fst (ds ! i)" "snd (ds ! i)"] i by simp
    ultimately show ?thesis
      using find_by_client_spec [OF dup(2) c(1)] by simp
  qed
  then show ?thesis
    using dup growsD(3) [OF dup(5)] by blast
qed

theorem dup_find_original_witness:
  "\<exists>s p s' es. client_list_dup s = Some (p, 1, s') \<and> dseg s' p es \<and>
    client_list_find_by_client (fst (es ! 0)) s' = Some (Some 0)"
proof -
  let ?d = "new_client ''10.0.0.7'' ''00:01'' ''tok'' 5 1"
  let ?s = "\<lparr>heap = [Some ?d], firstclient = Some 0, client_id = 2\<rparr>"
  have "registry 1 ?s"
    using registry_add [OF registry_init add_one_client] by simp
  moreover have "clist ?s [(0, ?d)]"
    by (simp add: clist_def load_def cdata_def new_client_def zero_client_def)
  moreover have "Suc 1 < 2 ^ 64" by simp
  ultimately show ?thesis
    using dup_find_original [of 1 ?s "[(0, ?d)]"] by (auto simp del: One_nat_def)
qed

end
