(* ===== verification/Httpd_Url.thy ===== *)
theory Httpd_Url
  imports CLib
begin

text \<open>
  URL processing of the embedded web server (\<^verbatim>\<open>libhttpd/protocol.c\<close>): percent encoding and
  decoding, the clean-up of request paths, base-64 decoding of credentials.

  \<open>_httpd_unescape\<close> and \<open>_httpd_sanitiseUrl\<close> work in place with a read and a write
  pointer into one buffer. They are modelled with that buffer and with indices into it;
  \<open>unescape\<close>, \<open>squeeze\<close>, \<open>undot\<close> and \<open>updir\<close> are reference functions on
  strings, and the lemmas show that the in-place loops compute them.
  Names that start with an underscore in C lose it here.
\<close>

section \<open>Buffers\<close>

text \<open>
  Reading a buffer at an index; every loop below stops at the NUL that ends the string in
  the buffer, so the value past the end is never used.
\<close>

definition at :: "char list \<Rightarrow> nat \<Rightarrow> char" where
  "at buf i = (if i < length buf then buf ! i else NUL)"

lemma at_NUL_bound: "at buf i \<noteq> NUL \<Longrightarrow> i < length buf"
  by (auto simp: at_def split: if_splits)

lemma at_char_bound:
  "at buf i = CHR ''/'' \<Longrightarrow> i < length buf" "at buf i = CHR ''%'' \<Longrightarrow> i < length buf"
  "at buf i = CHR ''+'' \<Longrightarrow> i < length buf"
  by (auto simp: at_def NUL_def split: if_splits)

section \<open>Percent encoding\<close>

definition httpd_from_hex :: "char \<Rightarrow> nat" where
  "httpd_from_hex c =
     (if 48 \<le> code c \<and> code c \<le> 57 then code c - 48
      else if 65 \<le> code c \<and> code c \<le> 70 then code c - 65 + 10
      else (code c + 256 - 97 + 10) mod 256)"

function unescape_loop :: "char list \<Rightarrow> nat \<Rightarrow> nat \<Rightarrow> char list" where
  "unescape_loop buf p q =
     (if at buf p = NUL then buf[q := NUL]
      else if at buf p = CHR ''%'' then
        (let p1 = p + 1;
             (b1, p2) = (if at buf p1 \<noteq> NUL
                         then (buf[q := chr (httpd_from_hex (at buf p1) * 16 mod 256)], p1 + 1)
                         else (buf, p1));
             (b2, p3) = (if at b1 p2 \<noteq> NUL
                         then (b1[q := chr ((code (at b1 q) + httpd_from_hex (at b1 p2)) mod 256)], p2 + 1)
                         else (b1, p2))
         in unescape_loop b2 p3 (q + 1))
      else if at buf p = CHR ''+'' then unescape_loop (buf[q := CHR '' '']) (p + 1) (q + 1)
      else unescape_loop (buf[q := at buf p]) (p + 1) (q + 1))"
  by pat_completeness auto
termination
  by (relation "measure (\<lambda>(buf, p, q). length buf - p)")
     (auto split: if_splits dest!: at_char_bound at_NUL_bound)

declare unescape_loop.simps [simp del]

text \<open>\<open>_httpd_unescape\<close> returns the string literal "" for NULL.\<close>

definition httpd_unescape :: "string option \<Rightarrow> string" where
  "httpd_unescape str =
     (case str of None \<Rightarrow> '''' | Some s \<Rightarrow> cstr (unescape_loop (s @ [NUL]) 0 0))"

definition isAcceptable :: "nat list" where
  "isAcceptable =
     [0, 7, 7, 0, 7, 0, 7, 7, 7, 7, 7, 6, 7, 7, 7, 4,
      7, 7, 7, 7, 7, 7, 7, 7, 7, 7, 0, 0, 0, 0, 0, 0,
      7, 7, 7, 7, 7, 7, 7, 7, 7, 7, 7, 7, 7, 7, 7, 7,
      7, 7, 7, 7, 7, 7, 7, 7, 7, 7, 7, 0, 0, 0, 0, 7,
      0, 7, 7, 7, 7, 7, 7, 7, 7, 7, 7, 7, 7, 7, 7, 7,
      7, 7, 7, 7, 7, 7, 7, 7, 7, 7, 7, 0, 0, 0, 0, 0]"

text \<open>\<open>ACCEPTABLE (a)\<close> with \<open>mask = URL_XPALPHAS = 2\<close>: bit 1 of the table entry.\<close>

definition ACCEPTABLE :: "char \<Rightarrow> bool" where
  "ACCEPTABLE c \<longleftrightarrow> c \<noteq> CHR ''&'' \<and> 32 \<le> code c \<and> code c < 128 \<and>
     isAcceptable ! (code c - 32) div 2 mod 2 = 1"

definition hex_digits :: string where
  "hex_digits = ''0123456789ABCDEF''"

primrec httpd_escape :: "string \<Rightarrow> string" where
  "httpd_escape [] = []"
| "httpd_escape (c # s) =
     (if \<not> ACCEPTABLE c
      then CHR ''%'' # hex_digits ! (code c div 16) # hex_digits ! (code c mod 16) # httpd_escape s
      else c # httpd_escape s)"

text \<open>The size that \<open>_httpd_escape\<close> allocates before it writes.\<close>

definition escape_alloc :: "string \<Rightarrow> nat" where
  "escape_alloc s = length s + 2 * length (filter (\<lambda>c. \<not> ACCEPTABLE c) s) + 1"

definition httpdUrlEncode :: "string \<Rightarrow> string" where
  "httpdUrlEncode s = map (\<lambda>c. if c = CHR '' '' then CHR ''+'' else c) (httpd_escape s)"

section \<open>Cleaning up a request path\<close>

function squeeze_loop :: "char list \<Rightarrow> nat \<Rightarrow> nat \<Rightarrow> char list" where
  "squeeze_loop url from to =
     (if at url from = NUL then url[to := NUL]
      else if at url from = CHR ''/'' \<and> at url (from + 1) = CHR ''/'' then squeeze_loop url (from + 1) to
      else squeeze_loop (url[to := at url from]) (from + 1) (to + 1))"
  by pat_completeness auto
termination
  by (relation "measure (\<lambda>(url, from, to). length url - from)") (auto dest!: at_char_bound at_NUL_bound)

function undot_loop :: "char list \<Rightarrow> nat \<Rightarrow> nat \<Rightarrow> char list" where
  "undot_loop url from to =
     (if at url from = NUL then url[to := NUL]
      else if at url from = CHR ''/'' \<and> at url (from + 1) = CHR ''.'' \<and> at url (from + 2) = CHR ''/''
      then undot_loop url (from + 2) to
      else undot_loop (url[to := at url from]) (from + 1) (to + 1))"
  by pat_completeness auto
termination
  by (relation "measure (\<lambda>(url, from, to). length url - from)") (auto dest!: at_char_bound at_NUL_bound)

function updir_loop :: "char list \<Rightarrow> nat \<Rightarrow> nat \<Rightarrow> nat \<Rightarrow> char list" where
  "updir_loop url from to lst =
     (if at url from = NUL then url[to := NUL]
      else if at url from = CHR ''/'' \<and> at url (from + 1) = CHR ''.'' \<and> at url (from + 2) = CHR ''.'' \<and>
              at url (from + 3) = CHR ''/''
      then updir_loop url (from + 3) lst lst
      else updir_loop (url[to := at url from]) (from + 1) (to + 1)
             (if at url from = CHR ''/'' then to else lst))"
  by pat_completeness auto
termination
  by (relation "measure (\<lambda>(url, from, to, lst). length url - from)") (auto dest!: at_char_bound at_NUL_bound)

declare squeeze_loop.simps [simp del] undot_loop.simps [simp del] updir_loop.simps [simp del]

definition httpd_sanitiseUrl :: "char list \<Rightarrow> char list" where
  "httpd_sanitiseUrl url =
     (let url1 = squeeze_loop url 0 0; url2 = undot_loop url1 0 0 in updir_loop url2 0 0 0)"

section \<open>Reference functions\<close>

fun unescape :: "string \<Rightarrow> string" where
  "unescape [] = []"
| "unescape (c # s) =
     (if c = CHR ''%'' then
        (case s of
           h # l # r \<Rightarrow> chr ((httpd_from_hex h * 16 mod 256 + httpd_from_hex l) mod 256) # unescape r
         | _ \<Rightarrow> [])
      else (if c = CHR ''+'' then CHR '' '' else c) # unescape s)"

fun squeeze :: "string \<Rightarrow> string" where
  "squeeze [] = []"
| "squeeze (a # s) = (if a = CHR ''/'' \<and> take 1 s = ''/'' then squeeze s else a # squeeze s)"

fun undot :: "string \<Rightarrow> string" where
  "undot [] = []"
| "undot (a # s) =
     (if a = CHR ''/'' \<and> take 2 s = ''./'' then undot (drop 1 s) else a # undot s)"

text \<open>\<open>updir acc lst s\<close>: the output so far, where its last element starts, the rest.\<close>

fun updir :: "string \<Rightarrow> nat \<Rightarrow> string \<Rightarrow> string" where
  "updir acc lst [] = acc"
| "updir acc lst (a # s) =
     (if a = CHR ''/'' \<and> take 3 s = ''../'' then updir (take lst acc) lst (drop 2 s)
      else updir (acc @ [a]) (if a = CHR ''/'' then length acc else lst) s)"

text \<open>A string has no occurrence of a word.\<close>

definition free_of :: "string \<Rightarrow> string \<Rightarrow> bool" where
  "free_of w s \<longleftrightarrow> strstr s w = None"

section \<open>The in-place loops compute the reference functions\<close>

lemma at_drop: "at buf (i + k) = at (drop i buf) k"
  by (auto simp: at_def)

lemma at_Cons [simp]: "at (c # s) 0 = c" "at (c # s) (Suc k) = at s k" "at [] k = NUL"
  by (simp_all add: at_def)

lemma at_Cons_numeral [simp]: "at (c # s) (numeral k) = at s (pred_numeral k)"
  by (simp add: numeral_eq_Suc)

lemma at_dropD:
  assumes "drop i buf = t"
  shows "at buf i = at t 0" "at buf (i + k) = at t k" "at buf (Suc i) = at t 1"
  using assms at_drop [of buf i 0] at_drop [of buf i k] at_drop [of buf i 1] by simp_all

lemma drop_Suc_eq: "drop i buf = c # t \<Longrightarrow> drop (Suc i) buf = t"
  by (metis drop_Suc list.sel(3) tl_drop)

lemma take_Suc_update:
  "i < length buf \<Longrightarrow> take (Suc i) (buf[i := c]) = take i buf @ [c]"
  by (simp add: take_Suc_conv_app_nth)

lemma drop_length_bound: "drop i buf = c # t \<Longrightarrow> i < length buf"
  by (metis drop_all list.discI not_le)

lemma finish_loop:
  assumes "drop from buf = NUL # rest" and "to \<le> from"
  shows "\<exists>tl. buf[to := NUL] = take to buf @ NUL # tl"
proof -
  have "to < length buf"
    using assms drop_length_bound by (metis le_less_trans)
  then show ?thesis
    by (auto simp: upd_conv_take_nth_drop)
qed

lemma at_first:
  assumes "drop from buf = a # s @ NUL # rest" and "NUL \<notin> set (a # s)"
  shows "at buf from = a" and "at buf from \<noteq> NUL"
  using at_dropD [OF assms(1)] assms(2) by auto

lemma loop_step:
  assumes "drop from buf = a # s @ NUL # rest" and "to \<le> from"
  shows "drop (Suc from) buf = s @ NUL # rest"
    and "take (Suc to) (buf[to := a]) = take to buf @ [a]"
    and "drop (Suc from) (buf[to := a]) = s @ NUL # rest"
proof -
  have "to < length buf"
    using assms drop_length_bound by (metis le_less_trans)
  then show "take (Suc to) (buf[to := a]) = take to buf @ [a]"
    by (rule take_Suc_update)
  show "drop (Suc from) buf = s @ NUL # rest"
    using assms(1) by (rule drop_Suc_eq)
  then show "drop (Suc from) (buf[to := a]) = s @ NUL # rest"
    using assms(2) by simp
qed

text \<open>The tests on the next characters of the buffer are tests on the next part of the string.\<close>

lemma look_ahead:
  assumes "drop from buf = a # s @ NUL # rest"
  shows "at buf (from + 1) = CHR ''/'' \<longleftrightarrow> take 1 s = ''/''"
    and "at buf (from + 1) = CHR ''.'' \<and> at buf (from + 2) = CHR ''/'' \<longleftrightarrow> take 2 s = ''./''"
    and "at buf (from + 1) = CHR ''.'' \<and> at buf (from + 2) = CHR ''.'' \<and> at buf (from + 3) = CHR ''/''
           \<longleftrightarrow> take 3 s = ''../''"
  unfolding at_dropD(2) [OF assms]
  by (cases s; cases "tl s"; cases "tl (tl s)"; auto simp: NUL_def numeral_eq_Suc)+

lemma squeeze_loop_spec:
  assumes "drop from url = s @ NUL # rest" and "to \<le> from" and "NUL \<notin> set s"
  shows "\<exists>tl. squeeze_loop url from to = take to url @ squeeze s @ NUL # tl"
  using assms
proof (induction s arbitrary: url "from" to rule: squeeze.induct)
  case 1
  then show ?case
    using finish_loop [of "from" url rest to] by (subst squeeze_loop.simps) (auto simp: at_dropD)
next
  case (2 a s)
  note drops = "2.prems"(1) [unfolded append_Cons]
  note facts = at_first [OF drops "2.prems"(3)] loop_step [OF drops "2.prems"(2)] look_ahead(1) [OF drops]
  show ?case
    using "2.prems"(2,3) facts "2.IH"(1) [of "Suc from" url to] "2.IH"(2) [of "Suc from" "url[to := a]" "Suc to"]
    by (subst squeeze_loop.simps) auto
qed

lemma undot_loop_spec:
  assumes "drop from url = s @ NUL # rest" and "to \<le> from" and "NUL \<notin> set s"
  shows "\<exists>tl. undot_loop url from to = take to url @ undot s @ NUL # tl"
  using assms
proof (induction s arbitrary: url "from" to rule: undot.induct)
  case 1
  then show ?case
    using finish_loop [of "from" url rest to] by (subst undot_loop.simps) (auto simp: at_dropD)
next
  case (2 a s)
  note drops = "2.prems"(1) [unfolded append_Cons]
  note facts = at_first [OF drops "2.prems"(3)] loop_step [OF drops "2.prems"(2)]
  show ?case
  proof (cases "a = CHR ''/'' \<and> take 2 s = ''./''")
    case True
    then obtain t where s: "s = CHR ''.'' # CHR ''/'' # t"
      by (cases s; cases "tl s") auto
    have "drop (from + 2) url = (CHR ''/'' # t) @ NUL # rest"
      using drop_Suc_eq [of "Suc from" url] facts(3) s by simp
    then show ?thesis
      using True "2.prems"(2,3) facts(1,2) look_ahead(2) [OF drops] "2.IH"(1) [of "from + 2" url to] s
      by (subst undot_loop.simps) auto
  next
    case False
    then show ?thesis
      using "2.prems"(2,3) facts look_ahead(2) [OF drops] "2.IH"(2) [of "Suc from" "url[to := a]" "Suc to"]
      by (subst undot_loop.simps) auto
  qed
qed

lemma updir_loop_spec:
  assumes "drop from url = s @ NUL # rest" and "lst \<le> to" and "to \<le> from" and "NUL \<notin> set s"
  shows "\<exists>tl. updir_loop url from to lst = updir (take to url) lst s @ NUL # tl"
  using assms
proof (induction "take to url" lst s arbitrary: url "from" to rule: updir.induct)
  case 1
  then show ?case
    using finish_loop [of "from" url rest to] by (subst updir_loop.simps) (auto simp: at_dropD)
next
  case (2 lst a s)
  note drops = "2.prems"(1) [unfolded append_Cons]
  note facts = at_first [OF drops "2.prems"(4)] loop_step [OF drops "2.prems"(3)]
  have len: "to < length url"
    using drop_length_bound [OF drops] "2.prems"(3) by simp
  show ?case
  proof (cases "a = CHR ''/'' \<and> take 3 s = ''../''")
    case True
    then obtain t where s: "s = CHR ''.'' # CHR ''.'' # CHR ''/'' # t"
      by (cases s; cases "tl s"; cases "tl (tl s)") auto
    have "drop (from + 3) url = (CHR ''/'' # t) @ NUL # rest"
      using drop_Suc_eq [of "Suc from" url] drop_Suc_eq [of "Suc (Suc from)" url] facts(3) s
      by (simp add: numeral_3_eq_3)
    then show ?thesis
      using True "2.prems"(2-4) facts(1,2) look_ahead(3) [OF drops] s
        "2.hyps"(1) [of lst url "from + 3"]
      by (subst updir_loop.simps) (auto simp: min_def)
  next
    case False
    then show ?thesis
      using "2.prems"(2-4) facts len look_ahead(3) [OF drops]
        "2.hyps"(2) [of "Suc to" "url[to := a]" "Suc from"]
      by (subst updir_loop.simps) (auto simp: min_def)
  qed
qed

text \<open>Decoding in place, for input in which two characters follow every percent sign.\<close>

fun wf_escaped :: "string \<Rightarrow> bool" where
  "wf_escaped [] = True"
| "wf_escaped (c # s) =
     (if c = CHR ''%'' then (case s of h # l # r \<Rightarrow> wf_escaped r | _ \<Rightarrow> False) else wf_escaped s)"

lemma unescape_loop_spec:
  assumes "drop p buf = s @ NUL # rest" and "q \<le> p" and "NUL \<notin> set s" and "wf_escaped s"
  shows "\<exists>tl. unescape_loop buf p q = take q buf @ unescape s @ NUL # tl"
  using assms
proof (induction s arbitrary: buf p q rule: unescape.induct)
  case 1
  then show ?case
    using finish_loop [of p buf rest q] by (subst unescape_loop.simps) (auto simp: at_dropD)
next
  case (2 c s)
  note drops = "2.prems"(1) [unfolded append_Cons]
  note facts = at_first [OF drops "2.prems"(3)] loop_step [OF drops "2.prems"(2)]
  have len: "q < length buf"
    using drop_length_bound [OF drops] "2.prems"(2) by simp
  show ?case
  proof (cases "c = CHR ''%''")
    case True
    then obtain h l r where s: "s = h # l # r"
      using "2.prems"(4) by (auto split: list.splits)
    let ?x = "chr (httpd_from_hex h * 16 mod 256)"
    let ?y = "chr ((httpd_from_hex h * 16 mod 256 + httpd_from_hex l) mod 256)"
    have d: "drop (Suc (Suc p)) buf = l # r @ NUL # rest" "drop (Suc (Suc (Suc p))) buf = r @ NUL # rest"
      using drop_Suc_eq [of "Suc p" buf] drop_Suc_eq [of "Suc (Suc p)" buf] facts(3) s by simp_all
    have reads: "at buf (Suc p) = h" "at (buf[q := ?x]) (Suc (Suc p)) = l"
      using facts(3) d(1) s "2.prems"(2) by (simp_all add: at_dropD)
    have reads2: "at (buf[q := ?x]) q = ?x"
      using len by (simp add: at_def)
    have "unescape_loop buf p q = unescape_loop (buf[q := ?y]) (Suc (Suc (Suc p))) (Suc q)"
      using reads reads2 facts(1,2) True s "2.prems"(3) by (subst unescape_loop.simps) (auto simp: Let_def)
    then show ?thesis
      using "2.IH"(1) [OF True s refl, where p = "Suc (Suc (Suc p))" and buf = "buf[q := ?y]" and q = "Suc q"]
        d(2) s True "2.prems"(2-4) len
      by (auto simp: take_Suc_update)
  next
    case False
    then show ?thesis
      using "2.prems"(2-4) facts len "2.IH"(2) [of "Suc p" "buf[q := if c = CHR ''+'' then CHR '' '' else c]" "Suc q"]
      by (subst unescape_loop.simps) (auto simp: take_Suc_update split: if_splits)
  qed
qed

lemma httpd_unescape_spec:
  assumes "NUL \<notin> set s" and "wf_escaped s" and "NUL \<notin> set (unescape s)"
  shows "httpd_unescape (Some s) = unescape s"
  using unescape_loop_spec [of 0 "s @ [NUL]" s "[]" 0] assms
  by (auto simp: httpd_unescape_def)

section \<open>Encoding and decoding\<close>

lemma hex_digits_values:
  assumes "n < 16"
  shows "httpd_from_hex (hex_digits ! n) = n" and "hex_digits ! n \<noteq> NUL"
    and "hex_digits ! n \<noteq> CHR '' ''"
proof -
  have "list_all (\<lambda>k. httpd_from_hex (hex_digits ! k) = k \<and> hex_digits ! k \<notin> {NUL, CHR '' ''}) [0..<16]"
    by code_simp
  with assms show "httpd_from_hex (hex_digits ! n) = n" "hex_digits ! n \<noteq> NUL"
    "hex_digits ! n \<noteq> CHR '' ''"
    by (simp_all add: list_all_iff)
qed

lemma code_div_16: "code c div 16 < 16"
  by (rule less_mult_imp_div_less) simp

lemma hex_pair:
  "chr ((httpd_from_hex (hex_digits ! (code c div 16)) * 16 mod 256
         + httpd_from_hex (hex_digits ! (code c mod 16))) mod 256) = c"
proof -
  have "code c div 16 * 16 + code c mod 16 = code c"
    by simp
  moreover have "code c div 16 * 16 < 256"
    using code_div_16 [of c] by linarith
  ultimately show ?thesis
    by (simp add: hex_digits_values(1) [OF code_div_16] hex_digits_values(1))
qed

lemma ACCEPTABLE_plain:
  assumes "ACCEPTABLE c"
  shows "c \<noteq> CHR ''%''" and "c \<noteq> CHR '' ''" and "c \<noteq> NUL"
  using assms by (auto simp: ACCEPTABLE_def code_def isAcceptable_def NUL_def)

lemma unescape_escape: "CHR ''+'' \<notin> set s \<Longrightarrow> unescape (httpd_escape s) = s"
  by (induction s) (auto simp: hex_pair dest: ACCEPTABLE_plain)

lemma wf_escaped_escape: "wf_escaped (httpd_escape s)"
  by (induction s) (auto dest: ACCEPTABLE_plain)

lemma set_escape: "NUL \<notin> set (httpd_escape s) \<and> CHR '' '' \<notin> set (httpd_escape s)"
proof (induction s)
  case (Cons c s)
  have "code c div 16 < 16"
    by (rule code_div_16)
  then show ?case
    using Cons hex_digits_values [of "code c div 16"] hex_digits_values [of "code c mod 16"]
    by (auto dest: ACCEPTABLE_plain simp: NUL_def)
qed simp

lemma httpdUrlEncode_escape: "httpdUrlEncode s = httpd_escape s"
  using set_escape [of s] by (auto simp: httpdUrlEncode_def intro!: map_idI)

lemma length_escape: "length (httpd_escape s) + 1 = escape_alloc s"
  by (induction s) (auto simp: escape_alloc_def)

section \<open>What the clean-up removes\<close>

text \<open>\<open>clean_at w s k\<close>: no occurrence of \<open>w\<close> in \<open>s\<close> starts before position \<open>k\<close>.\<close>

definition clean_at :: "string \<Rightarrow> string \<Rightarrow> nat \<Rightarrow> bool" where
  "clean_at w s k \<longleftrightarrow> (\<forall>i < k. \<forall>r. drop i s \<noteq> w @ r)"

lemma free_of_clean: "w \<noteq> [] \<Longrightarrow> free_of w s \<longleftrightarrow> clean_at w s (length s)"
proof
  assume "free_of w s"
  then show "clean_at w s (length s)"
    unfolding free_of_def strstr_None clean_at_def
    by (metis append_take_drop_id)
next
  assume w: "w \<noteq> []" and c: "clean_at w s (length s)"
  show "free_of w s"
    unfolding free_of_def strstr_None
  proof (intro allI notI)
    fix p q
    assume "s = p @ w @ q"
    with w have "length p < length s" "drop (length p) s = w @ q"
      by simp_all
    with c show False
      unfolding clean_at_def by blast
  qed
qed

lemma free_of_Cons:
  "w \<noteq> [] \<Longrightarrow> free_of w (a # s) \<longleftrightarrow> take (length w) (a # s) \<noteq> w \<and> free_of w s"
  by (auto simp: free_of_def)

lemma free_of_drop: "free_of w s \<Longrightarrow> free_of w (drop n s)"
  unfolding free_of_def strstr_None by (metis append.assoc append_take_drop_id)

lemma hd_squeeze: "take 1 (squeeze s) = take 1 s"
  by (induction s rule: squeeze.induct) (auto simp: take_Suc neq_Nil_conv split: if_splits)

lemma free_of_squeeze: "free_of ''//'' (squeeze s)"
proof (induction s rule: squeeze.induct)
  case (2 a s)
  then show ?case
    using hd_squeeze [of s]
    by (auto simp: free_of_Cons numeral_2_eq_2 take_Suc_Cons)
qed (simp add: free_of_def)

lemma take_pair: "take 2 s = [x, y] \<longleftrightarrow> (\<exists>t. s = x # y # t)"
  by (cases s; cases "tl s") (auto simp: numeral_2_eq_2)

lemma take_triple: "take 3 s = [x, y, z] \<longleftrightarrow> (\<exists>t. s = x # y # z # t)"
  by (cases s; cases "tl s"; cases "tl (tl s)") (auto simp: numeral_3_eq_3)

lemma hd_undot: "take 1 (undot s) = take 1 s"
  by (induction s rule: undot.induct) (auto simp: take_pair)

lemma take_2_undot: "take 2 (undot s) = ''./'' \<Longrightarrow> take 2 s = ''./''"
proof (cases s)
  case (Cons a t)
  assume u: "take 2 (undot s) = ''./''"
  have "take 1 (undot s) = take 1 (take 2 (undot s))"
    by simp
  with u Cons have "a = CHR ''.''"
    using hd_undot [of s] by simp
  moreover with u Cons have "take 1 (undot t) = ''/''"
    by (auto simp: take_pair)
  ultimately show ?thesis
    using Cons hd_undot [of t] by (cases t) (auto simp: take_pair)
qed simp

lemma free_of_undot: "free_of ''/./'' (undot s)"
proof (induction s rule: undot.induct)
  case (2 a s)
  then show ?case
    using take_2_undot [of s]
    by (auto simp: free_of_Cons numeral_3_eq_3 numeral_2_eq_2)
qed (simp add: free_of_def)

lemma free_of_undot_squeeze: "free_of ''//'' s \<Longrightarrow> free_of ''//'' (undot s)"
proof (induction s rule: undot.induct)
  case (2 a s)
  from "2.prems" have "free_of ''//'' s" "a = CHR ''/'' \<Longrightarrow> take 1 s \<noteq> ''/''"
    by (auto simp: free_of_Cons numeral_2_eq_2)
  then show ?case
    using "2.IH" hd_undot [of s] free_of_drop [of "''//''" s 1]
    by (auto simp: free_of_Cons numeral_2_eq_2)
qed simp

text \<open>
  Going up in the path joins the output, cut where its last element starts, with a rest
  that starts with a slash. No word \<open>/ds/\<close> whose middle has no slash can arise there.
\<close>

lemma clean_join:
  assumes clean: "clean_at w (acc @ s) lst" and w: "w = CHR ''/'' # ds @ [CHR ''/'']"
    and ds: "CHR ''/'' \<notin> set ds" and lst: "lst < length acc" "acc ! lst = CHR ''/''"
  shows "clean_at w (take lst acc @ CHR ''/'' # t) lst"
  unfolding clean_at_def
proof (intro allI impI notI)
  fix i r
  assume i: "i < lst" and occ: "drop i (take lst acc @ CHR ''/'' # t) = w @ r"
  define A where "A = drop i (take lst acc)"
  have "drop lst acc = CHR ''/'' # drop (Suc lst) acc"
    using lst by (metis Cons_nth_drop_Suc)
  then have acc: "drop i (acc @ s) = A @ CHR ''/'' # drop (Suc lst) acc @ s"
    using lst(1) i unfolding A_def
    by (metis append_Cons append_assoc append_take_drop_id drop_append diff_is_0_eq' drop0
        length_take less_imp_le_nat min.absorb4)
  have "A \<noteq> []"
    using lst(1) i by (simp add: A_def)
  have "w @ r = A @ CHR ''/'' # t"
    using occ i lst(1) by (simp add: A_def)
  then obtain us where "w = A @ us \<and> us @ r = CHR ''/'' # t \<or> w @ us = A \<and> r = us @ CHR ''/'' # t"
    by (auto simp: append_eq_append_conv2)
  moreover have "A = w @ us \<Longrightarrow> False" for us
    using clean acc i unfolding clean_at_def by (metis append_assoc)
  moreover have "w = A @ CHR ''/'' # us \<Longrightarrow> False" for us
  proof -
    assume "w = A @ CHR ''/'' # us"
    moreover obtain A' where "A = CHR ''/'' # A'"
      using calculation w \<open>A \<noteq> []\<close> by (cases A) auto
    ultimately have "ds @ [CHR ''/''] = A' @ CHR ''/'' # us"
      using w by simp
    with ds have "us = []"
      by (auto simp: append_eq_append_conv2 append_eq_Cons_conv Cons_eq_append_conv)
    with \<open>w = A @ CHR ''/'' # us\<close> acc have "drop i (acc @ s) = w @ drop (Suc lst) acc @ s"
      by simp
    with clean i show False
      unfolding clean_at_def by blast
  qed
  ultimately show False
    by (metis append_Nil append_Nil2 append_eq_Cons_conv)
qed

lemma clean_mono: "clean_at w s k \<Longrightarrow> j \<le> k \<Longrightarrow> clean_at w s j"
  by (simp add: clean_at_def)

lemma clean_snoc:
  assumes "clean_at w (acc @ a # s) (length acc)" and "\<And>r. a # s \<noteq> w @ r"
  shows "clean_at w ((acc @ [a]) @ s) (length (acc @ [a]))"
  using assms by (auto simp: clean_at_def less_Suc_eq)

lemma updir_clean:
  assumes "w = CHR ''/'' # ds @ [CHR ''/'']" and "CHR ''/'' \<notin> set ds"
    and "w = ''/../'' \<or> free_of w s" and "clean_at w (acc @ s) (length acc)"
    and "lst \<le> length acc" and "lst = 0 \<or> (acc @ s) ! lst = CHR ''/''"
  shows "clean_at w (updir acc lst s) (length (updir acc lst s))"
  using assms(3-6)
proof (induction acc lst s rule: updir.induct)
  case (2 acc lst a s)
  show ?case
  proof (cases "a = CHR ''/'' \<and> take 3 s = ''../''")
    case True
    then obtain t where s: "s = CHR ''.'' # CHR ''.'' # CHR ''/'' # t"
      by (auto simp: take_triple)
    have "clean_at w ((acc @ [a]) @ s) lst"
      using clean_mono [OF "2.prems"(2,3)] by simp
    then have "lst \<noteq> 0 \<Longrightarrow> clean_at w (take lst acc @ CHR ''/'' # t) lst"
      using clean_join [OF _ assms(1,2), of "acc @ [a]" s lst t] "2.prems"(3,4) True
      by (auto simp: nth_append split: if_splits)
    then have "clean_at w (take lst acc @ CHR ''/'' # t) lst"
      by (cases "lst = 0") (simp_all add: clean_at_def)
    moreover have "w = ''/../'' \<or> free_of w (CHR ''/'' # t)"
      using "2.prems"(1) free_of_drop [of w "a # s" 3] s by auto
    moreover have len: "length (take lst acc) = lst"
      using "2.prems"(3) by simp
    moreover from len have "(take lst acc @ CHR ''/'' # t) ! lst = CHR ''/''"
      by (metis nth_append_length)
    moreover have d: "drop 2 s = CHR ''/'' # t"
      using s by simp
    ultimately have "clean_at w (updir (take lst acc) lst (drop 2 s))
        (length (updir (take lst acc) lst (drop 2 s)))"
      by (intro "2.IH"(1) [OF True]) (simp_all only: d order_refl simp_thms)
    then show ?thesis
      by (simp only: updir.simps True simp_thms if_True)
  next
    case False
    have "a # s \<noteq> w @ r" for r
    proof
      assume eq: "a # s = w @ r"
      then have "\<not> free_of w (a # s)"
        unfolding free_of_def strstr_None by (metis append_Nil)
      with "2.prems"(1) eq have "a # s = ''/../'' @ r"
        by simp
      with False show False
        by simp
    qed
    then have "clean_at w ((acc @ [a]) @ s) (length (acc @ [a]))"
      using "2.prems"(2) by (rule clean_snoc [rotated])
    moreover have "w = ''/../'' \<or> free_of w s"
      using "2.prems"(1) free_of_drop [of w "a # s" 1] by auto
    ultimately show ?thesis
      using "2.IH"(2) False "2.prems"(3,4) by (auto simp: nth_append split: if_splits)
  qed
qed simp

lemma NUL_free_passes:
  "NUL \<notin> set s \<Longrightarrow> NUL \<notin> set (squeeze s)" "NUL \<notin> set s \<Longrightarrow> NUL \<notin> set (undot s)"
  "NUL \<notin> set acc \<Longrightarrow> NUL \<notin> set s \<Longrightarrow> NUL \<notin> set (updir acc lst s)"
proof -
  show "NUL \<notin> set s \<Longrightarrow> NUL \<notin> set (squeeze s)"
    by (induction s rule: squeeze.induct) auto
  show "NUL \<notin> set s \<Longrightarrow> NUL \<notin> set (undot s)"
    by (induction s rule: undot.induct) (auto dest: in_set_dropD)
  show "NUL \<notin> set acc \<Longrightarrow> NUL \<notin> set s \<Longrightarrow> NUL \<notin> set (updir acc lst s)"
    by (induction acc lst s rule: updir.induct) (auto dest: in_set_dropD in_set_takeD)
qed

lemma sanitiseUrl_spec:
  assumes "NUL \<notin> set s"
  shows "cstr (httpd_sanitiseUrl (s @ NUL # rest)) = updir [] 0 (undot (squeeze s))"
proof -
  obtain t1 where t1: "squeeze_loop (s @ NUL # rest) 0 0 = squeeze s @ NUL # t1"
    using squeeze_loop_spec [of 0 "s @ NUL # rest" s rest 0] assms by auto
  obtain t2 where t2: "undot_loop (squeeze s @ NUL # t1) 0 0 = undot (squeeze s) @ NUL # t2"
    using undot_loop_spec [of 0 "squeeze s @ NUL # t1" "squeeze s" t1 0] assms
    by (auto simp: NUL_free_passes)
  obtain t3 where "updir_loop (undot (squeeze s) @ NUL # t2) 0 0 0
      = updir [] 0 (undot (squeeze s)) @ NUL # t3"
    using updir_loop_spec [of 0 "undot (squeeze s) @ NUL # t2" "undot (squeeze s)" t2 0 0] assms
    by (auto simp: NUL_free_passes)
  then show ?thesis
    using t1 t2 assms by (simp add: httpd_sanitiseUrl_def NUL_free_passes)
qed

section \<open>Properties\<close>

text \<open>
  C15: The in-place clean-up of a request path returns, for every path, a path in which no
  double slash, no \<open>/./\<close> and no \<open>/../\<close> is left.
\<close>

theorem sanitiseUrl_clean:
  assumes "NUL \<notin> set s"
  shows "free_of ''//'' (cstr (httpd_sanitiseUrl (s @ NUL # rest)))
    \<and> free_of ''/./'' (cstr (httpd_sanitiseUrl (s @ NUL # rest)))
    \<and> free_of ''/../'' (cstr (httpd_sanitiseUrl (s @ NUL # rest)))"
proof -
  let ?u = "undot (squeeze s)"
  have "free_of ''//'' ?u" "free_of ''/./'' ?u"
    by (simp_all add: free_of_undot free_of_undot_squeeze free_of_squeeze)
  then have "clean_at w (updir [] 0 ?u) (length (updir [] 0 ?u))"
    if "w \<in> {''//'', ''/./'', ''/../''}" for w
    using updir_clean [of w "take (length w - 2) (drop 1 w)" ?u "[]" 0] that
    by (auto simp: clean_at_def numeral_2_eq_2)
  then show ?thesis
    unfolding sanitiseUrl_spec [OF assms] by (simp add: free_of_clean)
qed

theorem sanitiseUrl_clean_witness:
  "free_of ''/../'' (cstr (httpd_sanitiseUrl (''/a/../etc'' @ NUL # [])))"
  using sanitiseUrl_clean [of "''/a/../etc''" "[]"] by (simp add: NUL_def)

text \<open>
  C27: Decoding an encoded string gives the string back, for every string without a plus
  sign; the buffer that the encoder allocates is exactly filled.
\<close>

theorem UrlEncode_unescape:
  assumes "NUL \<notin> set s" and "CHR ''+'' \<notin> set s"
  shows "httpd_unescape (Some (httpdUrlEncode s)) = s
    \<and> length (httpdUrlEncode s) + 1 = escape_alloc s"
  using assms httpd_unescape_spec [of "httpd_escape s"] set_escape [of s]
  by (simp add: httpdUrlEncode_escape unescape_escape wf_escaped_escape length_escape [symmetric])

theorem UrlEncode_unescape_witness:
  "httpd_unescape (Some (httpdUrlEncode ''a b&c'')) = ''a b&c''"
  using UrlEncode_unescape [of "''a b&c''"] by (simp add: NUL_def)

text \<open>
  The encoder leaves a plus sign as it is and the decoder reads it as a space: a plus
  sign in a token or URL is lost between the gateway and its peer.
\<close>

theorem UrlEncode_plus_lost:
  "httpd_unescape (Some (httpdUrlEncode ''a+b'')) = ''a b''
    \<and> httpdUrlEncode ''a+b'' = ''a+b''"
proof -
  have e: "httpdUrlEncode ''a+b'' = ''a+b''"
    by (simp add: httpdUrlEncode_def ACCEPTABLE_def isAcceptable_def code_def)
  then show ?thesis
    using httpd_unescape_spec [of "''a+b''"] by (simp add: NUL_def)
qed

text \<open>
  The clean-up does not resolve two levels up: of \<open>/a/b/../../c\<close> the first
  element is left, where the path denotes \<open>/c\<close>.
\<close>

theorem sanitiseUrl_two_levels:
  "cstr (httpd_sanitiseUrl (''/a/b/../../c'' @ NUL # [])) = ''/a/c''"
  by (subst sanitiseUrl_spec) (simp_all add: NUL_def)

end
