(* ===== verification/Httpd_Auth.thy ===== *)
theory Httpd_Auth
  imports Httpd_Url
begin

text \<open>
  Base-64 decoding of HTTP credentials (\<open>_httpd_decode\<close> in \<^verbatim>\<open>libhttpd/protocol.c\<close>) into a
  buffer of given size. A write outside that buffer is \<^term>\<open>None\<close>. The reference encoder
  \<open>encode64\<close> follows RFC 2045; decoding what it produces gives the bytes back as long as
  they fit, and longer credentials are written past the end of the buffer.
\<close>

definition six2pr :: string where
  "six2pr = ''ABCDEFGHIJKLMNOPQRSTUVWXYZabcdefghijklmnopqrstuvwxyz0123456789+/''"

text \<open>The table \<open>pr2six\<close>: 64 for characters that are no base-64 digits.\<close>

fun index_of :: "char \<Rightarrow> string \<Rightarrow> nat" where
  "index_of c [] = 0"
| "index_of c (d # s) = (if c = d then 0 else Suc (index_of c s))"

definition pr2six :: "char \<Rightarrow> nat" where
  "pr2six c = index_of c six2pr"

definition DECODE_MAXVAL :: nat where
  "DECODE_MAXVAL = 63"

text \<open>
  The copying loop: \<open>n\<close> is \<open>nprbytes\<close>, \<open>i\<close> the read index into the coded text, \<open>out\<close>
  what was written so far into a buffer of \<open>size\<close> bytes.
\<close>

function decode_loop :: "char list \<Rightarrow> nat \<Rightarrow> int \<Rightarrow> nat \<Rightarrow> char list \<Rightarrow> (char list \<times> int \<times> nat) option" where
  "decode_loop buf sz n i out =
     (if 0 < n then
        (let d0 = pr2six (at buf i); d1 = pr2six (at buf (i + 1));
             d2 = pr2six (at buf (i + 2)); d3 = pr2six (at buf (i + 3));
             out' = out @ [chr (or (d0 * 4) (d1 div 16) mod 256),
                           chr (or (d1 * 16) (d2 div 4) mod 256),
                           chr (or (d2 * 64) d3 mod 256)]
         in if length out' \<le> sz then decode_loop buf sz (n - 4) (i + 4) out' else None)
      else Some (out, n, i))"
  by pat_completeness auto
termination
  by (relation "measure (\<lambda>(buf, sz, n, i, out). nat n)") auto

declare decode_loop.simps [simp del]

definition httpd_decode :: "char list \<Rightarrow> nat \<Rightarrow> (char list \<times> int) option" where
  "httpd_decode bufcoded0 outbufsize =
     (let bufcoded = dropWhile (\<lambda>c. c = CHR '' '' \<or> c = TAB) bufcoded0;
          nprbytes = length (takeWhile (\<lambda>c. pr2six c \<le> DECODE_MAXVAL) bufcoded);
          nbytesdecoded = (nprbytes + 3) div 4 * 3;
          npr = (if nbytesdecoded > outbufsize then (outbufsize * 4) div 3 else nprbytes)
      in do {
        (out, n, i) \<leftarrow> decode_loop bufcoded outbufsize (int npr) 0 [];
        let nbytes = (if n mod 4 \<noteq> 0
                      then (if pr2six (at bufcoded (i - 2)) > DECODE_MAXVAL
                            then int nbytesdecoded - 2 else int nbytesdecoded - 1)
                      else int nbytesdecoded);
        if nbytes < int outbufsize
        then Some ((out @ [NUL])[nat nbytes := NUL], nbytes) else None
      })"

section \<open>Reference encoder\<close>

definition pr :: "nat \<Rightarrow> char" where
  "pr v = six2pr ! v"

fun encode64 :: "char list \<Rightarrow> string" where
  "encode64 (a # b # c # s) =
     pr (code a div 4) # pr (code a mod 4 * 16 + code b div 16) #
     pr (code b mod 16 * 4 + code c div 64) # pr (code c mod 64) # encode64 s"
| "encode64 [a, b] =
     [pr (code a div 4), pr (code a mod 4 * 16 + code b div 16), pr (code b mod 16 * 4), CHR ''='']"
| "encode64 [a] = [pr (code a div 4), pr (code a mod 4 * 16), CHR ''='', CHR ''='']"
| "encode64 [] = []"

lemma pr2six_pr [simp]: "v < 64 \<Longrightarrow> pr2six (pr v) = v"
proof -
  have "list_all (\<lambda>v. pr2six (pr v) = v) [0..<64]"
    by code_simp
  then show "v < 64 \<Longrightarrow> pr2six (pr v) = v"
    by (simp add: list_all_iff)
qed

lemma pr_not_blank: "v < 64 \<Longrightarrow> pr v \<noteq> CHR '' '' \<and> pr v \<noteq> TAB"
proof -
  have "list_all (\<lambda>v. pr v \<noteq> CHR '' '' \<and> pr v \<noteq> TAB) [0..<64]"
    by code_simp
  then show "v < 64 \<Longrightarrow> pr v \<noteq> CHR '' '' \<and> pr v \<noteq> TAB"
    by (simp add: list_all_iff)
qed

lemma pr2six_stop [simp]: "pr2six (CHR ''='') = 64" "pr2six NUL = 64"
  by code_simp+

text \<open>The shifts and ors put the six-bit groups next to each other.\<close>

lemma or_add: "b < 2 ^ k \<Longrightarrow> or (a * 2 ^ k) b = a * 2 ^ k + (b::nat)"
proof (induction k arbitrary: b)
  case (Suc k)
  then have "b div 2 < 2 ^ k"
    by simp
  then have "or (a * 2 ^ k) (b div 2) = a * 2 ^ k + b div 2"
    by (rule Suc.IH)
  moreover have "a * 2 ^ Suc k div 2 = a * 2 ^ k"
    by simp
  ultimately show ?case
    using or_nat_rec [of "a * 2 ^ Suc k" b] by (auto simp: algebra_simps elim!: evenE oddE)
qed simp

lemma sextets:
  fixes a b c :: nat
  assumes "a < 256" and "b < 256" and "c < 256"
  shows "or (a div 4 * 4) ((a mod 4 * 16 + b div 16) div 16) mod 256 = a"
    and "or ((a mod 4 * 16 + b div 16) * 16) ((b mod 16 * 4 + c div 64) div 4) mod 256 = b"
    and "or ((b mod 16 * 4 + c div 64) * 64) (c mod 64) mod 256 = c"
proof -
  have d: "b div 16 < 16" "c div 64 < 4"
    using assms by (auto intro: less_mult_imp_div_less)
  then have q: "(a mod 4 * 16 + b div 16) div 16 = a mod 4" "(b mod 16 * 4 + c div 64) div 4 = b mod 16"
    by simp_all
  show "or (a div 4 * 4) ((a mod 4 * 16 + b div 16) div 16) mod 256 = a"
    using or_add [of "a mod 4" 2 "a div 4"] assms(1) q(1) by simp
  have "or ((a mod 4 * 16 + b div 16) * 16) (b mod 16) = a mod 4 * 256 + b"
    using or_add [of "b mod 16" 4 "a mod 4 * 16 + b div 16"] by (simp add: algebra_simps)
  then show "or ((a mod 4 * 16 + b div 16) * 16) ((b mod 16 * 4 + c div 64) div 4) mod 256 = b"
    using q(2) assms(2) by simp
  have "or ((b mod 16 * 4 + c div 64) * 64) (c mod 64) = b mod 16 * 256 + c"
    using or_add [of "c mod 64" 6 "b mod 16 * 4 + c div 64"] by (simp add: algebra_simps)
  then show "or ((b mod 16 * 4 + c div 64) * 64) (c mod 64) mod 256 = c"
    using assms(3) by simp
qed

lemma sextet_bounds [simp]:
  "code a div 4 < 64" "code a mod 4 * 16 + code b div 16 < 64" "code a mod 16 * 4 + code b div 64 < 64"
  "code a mod 16 * 4 < 64" "code a mod 4 * 16 < 64"
proof -
  have "code a div 4 < 64" "code b div 16 < 16" "code b div 64 < 4"
    using code_less_256 [of a] code_less_256 [of b] by (auto intro: less_mult_imp_div_less simp del: code_less_256)
  moreover have "code a mod 4 < 4" "code a mod 16 < 16"
    by simp_all
  ultimately show "code a div 4 < 64" "code a mod 4 * 16 + code b div 16 < 64"
    "code a mod 16 * 4 + code b div 64 < 64" "code a mod 16 * 4 < 64" "code a mod 4 * 16 < 64"
    by linarith+
qed

section \<open>Decoding an encoded text\<close>

text \<open>The number of base-64 digits, without the padding.\<close>

definition digits64 :: "nat \<Rightarrow> nat" where
  "digits64 n = (n * 4 + 2) div 3"

lemma pr_digit: "v < 64 \<Longrightarrow> pr2six (pr v) \<le> DECODE_MAXVAL"
  by (simp add: DECODE_MAXVAL_def)

lemma stop_digit: "\<not> pr2six (CHR ''='') \<le> DECODE_MAXVAL" "\<not> pr2six NUL \<le> DECODE_MAXVAL"
  by (simp_all add: DECODE_MAXVAL_def)

lemma length_digits:
  "length (takeWhile (\<lambda>c. pr2six c \<le> DECODE_MAXVAL) (encode64 s @ NUL # rest)) = digits64 (length s)"
proof (induction s rule: encode64.induct)
  case (1 a b c s)
  then show ?case
    by (simp add: pr_digit digits64_def del: pr2six_pr) 
qed (simp_all add: pr_digit stop_digit digits64_def del: pr2six_pr pr2six_stop)

text \<open>One round of the loop, for three bytes, for two and for one.\<close>

lemma decode_step:
  assumes "0 < n" and "length out + 3 \<le> sz" and "pr2six (at buf i) = d0" and "pr2six (at buf (i + 1)) = d1"
    and "pr2six (at buf (i + 2)) = d2" and "pr2six (at buf (i + 3)) = d3"
  shows "decode_loop buf sz n i out = decode_loop buf sz (n - 4) (i + 4)
     (out @ [chr (or (d0 * 4) (d1 div 16) mod 256), chr (or (d1 * 16) (d2 div 4) mod 256),
             chr (or (d2 * 64) d3 mod 256)])"
  using assms by (subst decode_loop.simps) (simp add: Let_def)

lemma decode_stop: "n \<le> 0 \<Longrightarrow> decode_loop buf sz n i out = Some (out, n, i)"
  by (subst decode_loop.simps) simp

lemmas sextets_code = sextets [OF code_less_256 code_less_256 code_less_256]

lemma decode_round3:
  assumes "0 < n" and "length out + 3 \<le> sz" and "drop i buf = encode64 (a # b # c # s) @ NUL # rest"
  shows "decode_loop buf sz n i out = decode_loop buf sz (n - 4) (i + 4) (out @ [a, b, c])"
proof -
  have "at buf i = pr (code a div 4)" "at buf (i + 1) = pr (code a mod 4 * 16 + code b div 16)"
    "at buf (i + 2) = pr (code b mod 16 * 4 + code c div 64)" "at buf (i + 3) = pr (code c mod 64)"
    by (simp_all add: at_dropD [OF assms(3)] del: add_2_eq_Suc')
  then have "pr2six (at buf i) = code a div 4" "pr2six (at buf (i + 1)) = code a mod 4 * 16 + code b div 16"
    "pr2six (at buf (i + 2)) = code b mod 16 * 4 + code c div 64" "pr2six (at buf (i + 3)) = code c mod 64"
    by simp_all
  from decode_step [OF assms(1,2) this] show ?thesis
    by (simp only: sextets_code chr_code)
qed

lemma decode_round2:
  assumes "0 < n" and "length out + 3 \<le> sz" and "drop i buf = encode64 [a, b] @ NUL # rest"
  shows "\<exists>x. decode_loop buf sz n i out = decode_loop buf sz (n - 4) (i + 4) (out @ [a, b, x])"
proof -
  have "at buf i = pr (code a div 4)" "at buf (i + 1) = pr (code a mod 4 * 16 + code b div 16)"
    "at buf (i + 2) = pr (code b mod 16 * 4)"
    by (simp_all add: at_dropD [OF assms(3)] del: add_2_eq_Suc')
  then have "pr2six (at buf i) = code a div 4" "pr2six (at buf (i + 1)) = code a mod 4 * 16 + code b div 16"
    "pr2six (at buf (i + 2)) = code b mod 16 * 4 + code NUL div 64"
    by simp_all
  from decode_step [OF assms(1,2) this refl] show ?thesis
    by (simp only: sextets_code chr_code) blast
qed

lemma decode_round1:
  assumes "0 < n" and "length out + 3 \<le> sz" and "drop i buf = encode64 [a] @ NUL # rest"
  shows "\<exists>x y. decode_loop buf sz n i out = decode_loop buf sz (n - 4) (i + 4) (out @ [a, x, y])"
proof -
  have "at buf i = pr (code a div 4)" "at buf (i + 1) = pr (code a mod 4 * 16)"
    by (simp_all add: at_dropD [OF assms(3)] del: add_2_eq_Suc')
  then have "pr2six (at buf i) = code a div 4" "pr2six (at buf (i + 1)) = code a mod 4 * 16 + code NUL div 16"
    by simp_all
  from decode_step [OF assms(1,2) this refl refl] show ?thesis
    by (simp only: sextets_code chr_code) blast
qed

text \<open>
  The loop on the encoding of \<open>s\<close> that starts at index \<open>i\<close>: it writes \<open>s\<close>, and up to two
  more bytes that belong to the padding.
\<close>

definition rounds :: "nat \<Rightarrow> nat" where
  "rounds n = (digits64 n + 3) div 4"

lemma rounds_simps:
  "rounds 0 = 0" "rounds (Suc 0) = 1" "rounds (Suc (Suc 0)) = 1" "rounds (Suc (Suc (Suc n))) = Suc (rounds n)"
  "digits64 0 = 0" "digits64 (Suc 0) = 2" "digits64 (Suc (Suc 0)) = 3"
  "digits64 (Suc (Suc (Suc n))) = digits64 n + 4"
  by (simp_all add: rounds_def digits64_def)

lemma decode_loop_encode:
  assumes "drop i buf = encode64 s @ NUL # rest" and "length out + rounds (length s) * 3 \<le> sz"
  shows "\<exists>x. decode_loop buf sz (int (digits64 (length s))) i out =
     Some (out @ s @ x, int (digits64 (length s)) - 4 * int (rounds (length s)), i + rounds (length s) * 4) \<and>
     length s + length x = rounds (length s) * 3"
  using assms
proof (induction s arbitrary: i out rule: encode64.induct)
  case (1 a b c s)
  have "drop (i + 4) buf = encode64 s @ NUL # rest"
    using arg_cong [OF "1.prems"(1), of "drop 4"] by (simp add: add.commute)
  then obtain x where x: "decode_loop buf sz (int (digits64 (length s))) (i + 4) (out @ [a, b, c]) =
     Some ((out @ [a, b, c]) @ s @ x, int (digits64 (length s)) - 4 * int (rounds (length s)),
       i + 4 + rounds (length s) * 4)" "length s + length x = rounds (length s) * 3"
    using "1.IH" [of "i + 4" "out @ [a, b, c]"] "1.prems"(2) by (auto simp: rounds_simps)
  show ?case
    using decode_round3 [OF _ _ "1.prems"(1), of "int (digits64 (length (a # b # c # s)))" out sz] x "1.prems"(2)
    by (intro exI [of _ x]) (simp add: rounds_simps)
next
  case (2 a b)
  obtain x where "decode_loop buf sz 3 i out = decode_loop buf sz (3 - 4) (i + 4) (out @ [a, b, x])"
    using decode_round2 [OF _ _ "2"(1), of 3 out sz] "2"(2) by (auto simp: rounds_simps)
  then show ?case
    by (intro exI [of _ "[x]"]) (simp add: rounds_simps decode_stop)
next
  case (3 a)
  obtain x y where "decode_loop buf sz 2 i out = decode_loop buf sz (2 - 4) (i + 4) (out @ [a, x, y])"
    using decode_round1 [OF _ _ "3"(1), of 2 out sz] "3"(2) by (auto simp: rounds_simps)
  then show ?case
    by (intro exI [of _ "[x, y]"]) (simp add: rounds_simps decode_stop)
next
  case 4
  then show ?case
    by (simp add: rounds_simps decode_stop)
qed

lemma decode_loop_overflow:
  "sz < length out + 3 * nat ((n + 3) div 4) \<Longrightarrow> length out \<le> sz \<Longrightarrow> decode_loop buf sz n i out = None"
proof (induction buf sz n i out rule: decode_loop.induct)
  case (1 buf sz n i out)
  show ?case
  proof (cases "0 < n \<and> length out + 3 \<le> sz")
    case True
    have "(n + 3) div 4 = (n - 4 + 3) div 4 + 1"
      by presburger
    moreover have "0 \<le> (n - 4 + 3) div 4"
      using True by (intro pos_imp_zdiv_nonneg_iff [THEN iffD2]) auto
    ultimately have "nat ((n + 3) div 4) = Suc (nat ((n - 4 + 3) div 4))"
      by linarith
    with True "1.prems" show ?thesis
      using "1.IH" by (subst decode_loop.simps) (simp add: Let_def)
  next
    case False
    with "1.prems" have "0 < n"
      by (cases "0 < n") auto
    with False show ?thesis
      by (subst decode_loop.simps) (simp add: Let_def)
  qed
qed

lemma tail_char:
  "length s mod 3 = 1 \<Longrightarrow> at (encode64 s @ r) (rounds (length s) * 4 - 2) = CHR ''=''"
  "length s mod 3 = 2 \<Longrightarrow> pr2six (at (encode64 s @ r) (rounds (length s) * 4 - 2)) \<le> DECODE_MAXVAL"
proof -
  have shift: "at (encode64 (a # b # c # s) @ r) (Suc (rounds (length s)) * 4 - 2) =
      at (encode64 s @ r) (rounds (length s) * 4 - 2)" if "s \<noteq> []" for a b c s
  proof -
    have "0 < rounds (length s)"
      using that by (cases s) (auto simp: rounds_def digits64_def)
    then have "Suc (rounds (length s)) * 4 - 2 = Suc (Suc (Suc (Suc (rounds (length s) * 4 - 2))))"
      by simp
    then show ?thesis by (simp del: mult_Suc)
  qed
  show "length s mod 3 = 1 \<Longrightarrow> at (encode64 s @ r) (rounds (length s) * 4 - 2) = CHR ''=''"
  proof (induction s rule: encode64.induct)
    case (1 a b c s)
    then have "s \<noteq> []" by auto
    with 1 show ?case
      using shift [of s a b c] by (simp only: length_Cons rounds_simps) simp
  qed (simp_all add: rounds_simps)
  show "length s mod 3 = 2 \<Longrightarrow> pr2six (at (encode64 s @ r) (rounds (length s) * 4 - 2)) \<le> DECODE_MAXVAL"
  proof (induction s rule: encode64.induct)
    case (1 a b c s)
    then have "s \<noteq> []" by auto
    with 1 show ?case
      using shift [of s a b c] by (simp only: length_Cons rounds_simps) simp
  qed (simp_all add: rounds_simps pr_digit del: pr2six_pr)
qed

lemma encode_no_blanks: "dropWhile (\<lambda>c. c = CHR '' '' \<or> c = TAB) (encode64 s @ NUL # r) = encode64 s @ NUL # r"
  using pr_not_blank by (cases s rule: encode64.cases) (simp_all, simp_all add: NUL_def TAB_def)

text \<open>The number of bytes that the decoder reports is the length of the text.\<close>

lemma decoded_count:
  shows "(if n mod 3 \<noteq> 0
    then (if n mod 3 = 1 then int (rounds n * 3) - 2 else int (rounds n * 3) - 1)
    else int (rounds n * 3)) = int n" (is ?count)
    and "(int (digits64 n) - 4 * int (rounds n)) mod 4 \<noteq> 0 \<longleftrightarrow> n mod 3 \<noteq> 0" (is ?rem)
proof -
  define q where "q = n div 3"
  have m: "n mod 3 = 0 \<or> n mod 3 = 1 \<or> n mod 3 = 2"
    by linarith
  have e: "n = 3 * q + n mod 3"
    by (simp add: q_def)
  consider "n mod 3 = 0" "n = 3 * q" | "n mod 3 = 1" "n = 3 * q + 1" | "n mod 3 = 2" "n = 3 * q + 2"
    using m e by (metis add_0_right)
  then have both: "?count \<and> ?rem"
  proof cases
    case 1
    then have "digits64 n = 4 * q" "rounds n = q" by (simp_all add: rounds_def digits64_def)
    with 1 show ?thesis by simp
  next
    case 2
    then have "digits64 n = 4 * q + 2" "rounds n = Suc q" by (simp_all add: rounds_def digits64_def)
    with 2 show ?thesis by simp
  next
    case 3
    then have "digits64 n = 4 * q + 3" "rounds n = Suc q" by (simp_all add: rounds_def digits64_def)
    with 3(1) show ?thesis by (simp add: 3(2))
  qed
  show ?count using both by (rule conjunct1)
  show ?rem using both by (rule conjunct2)
qed

section \<open>Properties\<close>

text \<open>
  C26: Decoding a base-64 text into a buffer that is large enough gives the encoded bytes
  back, with a terminating NUL behind them, whatever follows the text in memory.
\<close>

theorem decode_encode:
  assumes "NUL \<notin> set s" and "length s < sz" and "rounds (length s) * 3 \<le> sz"
  shows "\<exists>out. httpd_decode (encode64 s @ NUL # rest) sz = Some (out, int (length s)) \<and>
    cstr out = s \<and> length out \<le> sz + 1"
proof -
  let ?b = "encode64 s @ NUL # rest" and ?n = "length s"
  obtain x where x: "decode_loop ?b sz (int (digits64 ?n)) 0 [] =
      Some (s @ x, int (digits64 ?n) - 4 * int (rounds ?n), rounds ?n * 4)"
    "?n + length x = rounds ?n * 3"
    using decode_loop_encode [of 0 ?b s rest "[]" sz] assms(3) by auto
  have len: "(digits64 ?n + 3) div 4 = rounds ?n"
    by (simp only: rounds_def)
  have sel: "(if DECODE_MAXVAL < pr2six (at ?b (rounds ?n * 4 - 2)) then int (rounds ?n * 3) - 2
      else int (rounds ?n * 3) - 1) = (if ?n mod 3 = 1 then int (rounds ?n * 3) - 2 else int (rounds ?n * 3) - 1)"
    if "?n mod 3 \<noteq> 0"
  proof -
    have "?n mod 3 = 1 \<or> ?n mod 3 = 2"
      using that by linarith
    then show ?thesis
      using tail_char [of s "NUL # rest"] stop_digit by auto
  qed
  have count: "(if (int (digits64 ?n) - 4 * int (rounds ?n)) mod 4 \<noteq> 0
      then (if DECODE_MAXVAL < pr2six (at ?b (rounds ?n * 4 - 2)) then int (rounds ?n * 3) - 2
            else int (rounds ?n * 3) - 1) else int (rounds ?n * 3)) = int ?n"
  proof (cases "?n mod 3 = 0")
    case True
    then have "(int (digits64 ?n) - 4 * int (rounds ?n)) mod 4 = 0" "int (rounds ?n * 3) = int ?n"
      using decoded_count [of ?n] by auto
    then show ?thesis by (simp only: simp_thms if_False)
  next
    case False
    then have "(int (digits64 ?n) - 4 * int (rounds ?n)) mod 4 \<noteq> 0"
      "(if ?n mod 3 = 1 then int (rounds ?n * 3) - 2 else int (rounds ?n * 3) - 1) = int ?n"
      using decoded_count [of ?n] by auto
    with sel [OF False] show ?thesis by (simp only: simp_thms if_True)
  qed
  have "\<not> sz < rounds ?n * 3" "int ?n < int sz"
    using assms(2,3) by simp_all
  then have "httpd_decode ?b sz = Some (((s @ x) @ [NUL])[?n := NUL], int ?n)"
    by (simp only: httpd_decode_def encode_no_blanks length_digits len Let_def if_False x(1)
        bind.bind_lunit prod.case count if_True nat_int)
  moreover have "((s @ x) @ [NUL])[?n := NUL] = s @ NUL # tl (x @ [NUL])"
    by (cases x) (simp_all add: list_update_append)
  ultimately show ?thesis
    using assms x(2) by (intro exI [of _ "s @ NUL # tl (x @ [NUL])"]) auto
qed

theorem decode_encode_witness:
  "\<exists>out. httpd_decode (encode64 ''me:pw'' @ NUL # []) 100 = Some (out, 5) \<and> cstr out = ''me:pw''"
  using decode_encode [of "''me:pw''" 100 "[]"] by (auto simp: NUL_def rounds_simps)

text \<open>
  C38: Credentials of a hundred bytes or more overflow the hundred-byte buffer into which
  the request parser decodes them: the bound that the decoder computes (four thirds of the
  buffer size) still admits one round too many.
\<close>

theorem decode_overflow:
  assumes "100 \<le> length s"
  shows "httpd_decode (encode64 s @ NUL # rest) 100 = None"
proof -
  have "34 \<le> rounds (length s)"
    using assms by (simp add: rounds_def digits64_def)
  then have "100 < rounds (length s) * 3"
    by simp
  moreover have "decode_loop b 100 133 0 [] = None" for b
    by (rule decode_loop_overflow) simp_all
  ultimately show ?thesis
    by (simp add: httpd_decode_def encode_no_blanks length_digits Let_def flip: rounds_def)
qed

theorem decode_overflow_witness:
  "httpd_decode (encode64 (replicate 100 CHR ''a'') @ NUL # []) 100 = None"
  by (rule decode_overflow) simp

end
