(* ===== verification/Httpd.thy ===== *)
theory Httpd
  imports Httpd_Auth
begin

text \<open>
  The embedded web server (\<^verbatim>\<open>libhttpd/api.c\<close>, \<^verbatim>\<open>libhttpd/protocol.c\<close>, types of
  \<^verbatim>\<open>libhttpd/httpd.h\<close>): reading a request, request variables, headers and output, the tree of
  content, dispatch.

  The nested structs of a request are one record: \<open>rq_\<close> marks the fields of \<open>httpReq\<close>,
  \<open>rs_\<close> those of \<open>httpRes\<close>, \<open>h_\<close> those of \<open>httpd\<close>. The socket is the list of results
  that the next calls of \<open>_httpd_net_read\<close> return, and the text that was written to it.
  Handlers are values of a type \<open>'f\<close>; the function \<open>call\<close> that runs one, on a world
  of type \<open>'w\<close>, is an argument of the dispatcher. The file system and the clock are in the
  record \<open>io\<close>. The result \<^term>\<open>None\<close> stands for an access outside a buffer or through NULL.
\<close>

definition HTTP_MAX_LEN :: nat where "HTTP_MAX_LEN = 10240"
definition HTTP_MAX_URL :: nat where "HTTP_MAX_URL = 1024"
definition HTTP_MAX_HEADERS :: nat where "HTTP_MAX_HEADERS = 1024"
definition HTTP_MAX_AUTH :: nat where "HTTP_MAX_AUTH = 128"
definition HTTP_READ_BUF_LEN :: nat where "HTTP_READ_BUF_LEN = 4096"
definition HTTP_GET :: int where "HTTP_GET = 1"
definition HTTP_POST :: int where "HTTP_POST = 2"

text \<open>The constants of \<^verbatim>\<open>version.c\<close>.\<close>

definition LIBHTTPD_VERSION :: string where "LIBHTTPD_VERSION = ''1.4-wifidog''"

definition LIBHTTPD_VENDOR :: string where "LIBHTTPD_VENDOR = ''Hughes Technologies Pty Ltd''"

section \<open>Data\<close>

datatype content_type =
  HTTP_FILE | HTTP_C_FUNCT | HTTP_EMBER_FUNCT | HTTP_STATIC | HTTP_WILDCARD | HTTP_C_WILDCARD

record httpVar =
  v_name :: string
  v_value :: string
  v_nextValues :: "string list"

record 'f httpContent =
  e_name :: "string option"
  e_type :: content_type
  e_indexFlag :: bool
  e_function :: "'f option"
  e_data :: string
  e_path :: string
  e_preload :: "'f option"

datatype 'f httpDir =
  Dir (d_name: string) (d_children: "'f httpDir list") (d_entries: "'f httpContent list")

record httpAcl =
  acl_addr :: u32
  acl_len :: nat
  acl_action :: int

record 'f httpd =
  h_port :: int
  h_startTime :: int
  h_lastError :: int
  h_fileBasePath :: string
  h_host :: "string option"
  h_content :: "'f httpDir"
  h_defaultAcl :: "httpAcl list"
  h_accessLog :: "string list option"
  h_errorLog :: "string list option"
  h_errorFunction304 :: "'f option"
  h_errorFunction403 :: "'f option"
  h_errorFunction404 :: "'f option"

text \<open>What one call of \<open>_httpd_net_read\<close> gives: bytes, or a return value below one.\<close>

datatype net_result = Bytes string | Ret int

record 'f request =
  readBuf :: string
  readBufRemain :: int
  net_in :: "net_result list"
  sent :: string
  clientAddr :: string
  rq_method :: int
  rq_authLength :: int
  rq_path :: string
  rq_query :: string
  rq_host :: string
  rq_ifModified :: string
  rq_authUser :: string
  rq_authPassword :: string
  rs_responseLength :: int
  rs_content :: "'f httpContent option"
  rs_headersSent :: bool
  rs_headers :: string
  rs_response :: string
  rs_contentType :: string
  variables :: "httpVar list"

text \<open>The request that \<open>httpdGetConnection\<close> returns: zeroed, with the peer's address.\<close>

definition new_request :: "net_result list \<Rightarrow> string \<Rightarrow> 'f request" where
  "new_request input addr = \<lparr>readBuf = [], readBufRemain = 0, net_in = input, sent = [],
     clientAddr = take 16 addr, rq_method = 0, rq_authLength = 0, rq_path = [], rq_query = [], rq_host = [],
     rq_ifModified = [], rq_authUser = [], rq_authPassword = [], rs_responseLength = 0, rs_content = None,
     rs_headersSent = False, rs_headers = [], rs_response = [], rs_contentType = [], variables = []\<rparr>"

section \<open>Network\<close>

text \<open>
  \<open>_httpd_net_read\<close>: an empty list is a peer that has closed the connection. At most
  \<open>HTTP_READ_BUF_LEN\<close> bytes arrive at a time.
\<close>

definition httpd_net_read :: "'f request \<Rightarrow> net_result \<times> 'f request" where
  "httpd_net_read r =
     (case net_in r of
        [] \<Rightarrow> (Ret 0, r)
      | Ret n # rest \<Rightarrow> (Ret (min n 0), r\<lparr>net_in := rest\<rparr>)
      | Bytes b # rest \<Rightarrow>
          (if b = [] then Ret 0 else Bytes (take HTTP_READ_BUF_LEN b),
           r\<lparr>net_in := (if length b > HTTP_READ_BUF_LEN then [Bytes (drop HTTP_READ_BUF_LEN b)] else []) @ rest\<rparr>))"

definition httpd_net_write :: "string \<Rightarrow> 'f request \<Rightarrow> 'f request" where
  "httpd_net_write buf r = r\<lparr>sent := sent r @ buf\<rparr>"

text \<open>
  \<open>_httpd_readChar\<close>: no character is the return value 0. After a failed read a negative
  \<open>readBufRemain\<close> stays behind, and the next call would read through \<open>readBufPtr\<close>.
\<close>

definition httpd_readChar :: "'f request \<Rightarrow> (char option \<times> 'f request) option" where
  "httpd_readChar r =
     (if readBufRemain r = 0 then
        (case httpd_net_read r of
           (Ret n, r1) \<Rightarrow> Some (None, r1\<lparr>readBufRemain := n\<rparr>)
         | (Bytes b, r1) \<Rightarrow>
             (case b of
                [] \<Rightarrow> None
              | c # b' \<Rightarrow> Some (Some c, r1\<lparr>readBuf := b', readBufRemain := int (length b')\<rparr>)))
      else
        (case readBuf r of
           [] \<Rightarrow> None
         | c # b' \<Rightarrow> Some (Some c, r\<lparr>readBuf := b', readBufRemain := readBufRemain r - 1\<rparr>)))"

text \<open>The bytes that are still to come: the measure of the reading loops.\<close>

fun net_size :: "net_result list \<Rightarrow> nat" where
  "net_size [] = 0"
| "net_size (Ret n # rest) = net_size rest"
| "net_size (Bytes b # rest) = length b + net_size rest"

definition pending :: "'f request \<Rightarrow> nat" where
  "pending r = length (readBuf r) + net_size (net_in r)"

lemma net_size_append [simp]: "net_size (xs @ ys) = net_size xs + net_size ys"
  by (induction xs rule: net_size.induct) auto

lemma readChar_pending:
  assumes "httpd_readChar r = Some (Some c, r')"
  shows "pending r' < pending r"
proof -
  have "length b + length (drop n x) < length x" if "take n x = c # b" for b n and x :: string
    using arg_cong [OF that, of length] arg_cong [OF append_take_drop_id [of n x], of length] by simp
  then show ?thesis
    using assms
    by (fastforce simp: httpd_readChar_def httpd_net_read_def pending_def
        split: if_splits list.splits net_result.splits prod.splits)
qed

section \<open>Reading lines\<close>

text \<open>
  \<open>_httpd_readLine\<close> into a buffer of exactly \<open>len\<close> bytes, as its caller has it: the line,
  or no line at the end of the input. When \<open>len\<close> characters come without a newline, the final
  NUL is written behind the buffer.
\<close>

function readLine_loop :: "nat \<Rightarrow> string \<Rightarrow> 'f request \<Rightarrow> (string option \<times> 'f request) option" where
  "readLine_loop len dst r =
     (if length dst < len then
        (case httpd_readChar r of
           None \<Rightarrow> None
         | Some (None, r1) \<Rightarrow> Some (None, r1)
         | Some (Some curChar, r1) \<Rightarrow>
             if curChar = NL \<or> \<not> isascii curChar then Some (Some (cstr dst), r1)
             else if curChar = CR then readLine_loop len dst r1
             else readLine_loop len (dst @ [curChar]) r1)
      else None)"
  by pat_completeness auto
termination
  by (relation "measure (\<lambda>(len, dst, r). pending r)") (auto dest: readChar_pending)

declare readLine_loop.simps [simp del]

definition httpd_readLine :: "nat \<Rightarrow> 'f request \<Rightarrow> (string option \<times> 'f request) option" where
  "httpd_readLine len r = readLine_loop len [] r"

lemma readLine_pending:
  "readLine_loop len dst r = Some (Some line, r') \<Longrightarrow> pending r' < pending r"
proof (induction len dst r rule: readLine_loop.induct)
  case (1 len dst r)
  obtain c r1 where rc: "httpd_readChar r = Some (Some c, r1)" and len: "length dst < len"
    using "1.prems" by (subst (asm) readLine_loop.simps) (auto split: if_splits option.splits)
  have step: "readLine_loop len dst r = (if c = NL \<or> \<not> isascii c then Some (Some (cstr dst), r1)
      else if c = CR then readLine_loop len dst r1 else readLine_loop len (dst @ [c]) r1)"
    using rc len by (subst readLine_loop.simps) simp
  show ?case
    using "1.prems" "1.IH" [OF len rc refl refl] readChar_pending [OF rc] unfolding step
    by (auto split: if_splits)
qed

section \<open>Request variables\<close>

definition skip_blanks :: "string \<Rightarrow> string" where
  "skip_blanks s = dropWhile (\<lambda>c. c = CHR '' '' \<or> c = TAB) s"

fun add_var :: "string \<Rightarrow> string \<Rightarrow> httpVar list \<Rightarrow> httpVar list" where
  "add_var name val [] = [\<lparr>v_name = name, v_value = val, v_nextValues = []\<rparr>]"
| "add_var name val (v # vs) =
     (if v_name v = name then v\<lparr>v_nextValues := v_nextValues v @ [val]\<rparr> # vs else v # add_var name val vs)"

definition httpdAddVariable :: "string \<Rightarrow> string \<Rightarrow> 'f request \<Rightarrow> 'f request" where
  "httpdAddVariable name val r = r\<lparr>variables := add_var (skip_blanks name) val (variables r)\<rparr>"

definition httpdGetVariableByName :: "'f request \<Rightarrow> string \<Rightarrow> httpVar option" where
  "httpdGetVariableByName r name = List.find (\<lambda>v. v_name v = name) (variables r)"

definition httpdGetVariableByPrefix :: "'f request \<Rightarrow> string option \<Rightarrow> httpVar option" where
  "httpdGetVariableByPrefix r prefix =
     (case prefix of
        None \<Rightarrow> (case variables r of [] \<Rightarrow> None | v # _ \<Rightarrow> Some v)
      | Some p \<Rightarrow> List.find (\<lambda>v. strncmp_eq (length p) (v_name v) p) (variables r))"

definition httpdGetVariableByPrefixedName :: "'f request \<Rightarrow> string option \<Rightarrow> string \<Rightarrow> httpVar option" where
  "httpdGetVariableByPrefixedName r prefix name =
     (case prefix of
        None \<Rightarrow> (case variables r of [] \<Rightarrow> None | v # _ \<Rightarrow> Some v)
      | Some p \<Rightarrow> List.find (\<lambda>v. strncmp_eq (length p) (v_name v) p \<and> drop (length p) (v_name v) = name)
                   (variables r))"

text \<open>The variable is given by its position in the list; \<^term>\<open>None\<close> is NULL.\<close>

definition httpdGetNextVariableByPrefix :: "'f request \<Rightarrow> nat option \<Rightarrow> string \<Rightarrow> httpVar option" where
  "httpdGetNextVariableByPrefix r cur prefix =
     (case cur of
        None \<Rightarrow> None
      | Some i \<Rightarrow> List.find (\<lambda>v. strncmp_eq (length prefix) (v_name v) prefix) (drop (Suc i) (variables r)))"

fun set_var :: "string \<Rightarrow> string \<Rightarrow> httpVar list \<Rightarrow> httpVar list" where
  "set_var name val [] = []"
| "set_var name val (v # vs) = (if v_name v = name then v\<lparr>v_value := val\<rparr> # vs else v # set_var name val vs)"

definition httpdSetVariableValue :: "string \<Rightarrow> string \<Rightarrow> 'f request \<Rightarrow> 'f request" where
  "httpdSetVariableValue name val r =
     (case httpdGetVariableByName r name of
        Some _ \<Rightarrow> r\<lparr>variables := set_var name val (variables r)\<rparr>
      | None \<Rightarrow> httpdAddVariable name val r)"

text \<open>
  \<open>_httpd_storeData\<close>: \<open>var\<close> is the buffer of the name with the write index \<open>cp2\<close>;
  \<open>val\<close> the text since the last equals sign. An ampersand does not terminate the name.
\<close>

fun storeData_loop :: "'f request \<Rightarrow> char list \<Rightarrow> nat \<Rightarrow> string option \<Rightarrow> string \<Rightarrow> 'f request" where
  "storeData_loop r var cp2 val [] =
     (case val of None \<Rightarrow> r | Some _ \<Rightarrow> httpdAddVariable (cstr var) (httpd_unescape val) r)"
| "storeData_loop r var cp2 val (c # cp) =
     (if c = CHR ''='' then storeData_loop r (var[cp2 := NUL]) cp2 (Some []) cp
      else if c = CHR ''&'' then
        storeData_loop (httpdAddVariable (cstr var) (httpd_unescape val) r) var 0 None cp
      else (case val of
              Some v \<Rightarrow> storeData_loop r var cp2 (Some (v @ [c])) cp
            | None \<Rightarrow> storeData_loop r (var[cp2 := c]) (cp2 + 1) None cp))"

definition httpd_storeData :: "string \<Rightarrow> 'f request \<Rightarrow> 'f request" where
  "httpd_storeData query r = storeData_loop r (replicate (length query + 1) NUL) 0 None query"

section \<open>Times\<close>

text \<open>\<open>gmtime\<close> and \<open>strftime\<close> with the one format that the server uses.\<close>

definition civil :: "int \<Rightarrow> int \<times> int \<times> int" where
  "civil days =
     (let z = days + 719468; era = z div 146097; doe = z mod 146097;
          yoe = (doe - doe div 1460 + doe div 36524 - doe div 146096) div 365;
          doy = doe - (365 * yoe + yoe div 4 - yoe div 100);
          mp = (5 * doy + 2) div 153;
          d = doy - (153 * mp + 2) div 5 + 1;
          m = (if mp < 10 then mp + 3 else mp - 9);
          y = yoe + era * 400 + (if m \<le> 2 then 1 else 0)
      in (y, m, d))"

definition two_digits :: "int \<Rightarrow> string" where
  "two_digits i = (if i < 10 then ''0'' @ show_int i else show_int i)"

definition httpd_formatTimeString :: "int \<Rightarrow> int \<Rightarrow> string" where
  "httpd_formatTimeString now clock =
     (let t = (if clock = 0 then now else clock); days = t div 86400; secs = t mod 86400;
          (y, m, d) = civil days;
          wday = [''Thu'', ''Fri'', ''Sat'', ''Sun'', ''Mon'', ''Tue'', ''Wed''] ! nat (days mod 7);
          mon = [''Jan'', ''Feb'', ''Mar'', ''Apr'', ''May'', ''Jun'', ''Jul'', ''Aug'', ''Sep'', ''Oct'',
                 ''Nov'', ''Dec''] ! nat (m - 1)
      in wday @ '', '' @ two_digits d @ '' '' @ mon @ '' '' @ show_int y @ '' '' @
         two_digits (secs div 3600) @ '':'' @ two_digits (secs div 60 mod 60) @ '':'' @
         two_digits (secs mod 60) @ '' GMT'')"

section \<open>Reading a request\<close>

definition HTTP_METHOD_ERROR :: string where
  "HTTP_METHOD_ERROR = NL # ''<B>ERROR : Method Not Implemented</B>'' @ [NL, NL]"

definition LEVEL_ERROR :: string where
  "LEVEL_ERROR = ''error''"

text \<open>One line of the error log; the date is left out of the model's line.\<close>

definition httpd_writeErrorLog :: "'f request option \<Rightarrow> string \<Rightarrow> string \<Rightarrow> 'f httpd \<Rightarrow> 'f httpd" where
  "httpd_writeErrorLog r level message server =
     (case h_errorLog server of
        None \<Rightarrow> server
      | Some l \<Rightarrow> server\<lparr>h_errorLog := Some (l @ [
          ''['' @ level @ ''] '' @
          (case r of
             Some q \<Rightarrow> if clientAddr q \<noteq> [] then ''[client '' @ clientAddr q @ ''] '' else []
           | None \<Rightarrow> []) @ message])\<rparr>)"

definition httpdRequestMethodName :: "'f request \<Rightarrow> string" where
  "httpdRequestMethodName r =
     (if rq_method r = HTTP_GET then ''GET'' else if rq_method r = HTTP_POST then ''POST'' else ''INVALID'')"

definition httpd_writeAccessLog :: "'f request \<Rightarrow> 'f httpd \<Rightarrow> 'f httpd" where
  "httpd_writeAccessLog r server =
     (case h_accessLog server of
        None \<Rightarrow> server
      | Some l \<Rightarrow> server\<lparr>h_accessLog := Some (l @ [
          clientAddr r @ '' - - '' @ httpdRequestMethodName r @ '' '' @ rq_path r @ '' '' @
          show_int (atoi (rs_response r)) @ '' '' @ show_int (rs_responseLength r)])\<rparr>)"

text \<open>
  The request line. \<open>buf\<close> is the whole line buffer: when nothing follows the method, the scan
  goes on behind its terminating NUL.
\<close>

definition scan_method :: "string \<Rightarrow> 'f request \<Rightarrow> 'f request" where
  "scan_method cp r =
     (let r1 = (if strcasecmp_eq cp ''GET'' then r\<lparr>rq_method := HTTP_GET\<rparr> else r)
      in if strcasecmp_eq cp ''POST'' then r1\<lparr>rq_method := HTTP_POST\<rparr> else r1)"

definition strncpy_pad :: "nat \<Rightarrow> string \<Rightarrow> char list" where
  "strncpy_pad n s = take (n - 1) s @ replicate (n - length (take (n - 1) s)) NUL"

definition scan_path :: "char list \<Rightarrow> string" where
  "scan_path cp =
     (let cp1 = dropWhile (\<lambda>c. c = CHR '' '') cp;
          path = takeWhile (\<lambda>c. c \<noteq> CHR '' '' \<and> c \<noteq> NUL) cp1
      in cstr (httpd_sanitiseUrl (strncpy_pad HTTP_MAX_URL path)))"

definition path_end :: "char list \<Rightarrow> nat" where
  "path_end cp =
     (let sp = length (takeWhile (\<lambda>c. c = CHR '' '') cp)
      in sp + length (takeWhile (\<lambda>c. c \<noteq> CHR '' '' \<and> c \<noteq> NUL) (drop sp cp)))"

definition scan_auth :: "char list \<Rightarrow> 'f request \<Rightarrow> 'f request option" where
  "scan_auth buf r =
     (if strncasecmp_eq 15 (cstr buf) ''Authorization: '' then
        (let cp = drop (length (takeWhile (\<lambda>c. c \<noteq> CHR '':'') buf) + 2) buf
         in if \<not> strncmp_eq 6 (cstr cp) ''Basic '' then Some r
            else do {
              (authBuf, n) \<leftarrow> httpd_decode (drop (length (takeWhile (\<lambda>c. c \<noteq> CHR '' '') cp) + 1) cp) 100;
              let auth = cstr authBuf;
              let r1 = r\<lparr>rq_authLength := int (length auth)\<rparr>;
              let user = takeWhile (\<lambda>c. c \<noteq> CHR '':'') auth;
              let r2 = (if CHR '':'' \<in> set auth
                        then r1\<lparr>rq_authPassword := take (HTTP_MAX_AUTH - 1) (drop (length user + 1) auth)\<rparr>
                        else r1);
              Some (r2\<lparr>rq_authUser := take (HTTP_MAX_AUTH - 1) user\<rparr>)
            })
      else Some r)"

definition scan_host :: "char list \<Rightarrow> 'f request \<Rightarrow> 'f request" where
  "scan_host buf r =
     (if strncasecmp_eq 6 (cstr buf) ''Host: ''
      then r\<lparr>rq_host := take (HTTP_MAX_URL - 1)
                (drop 2 (dropWhile (\<lambda>c. c \<noteq> CHR '':'') (cstr buf)))\<rparr>
      else r)"

text \<open>The line buffer after a line was read into it.\<close>

definition put_line :: "string \<Rightarrow> char list \<Rightarrow> char list" where
  "put_line line buf = line @ NUL # drop (length line + 1) buf"

lemma pending_scan: "scan_auth buf r = Some r' \<Longrightarrow> pending (scan_host buf' r') = pending r"
  by (auto simp: scan_auth_def scan_host_def pending_def Let_def split: if_splits bind_splits prod.splits)

function readHeaders :: "char list \<Rightarrow> 'f request \<Rightarrow> 'f request option" where
  "readHeaders buf r =
     (case httpd_readLine HTTP_MAX_LEN r of
        None \<Rightarrow> None
      | Some (None, r1) \<Rightarrow> Some r1
      | Some (Some line, r1) \<Rightarrow>
          (if line = [] then Some r1
           else (let buf1 = put_line line buf in
                 case scan_auth buf1 r1 of
                   None \<Rightarrow> None
                 | Some r2 \<Rightarrow> readHeaders buf1 (scan_host buf1 r2))))"
  by pat_completeness auto
termination
  by (relation "measure (\<lambda>(buf, r). pending r)")
     (auto simp: httpd_readLine_def pending_scan dest!: readLine_pending)

declare readHeaders.simps [simp del]

text \<open>The query is split off the path once the headers are read.\<close>

definition take_query :: "'f request \<Rightarrow> 'f request" where
  "take_query r =
     (case strchr (rq_path r) (CHR ''?'') of
        None \<Rightarrow> r
      | Some cp \<Rightarrow>
          httpd_storeData (tl cp)
            (r\<lparr>rq_path := takeWhile (\<lambda>c. c \<noteq> CHR ''?'') (rq_path r),
               rq_query := take (HTTP_MAX_URL - 1) (tl cp)\<rparr>))"

text \<open>
  \<open>httpdReadRequest\<close>: the return value, the request and the server (its error log);
  \<open>junk\<close> is what the line buffer holds before the first line.
\<close>

definition httpdReadRequest ::
  "char list \<Rightarrow> 'f httpd \<Rightarrow> 'f request \<Rightarrow> (int \<times> 'f httpd \<times> 'f request) option" where
  "httpdReadRequest junk server r0 = (let
     r = r0\<lparr>rs_headers := ''Server: Hughes Technologies Embedded Server'' @ [NL],
            rs_contentType := ''text/html'', rs_response := ''200 Output Follows'' @ [NL],
            rs_headersSent := False\<rparr>
     in case httpd_readLine HTTP_MAX_LEN r of
          None \<Rightarrow> None
        | Some (None, r1) \<Rightarrow> Some (0, server, take_query r1)
        | Some (Some line, r1) \<Rightarrow>
            (let buf = put_line line junk; cp = takeWhile isalpha line; r2 = scan_method cp r1
             in if rq_method r2 = 0
                then Some (-1, httpd_writeErrorLog (Some r2) LEVEL_ERROR ''Invalid method received'' server,
                           httpd_net_write cp (httpd_net_write HTTP_METHOD_ERROR r2))
                else (let buf1 = buf[length cp := NUL]; i = length cp + 1;
                          r3 = r2\<lparr>rq_path := scan_path (drop i buf1)\<rparr>;
                          buf2 = buf1[i + path_end (drop i buf1) := NUL]
                      in case readHeaders buf2 r3 of
                           None \<Rightarrow> None
                         | Some r4 \<Rightarrow> Some (0, server, take_query r4))))"

end
