(* ===== verification/Httpd_Serve.thy ===== *)
theory Httpd_Serve
  imports Httpd
begin

text \<open>
  The response side of the web server (\<^verbatim>\<open>libhttpd/api.c\<close>, \<^verbatim>\<open>libhttpd/protocol.c\<close>) and its
  access lists (\<^verbatim>\<open>libhttpd/ip_acl.c\<close>): headers, output with variables, the tree of content,
  error pages, files, dispatch of a request to its handler.
\<close>

section \<open>Headers and output\<close>

text \<open>The clock and the file system, as the server sees them.\<close>

record io =
  io_now :: int
  io_stat :: "string \<Rightarrow> (int \<times> int) option"
  io_file :: "string \<Rightarrow> string option"

definition httpd_sendHeaders :: "io \<Rightarrow> int \<Rightarrow> int \<Rightarrow> 'f request \<Rightarrow> 'f request" where
  "httpd_sendHeaders env contentLength modTime r =
     (if rs_headersSent r then r
      else httpd_net_write
        (''HTTP/1.0 '' @ rs_response r @ rs_headers r @
         ''Date: '' @ httpd_formatTimeString (io_now env) 0 @ [NL] @
         ''Connection: close'' @ [NL] @ ''Content-Type: '' @ rs_contentType r @ [NL] @
         (if contentLength > 0
          then ''Content-Length: '' @ snprintf 80 (show_int contentLength) @ [NL] @
               ''Last-Modified: '' @ httpd_formatTimeString (io_now env) modTime @ [NL]
          else []) @ [NL])
        (r\<lparr>rs_headersSent := True\<rparr>))"

definition httpdSendHeaders :: "io \<Rightarrow> 'f request \<Rightarrow> 'f request" where
  "httpdSendHeaders env r = httpd_sendHeaders env 0 0 r"

definition httpdSetResponse :: "string \<Rightarrow> 'f request \<Rightarrow> 'f request" where
  "httpdSetResponse msg r = r\<lparr>rs_response := take (HTTP_MAX_URL - 1) msg\<rparr>"

definition httpdSetContentType :: "string \<Rightarrow> 'f request \<Rightarrow> 'f request" where
  "httpdSetContentType type r = r\<lparr>rs_contentType := take (HTTP_MAX_URL - 1) type\<rparr>"

text \<open>
  \<open>httpdAddHeader\<close>; on empty headers and an empty message it reads the byte in front of the
  header buffer.
\<close>

definition httpdAddHeader :: "string \<Rightarrow> 'f request \<Rightarrow> 'f request option" where
  "httpdAddHeader msg r =
     (let sz = int HTTP_MAX_HEADERS - 2 - int (length (rs_headers r))
      in if sz > 0 then
           (let h = rs_headers r @ take (nat sz) msg
            in if h = [] then None
               else if last h \<noteq> NL then Some (r\<lparr>rs_headers := h @ [NL]\<rparr>)
               else Some (r\<lparr>rs_headers := h\<rparr>))
         else Some r)"

definition httpdSetCookie :: "string \<Rightarrow> string \<Rightarrow> 'f request \<Rightarrow> 'f request option" where
  "httpdSetCookie name val r =
     httpdAddHeader (snprintf HTTP_MAX_URL (''Set-Cookie: '' @ name @ ''='' @ val @ ''; path=/;'')) r"

text \<open>
  \<open>httpdOutput\<close> copies the message into a buffer of \<open>HTTP_MAX_LEN\<close> bytes and expands
  \<open>$name\<close>. \<open>count\<close> is the counter of the C code, which an expansion leaves as it is
  (\<open>strlen (dest)\<close> is taken after \<open>dest\<close> was advanced); \<open>dest\<close> is what is in the buffer.
  The name is collected in an array of 80 bytes.
\<close>

definition var_char :: "char \<Rightarrow> bool" where
  "var_char c \<longleftrightarrow> isalnum c \<or> c = CHR ''_''"

function output_loop :: "'f request \<Rightarrow> string \<Rightarrow> nat \<Rightarrow> string \<Rightarrow> string option" where
  "output_loop r src count dest =
     (case src of
        [] \<Rightarrow> Some dest
      | c # src' \<Rightarrow>
          if \<not> count < HTTP_MAX_LEN then Some dest
          else if c = CHR ''$'' then
            (let varName = take 80 (takeWhile var_char src')
             in if \<not> length varName < 80 then None
                else case httpdGetVariableByName r varName of
                       Some v \<Rightarrow>
                         if count + length (v_value v) < HTTP_MAX_LEN then
                           (if length dest + length (v_value v) < HTTP_MAX_LEN
                            then output_loop r (drop (length varName) src') count (dest @ v_value v)
                            else None)
                         else if length dest < HTTP_MAX_LEN then output_loop r src' (count + 1) (dest @ [c])
                         else None
                     | None \<Rightarrow>
                         if length dest < HTTP_MAX_LEN then output_loop r src' (count + 1) (dest @ [c])
                         else None)
          else if length dest < HTTP_MAX_LEN then output_loop r src' (count + 1) (dest @ [c])
          else None)"
  by pat_completeness auto
termination
  by (relation "measure (\<lambda>(r, src, count, dest). length src)") auto

declare output_loop.simps [simp del]

definition httpdOutput :: "io \<Rightarrow> string \<Rightarrow> 'f request \<Rightarrow> 'f request option" where
  "httpdOutput env msg r = do {
     buf \<leftarrow> output_loop r msg 0 [];
     if length buf < HTTP_MAX_LEN then
       (let r1 = r\<lparr>rs_responseLength := rs_responseLength r + int (length buf)\<rparr>;
            r2 = (if \<not> rs_headersSent r1 then httpdSendHeaders env r1 else r1)
        in Some (httpd_net_write buf r2))
     else None
   }"

text \<open>\<open>httpdPrintf\<close>, given the formatted text.\<close>

definition httpdPrintf :: "io \<Rightarrow> string \<Rightarrow> 'f request \<Rightarrow> 'f request" where
  "httpdPrintf env formatted r =
     (let r1 = (if \<not> rs_headersSent r then httpdSendHeaders env r else r);
          buf = snprintf HTTP_MAX_LEN formatted
      in httpd_net_write buf (r1\<lparr>rs_responseLength := rs_responseLength r1 + int (length buf)\<rparr>))"

definition httpd_sendText :: "string \<Rightarrow> 'f request \<Rightarrow> 'f request" where
  "httpd_sendText msg r =
     httpd_net_write msg (r\<lparr>rs_responseLength := rs_responseLength r + int (length msg)\<rparr>)"

definition httpdForceAuthenticate :: "io \<Rightarrow> string \<Rightarrow> 'f request \<Rightarrow> 'f request option" where
  "httpdForceAuthenticate env realm r = do {
     r1 \<leftarrow> httpdAddHeader (snprintf 255 (''WWW-Authenticate: Basic realm='' @ [chr 34] @ realm @ [chr 34, NL]))
            (httpdSetResponse ''401 Please Authenticate'' r);
     httpdOutput env [NL] r1
   }"

definition httpdAuthenticate :: "io \<Rightarrow> string \<Rightarrow> 'f request \<Rightarrow> (int \<times> 'f request) option" where
  "httpdAuthenticate env realm r =
     (if rq_authLength r = 0 then do {
        r1 \<leftarrow> httpdAddHeader (snprintf 255 (''WWW-Authenticate: Basic realm='' @ [chr 34] @ realm @ [chr 34, NL]))
               (httpdSetResponse ''401 Please Authenticate'' r);
        r2 \<leftarrow> httpdOutput env [NL] r1;
        Some (0, r2)
      }
      else Some (1, r))"

section \<open>The tree of content\<close>

text \<open>\<open>strtok (buffer, "/")\<close>: the non-empty parts of the path.\<close>

definition path_parts :: "string \<Rightarrow> string list" where
  "path_parts dir = filter (\<lambda>p. p \<noteq> []) (strsep_all (take (HTTP_MAX_URL - 1) dir) (CHR ''/''))"

text \<open>
  \<open>_httpd_findContentDir\<close> without creation returns a directory; with creation its callers
  put one entry in front of the entries of the directory found or made.
\<close>

fun find_dir :: "string list \<Rightarrow> 'f httpDir \<Rightarrow> 'f httpDir option" where
  "find_dir [] d = Some d"
| "find_dir (p # ps) d =
     (case List.find (\<lambda>c. d_name c = p) (d_children d) of None \<Rightarrow> None | Some c \<Rightarrow> find_dir ps c)"

fun replace_child :: "string \<Rightarrow> 'f httpDir \<Rightarrow> 'f httpDir list \<Rightarrow> 'f httpDir list" where
  "replace_child p c' [] = []"
| "replace_child p c' (c # cs) = (if d_name c = p then c' # cs else c # replace_child p c' cs)"

fun add_entry :: "string list \<Rightarrow> 'f httpContent \<Rightarrow> 'f httpDir \<Rightarrow> 'f httpDir" where
  "add_entry [] e d = Dir (d_name d) (d_children d) (e # d_entries d)"
| "add_entry (p # ps) e d =
     (case List.find (\<lambda>c. d_name c = p) (d_children d) of
        Some c \<Rightarrow> Dir (d_name d) (replace_child p (add_entry ps e c) (d_children d)) (d_entries d)
      | None \<Rightarrow> Dir (d_name d) (add_entry ps e (Dir p [] []) # d_children d) (d_entries d))"

definition httpd_findContentDir :: "'f httpd \<Rightarrow> string \<Rightarrow> 'f httpDir option" where
  "httpd_findContentDir server dir = find_dir (path_parts dir) (h_content server)"

definition add_content :: "string \<Rightarrow> 'f httpContent \<Rightarrow> 'f httpd \<Rightarrow> 'f httpd" where
  "add_content dir e server = server\<lparr>h_content := add_entry (path_parts dir) e (h_content server)\<rparr>"

definition content_path :: "'f httpd \<Rightarrow> string \<Rightarrow> string" where
  "content_path server path =
     (if take 1 path = ''/'' then path
      else snprintf HTTP_MAX_URL (h_fileBasePath server @ ''/'' @ path))"

definition httpdAddFileContent ::
  "string \<Rightarrow> string \<Rightarrow> bool \<Rightarrow> 'f option \<Rightarrow> string \<Rightarrow> 'f httpd \<Rightarrow> 'f httpd" where
  "httpdAddFileContent dir name indexFlag preload path server = add_content dir
     \<lparr>e_name = Some name, e_type = HTTP_FILE, e_indexFlag = indexFlag, e_function = None, e_data = [],
      e_path = content_path server path, e_preload = preload\<rparr> server"

definition httpdAddWildcardContent :: "string \<Rightarrow> 'f option \<Rightarrow> string \<Rightarrow> 'f httpd \<Rightarrow> 'f httpd" where
  "httpdAddWildcardContent dir preload path server = add_content dir
     \<lparr>e_name = None, e_type = HTTP_WILDCARD, e_indexFlag = False, e_function = None, e_data = [],
      e_path = content_path server path, e_preload = preload\<rparr> server"

definition httpdAddCContent ::
  "string \<Rightarrow> string \<Rightarrow> bool \<Rightarrow> 'f option \<Rightarrow> 'f \<Rightarrow> 'f httpd \<Rightarrow> 'f httpd" where
  "httpdAddCContent dir name indexFlag preload f server = add_content dir
     \<lparr>e_name = Some name, e_type = HTTP_C_FUNCT, e_indexFlag = indexFlag, e_function = Some f, e_data = [],
      e_path = [], e_preload = preload\<rparr> server"

definition httpdAddCWildcardContent :: "string \<Rightarrow> 'f option \<Rightarrow> 'f \<Rightarrow> 'f httpd \<Rightarrow> 'f httpd" where
  "httpdAddCWildcardContent dir preload f server = add_content dir
     \<lparr>e_name = None, e_type = HTTP_C_WILDCARD, e_indexFlag = False, e_function = Some f, e_data = [],
      e_path = [], e_preload = preload\<rparr> server"

definition httpdAddStaticContent ::
  "string \<Rightarrow> string \<Rightarrow> bool \<Rightarrow> 'f option \<Rightarrow> string \<Rightarrow> 'f httpd \<Rightarrow> 'f httpd" where
  "httpdAddStaticContent dir name indexFlag preload data server = add_content dir
     \<lparr>e_name = Some name, e_type = HTTP_STATIC, e_indexFlag = indexFlag, e_function = None, e_data = data,
      e_path = [], e_preload = preload\<rparr> server"

definition entry_matches :: "string \<Rightarrow> 'f httpContent \<Rightarrow> bool" where
  "entry_matches entryName e \<longleftrightarrow> e_type e = HTTP_WILDCARD \<or> e_type e = HTTP_C_WILDCARD \<or>
     (entryName = [] \<and> e_indexFlag e) \<or> e_name e = Some entryName"

definition httpd_findContentEntry ::
  "'f request \<Rightarrow> 'f httpDir \<Rightarrow> string \<Rightarrow> 'f httpContent option \<times> 'f request" where
  "httpd_findContentEntry r dir entryName =
     (case List.find (entry_matches entryName) (d_entries dir) of
        Some e \<Rightarrow> (Some e, r\<lparr>rs_content := Some e\<rparr>)
      | None \<Rightarrow> (None, r))"

definition httpdSetFileBase :: "string \<Rightarrow> 'f httpd \<Rightarrow> 'f httpd" where
  "httpdSetFileBase path server = server\<lparr>h_fileBasePath := take (HTTP_MAX_URL - 1) path\<rparr>"

definition httpdSetErrorFunction :: "int \<Rightarrow> 'f option \<Rightarrow> 'f httpd \<Rightarrow> int \<times> 'f httpd" where
  "httpdSetErrorFunction error f server =
     (if error = 304 then (0, server\<lparr>h_errorFunction304 := f\<rparr>)
      else if error = 403 then (0, server\<lparr>h_errorFunction403 := f\<rparr>)
      else if error = 404 then (0, server\<lparr>h_errorFunction404 := f\<rparr>)
      else (-1, httpd_writeErrorLog None LEVEL_ERROR
                 (snprintf 80 (''Invalid error code ('' @ show_int error @ '') for custom callback'')) server))"

section \<open>Error pages, files, dispatch\<close>

text \<open>A handler gets the error code for which it is called (0 for content), the server and
  the request, and may change the world.\<close>

type_synonym ('f, 'w) caller =
  "'f \<Rightarrow> int \<Rightarrow> 'f httpd \<Rightarrow> 'f request \<Rightarrow> 'w \<Rightarrow> ('f httpd \<times> 'f request \<times> 'w) option"

definition httpd_send304 ::
  "io \<Rightarrow> ('f, 'w) caller \<Rightarrow> 'f httpd \<Rightarrow> 'f request \<Rightarrow> 'w \<Rightarrow> ('f httpd \<times> 'f request \<times> 'w) option" where
  "httpd_send304 env call server r w =
     (case h_errorFunction304 server of
        Some f \<Rightarrow> call f 304 server r w
      | None \<Rightarrow> Some (server, httpd_sendHeaders env 0 0 (httpdSetResponse (''304 Not Modified'' @ [NL]) r), w))"

definition httpd_send403 ::
  "io \<Rightarrow> ('f, 'w) caller \<Rightarrow> 'f httpd \<Rightarrow> 'f request \<Rightarrow> 'w \<Rightarrow> ('f httpd \<times> 'f request \<times> 'w) option" where
  "httpd_send403 env call server r w =
     (case h_errorFunction403 server of
        Some f \<Rightarrow> call f 403 server r w
      | None \<Rightarrow>
          (let r1 = httpd_sendHeaders env 0 0 (httpdSetResponse (''403 Permission Denied'' @ [NL]) r);
               r2 = httpd_sendText (''<HTML><HEAD><TITLE>403 Permission Denied</TITLE></HEAD>'' @ [NL]) r1;
               r3 = httpd_sendText (''<BODY><H1>Access to the request URL was denied!</H1>'' @ [NL]) r2
           in Some (server, r3, w)))"

definition httpd_send404 ::
  "io \<Rightarrow> ('f, 'w) caller \<Rightarrow> 'f httpd \<Rightarrow> 'f request \<Rightarrow> 'w \<Rightarrow> ('f httpd \<times> 'f request \<times> 'w) option" where
  "httpd_send404 env call server r w =
     (let msg = snprintf HTTP_MAX_URL (''File does not exist: '' @ rq_path r @ [NL]);
          server1 = httpd_writeErrorLog (Some r) LEVEL_ERROR msg server
      in case h_errorFunction404 server1 of
           Some f \<Rightarrow> call f 404 server1 r w
         | None \<Rightarrow>
             (let r1 = httpd_sendHeaders env 0 0 (httpdSetResponse (''404 Not Found'' @ [NL]) r);
                  r2 = httpd_sendText (''<HTML><HEAD><TITLE>404 Not Found</TITLE></HEAD>'' @ [NL]) r1;
                  r3 = httpd_sendText (''<BODY><H1>The request URL was not found!</H1>'' @ [NL]) r2;
                  r4 = httpd_sendText (''</BODY></HTML>'' @ [NL]) r3
              in Some (server1, r4, w)))"

definition httpd_catFile :: "io \<Rightarrow> string \<Rightarrow> 'f request \<Rightarrow> 'f request" where
  "httpd_catFile env path r =
     (case io_file env path of
        None \<Rightarrow> r
      | Some body \<Rightarrow>
          httpd_net_write body (r\<lparr>rs_responseLength := rs_responseLength r + int (length body)\<rparr>))"

definition httpd_checkLastModified :: "io \<Rightarrow> 'f request \<Rightarrow> int \<Rightarrow> int" where
  "httpd_checkLastModified env r modTime =
     (if httpd_formatTimeString (io_now env) modTime = rq_ifModified r then 0 else 1)"

text \<open>The arguments of \<open>_httpd_sendHeaders\<close> are passed in the order of the C code.\<close>

definition httpd_sendStatic ::
  "io \<Rightarrow> ('f, 'w) caller \<Rightarrow> 'f httpd \<Rightarrow> 'f request \<Rightarrow> string \<Rightarrow> 'w \<Rightarrow> ('f httpd \<times> 'f request \<times> 'w) option" where
  "httpd_sendStatic env call server r data w = do {
     (server1, r1, w1) \<leftarrow> (if httpd_checkLastModified env r (h_startTime server) = 0
                          then httpd_send304 env call server r w else Some (server, r, w));
     r2 \<leftarrow> httpdOutput env data (httpd_sendHeaders env (h_startTime server1) (int (length data)) r1);
     Some (server1, r2, w1)
   }"

definition suffix_type :: "string \<Rightarrow> string \<Rightarrow> string" where
  "suffix_type path old =
     (case strrchr path (CHR ''.'') of
        None \<Rightarrow> old
      | Some suffix \<Rightarrow>
          if strcasecmp_eq suffix ''.gif'' then ''image/gif''
          else if strcasecmp_eq suffix ''.jpg'' then ''image/jpeg''
          else if strcasecmp_eq suffix ''.xbm'' then ''image/xbm''
          else if strcasecmp_eq suffix ''.png'' then ''image/png''
          else if strcasecmp_eq suffix ''.css'' then ''text/css''
          else old)"

definition httpd_sendFile ::
  "io \<Rightarrow> ('f, 'w) caller \<Rightarrow> 'f httpd \<Rightarrow> 'f request \<Rightarrow> string \<Rightarrow> 'w \<Rightarrow> ('f httpd \<times> 'f request \<times> 'w) option" where
  "httpd_sendFile env call server r path w =
     (let r1 = r\<lparr>rs_contentType := suffix_type path (rs_contentType r)\<rparr>
      in case io_stat env path of
           None \<Rightarrow> httpd_send404 env call server r1 w
         | Some (sz, mtime) \<Rightarrow>
             if httpd_checkLastModified env r1 mtime = 0 then httpd_send304 env call server r1 w
             else Some (server, httpd_catFile env path (httpd_sendHeaders env sz mtime r1), w))"

definition httpd_sendDirectoryEntry ::
  "io \<Rightarrow> ('f, 'w) caller \<Rightarrow> 'f httpd \<Rightarrow> 'f request \<Rightarrow> 'f httpContent \<Rightarrow> string \<Rightarrow> 'w \<Rightarrow>
   ('f httpd \<times> 'f request \<times> 'w) option" where
  "httpd_sendDirectoryEntry env call server r e entryName w =
     httpd_sendFile env call server r (snprintf HTTP_MAX_URL (e_path e @ ''/'' @ entryName)) w"

text \<open>\<open>preload\<close> runs the preload function of an entry.\<close>

definition run_entry ::
  "io \<Rightarrow> ('f, 'w) caller \<Rightarrow> 'f httpd \<Rightarrow> 'f request \<Rightarrow> 'f httpContent \<Rightarrow> string \<Rightarrow> 'w \<Rightarrow>
   ('f httpd \<times> 'f request \<times> 'w) option" where
  "run_entry env call server r e entryName w =
     (case e_type e of
        HTTP_C_FUNCT \<Rightarrow> (case e_function e of None \<Rightarrow> None | Some f \<Rightarrow> call f 0 server r w)
      | HTTP_C_WILDCARD \<Rightarrow> (case e_function e of None \<Rightarrow> None | Some f \<Rightarrow> call f 0 server r w)
      | HTTP_STATIC \<Rightarrow> httpd_sendStatic env call server r (e_data e) w
      | HTTP_FILE \<Rightarrow> httpd_sendFile env call server r (e_path e) w
      | HTTP_WILDCARD \<Rightarrow> httpd_sendDirectoryEntry env call server r e entryName w
      | HTTP_EMBER_FUNCT \<Rightarrow> Some (server, r, w))"

definition split_path :: "string \<Rightarrow> (string \<times> string) option" where
  "split_path path =
     (let dirName = take (HTTP_MAX_URL - 1) path
      in case strrchr dirName (CHR ''/'') of
           None \<Rightarrow> None
         | Some cp \<Rightarrow>
             (let n = length dirName - length cp
              in Some (if n \<noteq> 0 then take n dirName else ''/'', tl cp)))"

definition log_access :: "('f httpd \<times> 'f request \<times> 'w) option \<Rightarrow> ('f httpd \<times> 'f request \<times> 'w) option" where
  "log_access res = map_option (\<lambda>(server, r, w). (httpd_writeAccessLog r server, r, w)) res"

definition httpdProcessRequest ::
  "io \<Rightarrow> ('f, 'w) caller \<Rightarrow> ('f \<Rightarrow> int) \<Rightarrow> 'f httpd \<Rightarrow> 'f request \<Rightarrow> 'w \<Rightarrow> ('f httpd \<times> 'f request \<times> 'w) option" where
  "httpdProcessRequest env call preload server r0 w =
     (let r = r0\<lparr>rs_responseLength := 0\<rparr>
      in case split_path (rq_path r) of
           None \<Rightarrow> Some (server, r, w)
         | Some (dirName, entryName) \<Rightarrow>
             (case httpd_findContentDir server dirName of
                None \<Rightarrow> log_access (httpd_send404 env call server r w)
              | Some dir \<Rightarrow>
                  (case httpd_findContentEntry r dir entryName of
                     (None, r1) \<Rightarrow> log_access (httpd_send404 env call server r1 w)
                   | (Some e, r1) \<Rightarrow>
                       (case e_preload e of
                          Some f \<Rightarrow> if preload f < 0 then log_access (Some (server, r1, w))
                                    else log_access (run_entry env call server r1 e entryName w)
                        | None \<Rightarrow> log_access (run_entry env call server r1 e entryName w)))))"

section \<open>Access lists\<close>

definition scanCidr :: "string \<Rightarrow> (u32 \<times> u32) option" where
  "scanCidr val = do {
     let res1 = (word_of_int (atoi val) :: u32);
     cp1 \<leftarrow> strchr val (CHR ''.'');
     let res2 = (word_of_int (atoi (tl cp1)) :: u32);
     cp2 \<leftarrow> strchr (tl cp1) (CHR ''.'');
     let res3 = (word_of_int (atoi (tl cp2)) :: u32);
     cp3 \<leftarrow> strchr (tl cp2) (CHR ''.'');
     let res4 = (word_of_int (atoi (tl cp3)) :: u32);
     let res5 = (case strchr (tl cp3) (CHR ''/'') of
                   None \<Rightarrow> 32 | Some cp4 \<Rightarrow> (word_of_int (atoi (tl cp4)) :: u32));
     if 255 < res1 \<or> 255 < res2 \<or> 255 < res3 \<or> 255 < res4 \<or> 32 < res5 then None
     else Some (push_bit 24 res1 + push_bit 16 res2 + push_bit 8 res3 + res4, res5)
   }"

text \<open>The loop that builds the mask, on 32-bit values.\<close>

fun cidr_mask :: "nat \<Rightarrow> u32" where
  "cidr_mask 0 = 0"
| "cidr_mask (Suc n) = push_bit 1 (cidr_mask n) + 1"

definition isInCidrBlock ::
  "'f request \<Rightarrow> u32 \<Rightarrow> nat \<Rightarrow> u32 \<Rightarrow> nat \<Rightarrow> 'f httpd \<Rightarrow> bool \<times> 'f httpd" where
  "isInCidrBlock r addr1 len1 addr2 len2 server =
     (if len2 < len1
      then (False, httpd_writeErrorLog (Some r) LEVEL_ERROR
                     ''IP Address must be more specific than network block'' server)
      else (let mask = push_bit (32 - len1) (cidr_mask len1)
            in (and addr1 mask = and addr2 mask, server)))"

definition HTTP_ACL_PERMIT :: int where "HTTP_ACL_PERMIT = 1"
definition HTTP_ACL_DENY :: int where "HTTP_ACL_DENY = 2"

text \<open>\<open>httpdAddAcl\<close>: the list with the new entry at its end, or NULL.\<close>

definition httpdAddAcl ::
  "httpAcl list \<Rightarrow> string \<Rightarrow> int \<Rightarrow> 'f httpd \<Rightarrow> httpAcl list option \<times> 'f httpd" where
  "httpdAddAcl acl cidr action server =
     (case scanCidr cidr of
        None \<Rightarrow> (None, httpd_writeErrorLog None LEVEL_ERROR ''Invalid IP address format'' server)
      | Some (addr, len) \<Rightarrow>
          if action \<noteq> HTTP_ACL_PERMIT \<and> action \<noteq> HTTP_ACL_DENY
          then (None, httpd_writeErrorLog None LEVEL_ERROR ''Invalid acl action'' server)
          else (Some (acl @ [\<lparr>acl_addr = addr, acl_len = unat len, acl_action = action\<rparr>]), server))"

text \<open>The first entry whose block contains the address decides.\<close>

fun acl_lookup :: "'f request \<Rightarrow> httpAcl list \<Rightarrow> u32 \<Rightarrow> nat \<Rightarrow> 'f httpd \<Rightarrow> int \<times> 'f httpd" where
  "acl_lookup r [] addr len server = (HTTP_ACL_DENY, server)"
| "acl_lookup r (e # acl) addr len server =
     (case isInCidrBlock r (acl_addr e) (acl_len e) addr len server of
        (True, server1) \<Rightarrow> (acl_action e, server1)
      | (False, server1) \<Rightarrow> acl_lookup r acl addr len server1)"

definition httpdCheckAcl ::
  "io \<Rightarrow> ('f, 'w) caller \<Rightarrow> 'f httpd \<Rightarrow> 'f request \<Rightarrow> httpAcl list \<Rightarrow> 'w \<Rightarrow>
   (int \<times> 'f httpd \<times> 'f request \<times> 'w) option" where
  "httpdCheckAcl env call server r acl w =
     (let (action, server1) = (case scanCidr (clientAddr r) of
                      None \<Rightarrow> (HTTP_ACL_DENY, server)
                    | Some (addr, len) \<Rightarrow> acl_lookup r acl addr (unat len) server)
      in if action = HTTP_ACL_DENY then do {
           (server2, r1, w1) \<leftarrow> httpd_send403 env call server1 r w;
           Some (action, httpd_writeErrorLog (Some r1) LEVEL_ERROR ''Access denied by ACL'' server2, r1, w1)
         }
         else Some (action, server1, r, w))"

definition httpdSetDefaultAcl :: "httpAcl list \<Rightarrow> 'f httpd \<Rightarrow> 'f httpd" where
  "httpdSetDefaultAcl acl server = server\<lparr>h_defaultAcl := acl\<rparr>"

end
