(* ===== verification/Httpd_Props.thy ===== *)
theory Httpd_Props
  imports Httpd_Serve
begin

text \<open>
  What the web server guarantees: lines are read the same whatever the chunks in which they
  arrive, variables in the output are expanded, content is found where it was added, query
  strings are decoded, and access lists compare address prefixes. Each group of lemmas ends
  with the properties of its functions.
\<close>

section \<open>Reading lines\<close>

text \<open>The bytes that can be read before a read fails.\<close>

fun stream :: "net_result list \<Rightarrow> string" where
  "stream [] = []"
| "stream (Ret n # rest) = []"
| "stream (Bytes b # rest) = (if b = [] then [] else b @ stream rest)"

definition input :: "'f request \<Rightarrow> string" where
  "input r = readBuf r @ stream (net_in r)"

definition read_ok :: "'f request \<Rightarrow> bool" where
  "read_ok r \<longleftrightarrow> readBufRemain r = int (length (readBuf r))"

lemma readChar_input:
  assumes "read_ok r" and "input r = c # cs"
  shows "\<exists>r'. httpd_readChar r = Some (Some c, r') \<and> read_ok r' \<and> input r' = cs \<and>
    r' = r\<lparr>readBuf := readBuf r', readBufRemain := readBufRemain r', net_in := net_in r'\<rparr>"
proof (cases "readBuf r")
  case (Cons x xs)
  with assms show ?thesis
    by (auto simp: httpd_readChar_def read_ok_def input_def)
next
  case Nil
  with assms obtain b rest where b: "net_in r = Bytes b # rest" "b \<noteq> []" "b @ stream rest = c # cs"
    by (cases "net_in r" rule: stream.cases) (auto simp: input_def split: if_splits)
  then obtain b' where b': "b = c # b'"
    by (cases b) auto
  define t where "t = take (HTTP_READ_BUF_LEN - 1) b'"
  define d where "d = drop (HTTP_READ_BUF_LEN - 1) b'"
  have td: "take HTTP_READ_BUF_LEN b = c # t" "drop HTTP_READ_BUF_LEN b = d" "b' = t @ d"
    by (simp_all add: b' t_def d_def HTTP_READ_BUF_LEN_def)
  have "d = [] \<longleftrightarrow> \<not> length b > HTTP_READ_BUF_LEN"
    by (auto simp flip: td(2))
  with Nil assms b b' td show ?thesis
    by (auto simp: httpd_readChar_def httpd_net_read_def read_ok_def input_def)
qed

lemma readLine_loop_spec:
  assumes "read_ok r" and "input r = line @ NL # rest"
    and "\<forall>c \<in> set line. isascii c \<and> c \<noteq> NL" and "NUL \<notin> set dst" and "NUL \<notin> set line"
    and "length dst + length (filter (\<lambda>c. c \<noteq> CR) line) < len"
  shows "\<exists>r'. readLine_loop len dst r = Some (Some (dst @ filter (\<lambda>c. c \<noteq> CR) line), r') \<and>
    read_ok r' \<and> input r' = rest \<and>
    r' = r\<lparr>readBuf := readBuf r', readBufRemain := readBufRemain r', net_in := net_in r'\<rparr>"
  using assms
proof (induction line arbitrary: r dst)
  case Nil
  then obtain r' where "httpd_readChar r = Some (Some NL, r')" "read_ok r'" "input r' = rest"
    "r' = r\<lparr>readBuf := readBuf r', readBufRemain := readBufRemain r', net_in := net_in r'\<rparr>"
    using readChar_input [of r NL rest] by auto
  with Nil show ?case
    by (subst readLine_loop.simps) auto
next
  case (Cons c line)
  then obtain r1 where r1: "httpd_readChar r = Some (Some c, r1)" "read_ok r1" "input r1 = line @ NL # rest"
    "r1 = r\<lparr>readBuf := readBuf r1, readBufRemain := readBufRemain r1, net_in := net_in r1\<rparr>"
    using readChar_input [of r c "line @ NL # rest"] by auto
  let ?dst = "if c = CR then dst else dst @ [c]"
  have "readLine_loop len dst r = readLine_loop len ?dst r1"
    using r1(1) Cons.prems by (subst readLine_loop.simps) (auto split: if_splits)
  moreover obtain r2 where r2: "readLine_loop len ?dst r1 = Some (Some (?dst @ filter (\<lambda>c. c \<noteq> CR) line), r2)"
    "read_ok r2" "input r2 = rest"
    "r2 = r1\<lparr>readBuf := readBuf r2, readBufRemain := readBufRemain r2, net_in := net_in r2\<rparr>"
    using Cons.IH [OF r1(2,3), of ?dst] Cons.prems(3-6) by (auto split: if_splits)
  moreover have "r2 = r\<lparr>readBuf := readBuf r2, readBufRemain := readBufRemain r2, net_in := net_in r2\<rparr>"
    by (subst r2(4), subst r1(4)) simp
  ultimately show ?case
    by (intro exI [of _ r2]) simp
qed

text \<open>
  C24: A line of ASCII text is read up to its newline, carriage returns removed, and
  what follows it stays to be read, however the network cuts the stream into chunks, as
  long as the line is shorter than the buffer.
\<close>

theorem readLine_any_chunks:
  assumes "read_ok r" and "input r = line @ NL # rest"
    and "\<forall>c \<in> set line. isascii c \<and> c \<noteq> NL \<and> c \<noteq> NUL" and "length line < len"
  shows "\<exists>r'. httpd_readLine len r = Some (Some (filter (\<lambda>c. c \<noteq> CR) line), r') \<and>
    read_ok r' \<and> input r' = rest"
proof -
  have "length (filter (\<lambda>c. c \<noteq> CR) line) < len"
    using assms(4) length_filter_le [of "\<lambda>c. c \<noteq> CR" line] by linarith
  moreover have "NUL \<notin> set line" "\<forall>c \<in> set line. isascii c \<and> c \<noteq> NL"
    using assms(3) by auto
  ultimately show ?thesis
    using readLine_loop_spec [OF assms(1,2), of "[]" len] by (auto simp: httpd_readLine_def)
qed

theorem readLine_any_chunks_witness:
  "\<exists>r'. httpd_readLine 10 (new_request [Bytes ''GE'', Bytes [CHR ''T'', CR], Bytes (NL # ''x'')] ''10.0.0.7'')
     = Some (Some ''GET'', r') \<and> input r' = ''x''"
  using readLine_any_chunks [of "new_request [Bytes ''GE'', Bytes [CHR ''T'', CR], Bytes (NL # ''x'')] ''10.0.0.7''"
      "''GET'' @ [CR]" "''x''" 10]
  by (auto simp: read_ok_def new_request_def input_def char_class_defs)

lemma readLine_loop_full:
  assumes "read_ok r" and "input r = line @ rest"
    and "\<forall>c \<in> set line. isascii c \<and> c \<noteq> NL \<and> c \<noteq> CR" and "length dst + length line = len"
  shows "readLine_loop len dst r = None"
  using assms
proof (induction line arbitrary: r dst)
  case Nil
  then show ?case by (subst readLine_loop.simps) simp
next
  case (Cons c line)
  then obtain r1 where "httpd_readChar r = Some (Some c, r1)" "read_ok r1" "input r1 = line @ rest"
    using readChar_input [of r c "line @ rest"] by auto
  with Cons show ?case
    by (subst readLine_loop.simps) auto
qed

text \<open>
  C34: A request line of \<open>HTTP_MAX_LEN\<close> characters makes the server write one byte
  behind its line buffer.
\<close>

theorem readRequest_line_overflow:
  assumes "read_ok r" and "input r = line @ rest" and "length line = HTTP_MAX_LEN"
    and "\<forall>c \<in> set line. isascii c \<and> c \<noteq> NL \<and> c \<noteq> CR"
  shows "httpdReadRequest junk server r = None"
proof -
  let ?r = "r\<lparr>rs_headers := ''Server: Hughes Technologies Embedded Server'' @ [NL],
            rs_contentType := ''text/html'', rs_response := ''200 Output Follows'' @ [NL],
            rs_headersSent := False\<rparr>"
  have "read_ok ?r" "input ?r = line @ rest"
    using assms(1,2) by (simp_all add: read_ok_def input_def)
  then show ?thesis
    using readLine_loop_full [of ?r line rest "[]" HTTP_MAX_LEN] assms(3,4)
    by (simp add: httpdReadRequest_def httpd_readLine_def)
qed

theorem readRequest_line_overflow_witness:
  "\<forall>server. httpdReadRequest [] server
     (new_request [Bytes (replicate HTTP_MAX_LEN (CHR ''A''))] ''10.0.0.7'') = None"
  by (intro allI readRequest_line_overflow [of _ "replicate HTTP_MAX_LEN (CHR ''A'')" "[]"])
     (auto simp: read_ok_def new_request_def input_def char_class_defs HTTP_MAX_LEN_def)

section \<open>Output\<close>

function expand :: "'f request \<Rightarrow> string \<Rightarrow> string" where
  "expand r [] = []"
| "expand r (c # s) =
     (if c = CHR ''$'' then
        (case httpdGetVariableByName r (takeWhile var_char s) of
           Some v \<Rightarrow> v_value v @ expand r (drop (length (takeWhile var_char s)) s)
         | None \<Rightarrow> c # expand r s)
      else c # expand r s)"
  by pat_completeness auto
termination
  by (relation "measure (\<lambda>(r, s). length s)") auto

text \<open>No name of a variable has eighty or more characters.\<close>

fun short_names :: "string \<Rightarrow> bool" where
  "short_names [] = True"
| "short_names (c # s) \<longleftrightarrow> (c = CHR ''$'' \<longrightarrow> length (takeWhile var_char s) < 80) \<and> short_names s"

lemma short_names_drop: "short_names s \<Longrightarrow> short_names (drop n s)"
  by (induction s arbitrary: n) (auto simp: drop_Cons split: nat.splits)

lemma output_loop_spec:
  assumes "count \<le> length dest" and "length dest + length (expand r src) < HTTP_MAX_LEN" and "short_names src"
  shows "output_loop r src count dest = Some (dest @ expand r src)"
  using assms
proof (induction r src arbitrary: count dest rule: expand.induct)
  case (1 r)
  then show ?case by (subst output_loop.simps) simp
next
  case (2 r c s)
  let ?n = "takeWhile var_char s"
  show ?case
  proof (cases "c = CHR ''$'' \<and> httpdGetVariableByName r ?n \<noteq> None")
    case True
    then obtain v where v: "c = CHR ''$''" "httpdGetVariableByName r ?n = Some v" by auto
    have "take 80 ?n = ?n"
      using "2.prems"(3) v(1) by simp
    then show ?thesis
      using v "2.prems" "2.IH"(2) [OF v, of count "dest @ v_value v"] short_names_drop
      by (subst output_loop.simps) auto
  next
    case False
    then have "expand r (c # s) = c # expand r s" by (auto split: option.splits)
    moreover have "output_loop r s (count + 1) (dest @ [c]) = Some ((dest @ [c]) @ expand r s)"
      using "2.prems" False calculation "2.IH"(1) [of "count + 1" "dest @ [c]"] "2.IH"(3) [of "count + 1" "dest @ [c]"]
      by (cases "c = CHR ''$''") auto
    ultimately show ?thesis
      using "2.prems" False by (subst output_loop.simps) (auto split: option.splits)
  qed
qed

text \<open>
  C32: Output sends the headers once, then the message with every \<open>$name\<close> of a known
  variable replaced by its value, whenever the expanded text is shorter than the output
  buffer and no name is eighty characters long.
\<close>

theorem httpdOutput_expands:
  assumes "length (expand r msg) < HTTP_MAX_LEN" and "short_names msg" and "rs_headersSent r"
  shows "httpdOutput env msg r = Some (r\<lparr>
     rs_responseLength := rs_responseLength r + int (length (expand r msg)), sent := sent r @ expand r msg\<rparr>)"
  using output_loop_spec [of 0 "[]" r msg] assms by (simp add: httpdOutput_def httpd_net_write_def)

theorem httpdOutput_expands_witness:
  "\<exists>r r' :: unit request. rs_headersSent r \<and> httpdOutput \<lparr>io_now = 0, io_stat = \<lambda>_. None, io_file = \<lambda>_. None\<rparr>
     ''Hi $who!'' r = Some r' \<and> sent r' = ''Hi Ann!''"
proof -
  let ?r = "(new_request [] ''10.0.0.7'')\<lparr>rs_headersSent := True,
     variables := [\<lparr>v_name = ''who'', v_value = ''Ann'', v_nextValues = []\<rparr>]\<rparr> :: unit request"
  have e: "expand ?r ''Hi $who!'' = ''Hi Ann!''" and s: "short_names ''Hi $who!''"
    by (simp_all add: httpdGetVariableByName_def var_char_def char_class_defs)
  have len: "length (expand ?r ''Hi $who!'') < HTTP_MAX_LEN" and h: "rs_headersSent ?r"
    by (simp_all only: e) (simp_all add: HTTP_MAX_LEN_def)
  show ?thesis
    by (intro exI conjI, rule h, rule httpdOutput_expands [OF len s h])
       (simp only: e, simp add: new_request_def)
qed

text \<open>
  The counter that should guard the output buffer is not advanced by expanded values:
  with one variable whose value takes more than half of the buffer, a message that names it
  twice is written past the end of the buffer.
\<close>

theorem httpdOutput_overflow:
  assumes "httpdGetVariableByName r ''v'' = Some v" and "HTTP_MAX_LEN \<le> 2 * length (v_value v)"
    and "length (v_value v) < HTTP_MAX_LEN"
  shows "httpdOutput env ''$v$v'' r = None"
proof -
  have n: "takeWhile var_char ''v$v'' = ''v''" "takeWhile var_char ''v'' = ''v''"
    by (simp_all add: var_char_def char_class_defs)
  have "output_loop r ''$v$v'' 0 [] = None"
    using assms n
    by (subst output_loop.simps, subst output_loop.simps) (simp add: Let_def)
  then show ?thesis by (simp add: httpdOutput_def)
qed

theorem httpdOutput_overflow_witness:
  "\<forall>env. httpdOutput env ''$v$v'' ((new_request [] [])\<lparr>variables :=
     [\<lparr>v_name = ''v'', v_value = replicate 6000 (CHR ''a''), v_nextValues = []\<rparr>]\<rparr> :: unit request) = None"
  by (intro allI httpdOutput_overflow
        [where v = "\<lparr>v_name = ''v'', v_value = replicate 6000 (CHR ''a''), v_nextValues = []\<rparr>"])
     (simp_all add: httpdGetVariableByName_def HTTP_MAX_LEN_def)

section \<open>Content\<close>

definition entries_at :: "string list \<Rightarrow> 'f httpDir \<Rightarrow> 'f httpContent list" where
  "entries_at ps d = (case find_dir ps d of None \<Rightarrow> [] | Some d' \<Rightarrow> d_entries d')"

lemma find_replace_child:
  assumes "List.find (\<lambda>c. d_name c = p) cs = Some c" and "d_name c' = p"
  shows "List.find (\<lambda>c. d_name c = q) (replace_child p c' cs) =
    (if q = p then Some c' else List.find (\<lambda>c. d_name c = q) cs)"
  using assms by (induction cs) (auto split: if_splits)

lemma d_name_add_entry [simp]: "d_name (add_entry ps e d) = d_name d"
  by (cases ps) (auto split: option.splits)

lemma entries_at_Cons:
  "entries_at (q # qs) d =
     (case List.find (\<lambda>c. d_name c = q) (d_children d) of None \<Rightarrow> [] | Some c \<Rightarrow> entries_at qs c)"
  by (simp add: entries_at_def split: option.splits)

lemma find_name: "List.find (\<lambda>c. d_name c = p) cs = Some c \<Longrightarrow> d_name c = p"
  by (auto simp: find_Some_iff)

lemma entries_at_empty [simp]: "entries_at qs (Dir p [] []) = []"
  by (cases qs) (simp_all add: entries_at_def)

lemma entries_add_entry:
  "entries_at qs (add_entry ps e d) = (if qs = ps then e # entries_at ps d else entries_at qs d)"
proof (induction ps e d arbitrary: qs rule: add_entry.induct)
  case (1 e d)
  then show ?case by (cases qs) (simp_all add: entries_at_def)
next
  case (2 p ps e d)
  show ?case
  proof (cases qs)
    case Nil
    then show ?thesis by (simp add: entries_at_def split: option.splits)
  next
    case (Cons q qs')
    show ?thesis
    proof (cases "List.find (\<lambda>c. d_name c = p) (d_children d)")
      case None
      with Cons 2(1) [OF None] show ?thesis
        by (auto simp: entries_at_Cons)
    next
      case (Some c)
      have "d_name (add_entry ps e c) = p"
        using find_name [OF Some] by simp
      with Cons Some 2(2) [OF Some] show ?thesis
        by (auto simp: entries_at_Cons find_replace_child)
    qed
  qed
qed

text \<open>
  Adding content puts it in front of what its directory already holds, creates the
  directories that are missing, and changes the entries of no other directory.
\<close>

theorem add_content_entries:
  "entries_at qs (h_content (add_content dir e server)) =
    (if qs = path_parts dir then e # entries_at qs (h_content server) else entries_at qs (h_content server))"
  by (simp add: add_content_def entries_add_entry)

section \<open>Query strings\<close>

fun query_of :: "(string \<times> string) list \<Rightarrow> string" where
  "query_of [] = []"
| "query_of [(n, v)] = n @ ''='' @ v"
| "query_of ((n, v) # ps) = n @ ''='' @ v @ ''&'' @ query_of ps"

definition plain :: "string \<Rightarrow> bool" where
  "plain s \<longleftrightarrow> CHR ''='' \<notin> set s \<and> CHR ''&'' \<notin> set s \<and> NUL \<notin> set s"

lemma storeData_name:
  assumes "plain n" and "k + length n \<le> length var"
  shows "storeData_loop r var k None (n @ s) =
    storeData_loop r (take k var @ n @ drop (k + length n) var) (k + length n) None s"
  using assms
proof (induction n arbitrary: k var)
  case (Cons c n)
  have "take (Suc k) (var[k := c]) = take k var @ [c]"
    using Cons.prems(2) by (simp add: take_Suc_update)
  with Cons show ?case
    by (auto simp: plain_def)
qed simp

lemma storeData_value:
  "plain v \<Longrightarrow> storeData_loop r var k (Some acc) (v @ s) = storeData_loop r var k (Some (acc @ v)) s"
  by (induction v arbitrary: acc) (auto simp: plain_def)

lemma storeData_pair:
  assumes "plain n" and "plain v" and "length n < length var"
  shows "\<exists>var'. length var' = length var \<and> cstr var' = n \<and>
    storeData_loop r var 0 None (n @ ''='' @ v @ s) = storeData_loop r var' (length n) (Some v) s"
proof -
  have "n @ drop (length n) var = n @ var ! length n # drop (Suc (length n)) var"
    using assms(3) by (simp add: Cons_nth_drop_Suc)
  then have "(n @ drop (length n) var)[length n := NUL] = n @ NUL # drop (Suc (length n)) var"
    by simp
  then show ?thesis
    using storeData_name [OF assms(1), of 0 var r "''='' @ v @ s"] storeData_value [OF assms(2), of r _ _ "[]" s] assms
    by (intro exI [of _ "n @ NUL # drop (Suc (length n)) var"]) (simp add: plain_def)
qed

lemma storeData_pairs:
  assumes "\<forall>(n, v) \<in> set ps. plain n \<and> plain v \<and> length n < length var"
  shows "storeData_loop r var 0 None (query_of ps) =
    fold (\<lambda>(n, v). httpdAddVariable n (httpd_unescape (Some v))) ps r"
  using assms
proof (induction ps arbitrary: r var rule: query_of.induct)
  case (2 n v)
  then show ?case
    using storeData_pair [of n v var r "[]"] by auto
next
  case (3 n v p ps)
  then obtain var' where v: "length var' = length var" "cstr var' = n"
    "storeData_loop r var 0 None (n @ ''='' @ v @ ''&'' @ query_of (p # ps)) =
       storeData_loop r var' (length n) (Some v) (''&'' @ query_of (p # ps))"
    using storeData_pair [of n v var r "''&'' @ query_of (p # ps)"] by auto
  then show ?case
    using "3.IH" [of var' "httpdAddVariable n (httpd_unescape (Some v)) r"] "3.prems" by simp
qed simp

lemma length_name_query: "(n, v) \<in> set ps \<Longrightarrow> length n < length (query_of ps) + 1"
  by (induction ps rule: query_of.induct) auto

lemma plain_escape: "plain (httpd_escape s)"
proof -
  have "hex_digits ! k \<noteq> CHR ''='' \<and> hex_digits ! k \<noteq> CHR ''&''" if "k < 16" for k
  proof -
    have "list_all (\<lambda>k. hex_digits ! k \<noteq> CHR ''='' \<and> hex_digits ! k \<noteq> CHR ''&'') [0..<16]"
      by code_simp
    with that show ?thesis by (simp add: list_all_iff)
  qed
  moreover have "ACCEPTABLE c \<Longrightarrow> c \<noteq> CHR ''='' \<and> c \<noteq> CHR ''&''" for c
    by (auto simp: ACCEPTABLE_def isAcceptable_def code_def)
  ultimately have "CHR ''='' \<notin> set (httpd_escape s) \<and> CHR ''&'' \<notin> set (httpd_escape s)"
  proof (induction s)
    case (Cons c s)
    have "code c mod 16 < 16" by simp
    then show ?case
      using Cons.IH [OF Cons.prems] Cons.prems(1) [OF code_div_16, of c] Cons.prems(1) [of "code c mod 16"]
        Cons.prems(2) [of c]
      by auto
  qed simp
  then show ?thesis
    using set_escape [of s] by (simp add: plain_def)
qed

text \<open>
  C28: A query string made of names and URL-encoded values is stored as exactly these
  variables, in order and with the values decoded, for values without a plus sign.
\<close>

theorem storeData_encoded:
  assumes "\<forall>(n, v) \<in> set ps. plain n \<and> NUL \<notin> set v \<and> CHR ''+'' \<notin> set v"
  shows "httpd_storeData (query_of (map (\<lambda>(n, v). (n, httpdUrlEncode v)) ps)) r =
    fold (\<lambda>(n, v). httpdAddVariable n v) ps r"
proof -
  let ?qs = "map (\<lambda>(n, v). (n, httpdUrlEncode v)) ps"
  have "\<forall>(n, v) \<in> set ?qs. plain n \<and> plain v \<and> length n < length (replicate (length (query_of ?qs) + 1) NUL)"
    using assms length_name_query [of _ _ ?qs] by (fastforce simp: httpdUrlEncode_escape plain_escape)
  then have "httpd_storeData (query_of ?qs) r = fold (\<lambda>(n, v). httpdAddVariable n (httpd_unescape (Some v))) ?qs r"
    unfolding httpd_storeData_def by (rule storeData_pairs)
  also have "\<dots> = fold (\<lambda>(n, v). httpdAddVariable n v) ps r"
    using assms
  proof (induction ps arbitrary: r)
    case (Cons p ps)
    obtain n v where "p = (n, v)" by fastforce
    with Cons show ?case
      using httpd_unescape_spec [of "httpd_escape v"] set_escape [of v]
      by (simp add: httpdUrlEncode_escape unescape_escape wf_escaped_escape)
  qed simp
  finally show ?thesis .
qed

theorem storeData_encoded_witness:
  "variables (httpd_storeData ''token=a%20b&url=x'' (new_request [] [] :: unit request)) =
    [\<lparr>v_name = ''token'', v_value = ''a b'', v_nextValues = []\<rparr>, \<lparr>v_name = ''url'', v_value = ''x'', v_nextValues = []\<rparr>]"
proof -
  let ?ps = "[(''token'', ''a b''), (''url'', ''x'')]" and ?r = "new_request [] [] :: unit request"
  have e: "query_of (map (\<lambda>(n, v). (n, httpdUrlEncode v)) ?ps) = ''token=a%20b&url=x''"
    by code_simp
  have "httpd_storeData (query_of (map (\<lambda>(n, v). (n, httpdUrlEncode v)) ?ps)) ?r =
      fold (\<lambda>(n, v). httpdAddVariable n v) ?ps ?r"
    by (rule storeData_encoded) (simp add: plain_def NUL_def)
  then show ?thesis
    unfolding e
    by (simp only:) (simp add: httpdAddVariable_def new_request_def skip_blanks_def TAB_def)
qed

text \<open>
  A name that no equals sign ends is not terminated: the variable \<open>x\<close> of
  \<open>abc=1&x&y=2\<close> is stored under the name \<open>xbc\<close>, with the rest of the name before it; and of
  a value with an equals sign only the part after the last one is kept.
\<close>

theorem storeData_stale_name:
  "map v_name (variables (httpd_storeData ''abc=1&x&y=2'' (new_request [] [] :: unit request))) =
     [''abc'', ''xbc'', ''y''] \<and>
   map v_value (variables (httpd_storeData ''token=b=c'' (new_request [] [] :: unit request))) = [''c'']"
  by code_simp

section \<open>Access lists\<close>

lemma cidr_mask_mask: "cidr_mask n = mask n"
  by (induction n) (simp_all add: mask_Suc_rec push_bit_eq_mult)

lemma masked_eq_iff:
  assumes "n \<le> 32"
  shows "and a (push_bit (32 - n) (cidr_mask n)) = and b (push_bit (32 - n) (cidr_mask n))
    \<longleftrightarrow> drop_bit (32 - n) a = drop_bit (32 - n) (b :: u32)" (is "?l \<longleftrightarrow> ?r")
proof
  assume l: ?l
  show ?r
  proof (rule bit_word_eqI)
    fix i
    assume "i < LENGTH(32)"
    have a: "bit (and a (push_bit (32 - n) (cidr_mask n))) (32 - n + i) =
        bit (and b (push_bit (32 - n) (cidr_mask n))) (32 - n + i)"
      using l by simp
    show "bit (drop_bit (32 - n) a) i = bit (drop_bit (32 - n) b) i"
    proof (cases "i < n")
      case True
      then show ?thesis using a assms by (auto simp: cidr_mask_mask bit_simps)
    next
      case False
      then have "\<not> bit x (32 - n + i)" for x :: u32
        using assms bit_imp_le_length [of x "32 - n + i"] by auto
      then show ?thesis using assms by (simp add: bit_simps)
    qed
  qed
next
  assume r: ?r
  show ?l
  proof (rule bit_word_eqI)
    fix i
    assume "i < LENGTH(32)"
    have "bit (drop_bit (32 - n) a) (i - (32 - n)) = bit (drop_bit (32 - n) b) (i - (32 - n))"
      using r by simp
    then show "bit (and a (push_bit (32 - n) (cidr_mask n))) i = bit (and b (push_bit (32 - n) (cidr_mask n))) i"
      by (auto simp: cidr_mask_mask bit_simps)
  qed
qed

lemma acl_lookup_first:
  assumes "\<forall>e \<in> set acl. acl_len e \<le> 32"
  shows "fst (acl_lookup r acl addr len server) =
    (case List.find (\<lambda>e. acl_len e \<le> len \<and>
        drop_bit (32 - acl_len e) (acl_addr e) = drop_bit (32 - acl_len e) addr) acl of
       None \<Rightarrow> HTTP_ACL_DENY | Some e \<Rightarrow> acl_action e)"
  using assms
  by (induction acl arbitrary: server) (auto simp: isInCidrBlock_def Let_def masked_eq_iff)

text \<open>
  C31: The access list lets the first entry decide whose network contains the client's
  address (the leading bits agree, as many as the prefix length says); without such an entry, and
  for an address that does not parse, access is denied.
\<close>

theorem checkAcl_first_match:
  assumes "\<forall>e \<in> set acl. acl_len e \<le> 32 \<and> acl_action e \<in> {HTTP_ACL_PERMIT, HTTP_ACL_DENY}"
    and "scanCidr (clientAddr r) = Some (addr, 32)"
  shows "(case httpdCheckAcl env call server r acl w of
            Some (action, _) \<Rightarrow> action = HTTP_ACL_PERMIT | None \<Rightarrow> False) \<longleftrightarrow>
    (\<exists>i < length acl. acl_action (acl ! i) = HTTP_ACL_PERMIT \<and>
       drop_bit (32 - acl_len (acl ! i)) (acl_addr (acl ! i)) = drop_bit (32 - acl_len (acl ! i)) addr \<and>
       (\<forall>j < i. drop_bit (32 - acl_len (acl ! j)) (acl_addr (acl ! j)) \<noteq> drop_bit (32 - acl_len (acl ! j)) addr))"
proof -
  let ?m = "\<lambda>e. drop_bit (32 - acl_len e) (acl_addr e) = drop_bit (32 - acl_len e) addr"
  have len: "\<forall>e \<in> set acl. acl_len e \<le> 32"
    using assms(1) by blast
  have "List.find (\<lambda>e. acl_len e \<le> 32 \<and> ?m e) acl = List.find ?m acl"
    using len by (intro find_cong) auto
  then have a: "fst (acl_lookup r acl addr 32 server) = (case List.find ?m acl of None \<Rightarrow> HTTP_ACL_DENY | Some e \<Rightarrow> acl_action e)"
    using acl_lookup_first [OF len, of r addr 32 server] by simp
  have "(case httpdCheckAcl env call server r acl w of
            Some (action, _) \<Rightarrow> action = HTTP_ACL_PERMIT | None \<Rightarrow> False) \<longleftrightarrow>
      fst (acl_lookup r acl addr 32 server) = HTTP_ACL_PERMIT"
    using assms(2) by (auto simp: httpdCheckAcl_def HTTP_ACL_PERMIT_def HTTP_ACL_DENY_def
        split: prod.splits option.splits bind_splits)
  also have "\<dots> \<longleftrightarrow> (\<exists>e. List.find ?m acl = Some e \<and> acl_action e = HTTP_ACL_PERMIT)"
    unfolding a by (auto simp: HTTP_ACL_PERMIT_def HTTP_ACL_DENY_def split: option.splits)
  finally show ?thesis
    by (auto simp: find_Some_iff)
qed

theorem checkAcl_first_match_witness:
  "\<exists>r :: unit request. scanCidr (clientAddr r) = Some (0x0A000007, 32) \<and>
    (\<forall>server. case httpdCheckAcl \<lparr>io_now = 0, io_stat = \<lambda>_. None, io_file = \<lambda>_. None\<rparr> (\<lambda>f c s r w. Some (s, r, w))
       server r [\<lparr>acl_addr = 0x0A000000, acl_len = 8, acl_action = HTTP_ACL_PERMIT\<rparr>] () of
       Some (action, _) \<Rightarrow> action = HTTP_ACL_PERMIT | None \<Rightarrow> False)"
proof -
  let ?r = "new_request [] ''10.0.0.7'' :: unit request"
  have s: "scanCidr (clientAddr ?r) = Some (0x0A000007, 32)"
    by code_simp
  show ?thesis
    by (rule exI [of _ ?r], rule conjI, rule s, rule allI,
        subst checkAcl_first_match [where addr = "0x0A000007"])
       (simp_all add: s)
qed

end
