(* ===== verification/Conf.thy ===== *)
theory Conf
  imports Pstring
begin

text \<open>
  The configuration (\<^verbatim>\<open>src/conf.c\<close>, \<^verbatim>\<open>src/conf.h\<close>): defaults, the parser of the
  configuration file with its blocks for authentication servers and firewall rules, the
  trusted MAC and popular server lists, validation, and the rotation of the list of
  authentication servers.

  The configuration file is a string, read with \<open>fgets\<close>. Lines are processed in their
  buffers, NULs included, since several parsers go on behind a NUL that they wrote
  themselves. An \<open>exit\<close> and a memory error are values of \<open>conf_error\<close>. The linked lists
  of the configuration are lists; an authentication server carries the identity of its struct,
  which \<open>mark_auth_server_bad\<close> compares. Messages to the log are left out.
\<close>

section \<open>Data\<close>

datatype conf_error = Conf_Exit int | Memory_Error

record t_auth_serv =
  as_ptr :: nat
  authserv_hostname :: string
  authserv_path :: string
  authserv_login_script_path_fragment :: string
  authserv_portal_script_path_fragment :: string
  authserv_msg_script_path_fragment :: string
  authserv_ping_script_path_fragment :: string
  authserv_auth_script_path_fragment :: string
  authserv_http_port :: int
  authserv_ssl_port :: int
  authserv_use_ssl :: int
  last_ip :: "string option"

datatype t_firewall_target = TARGET_DROP | TARGET_REJECT | TARGET_ACCEPT | TARGET_LOG | TARGET_ULOG

record t_firewall_rule =
  fr_target :: t_firewall_target
  fr_protocol :: "string option"
  fr_port :: "string option"
  fr_mask :: string
  fr_mask_is_ipset :: bool

record t_firewall_ruleset =
  rs_name :: string
  rs_rules :: "t_firewall_rule list"

record s_debugconf =
  log_stderr :: int
  debuglevel :: int
  syslog_facility :: int
  log_syslog :: int

record s_config =
  configfile :: string
  htmlmsgfile :: string
  wdctl_sock :: string
  internal_sock :: string
  deltatraffic :: int
  daemon :: int
  pidfile :: "string option"
  external_interface :: "string option"
  gw_id :: "string option"
  gw_interface :: "string option"
  gw_address :: "string option"
  gw_port :: int
  auth_servers :: "t_auth_serv list"
  httpdname :: "string option"
  httpdmaxconn :: int
  httpdrealm :: string
  httpdusername :: "string option"
  httpdpassword :: "string option"
  clienttimeout :: int
  checkinterval :: int
  proxy_port :: int
  ssl_certs :: string
  ssl_verify :: int
  ssl_cipher_list :: "string option"
  ssl_use_sni :: int
  rulesets :: "t_firewall_ruleset list"
  trustedmaclist :: "string list"
  arp_table_path :: string
  popular_servers :: "string list"
  debugconf :: s_debugconf

datatype OpCodes =
    oBadOption | oDaemon | oDebugLevel | oExternalInterface | oGatewayID | oGatewayInterface
  | oGatewayAddress | oGatewayPort | oDeltaTraffic | oAuthServer | oAuthServHostname
  | oAuthServSSLAvailable | oAuthServSSLPort | oAuthServHTTPPort | oAuthServPath
  | oAuthServLoginScriptPathFragment | oAuthServPortalScriptPathFragment
  | oAuthServMsgScriptPathFragment | oAuthServPingScriptPathFragment
  | oAuthServAuthScriptPathFragment | oHTTPDMaxConn | oHTTPDName | oHTTPDRealm | oHTTPDUsername
  | oHTTPDPassword | oClientTimeout | oCheckInterval | oWdctlSocket | oSyslogFacility
  | oFirewallRule | oFirewallRuleSet | oTrustedMACList | oPopularServers | oHtmlMessageFile
  | oProxyPort | oSSLPeerVerification | oSSLCertPath | oSSLAllowedCipherList | oSSLUseSNI

definition conf_keywords :: "(string \<times> OpCodes) list" where
  "conf_keywords =
     [(''deltatraffic'', oDeltaTraffic), (''daemon'', oDaemon), (''debuglevel'', oDebugLevel),
      (''externalinterface'', oExternalInterface), (''gatewayid'', oGatewayID),
      (''gatewayinterface'', oGatewayInterface), (''gatewayaddress'', oGatewayAddress),
      (''gatewayport'', oGatewayPort), (''authserver'', oAuthServer), (''httpdmaxconn'', oHTTPDMaxConn),
      (''httpdname'', oHTTPDName), (''httpdrealm'', oHTTPDRealm), (''httpdusername'', oHTTPDUsername),
      (''httpdpassword'', oHTTPDPassword), (''clienttimeout'', oClientTimeout),
      (''checkinterval'', oCheckInterval), (''syslogfacility'', oSyslogFacility),
      (''wdctlsocket'', oWdctlSocket), (''hostname'', oAuthServHostname),
      (''sslavailable'', oAuthServSSLAvailable), (''sslport'', oAuthServSSLPort),
      (''httpport'', oAuthServHTTPPort), (''path'', oAuthServPath),
      (''loginscriptpathfragment'', oAuthServLoginScriptPathFragment),
      (''portalscriptpathfragment'', oAuthServPortalScriptPathFragment),
      (''msgscriptpathfragment'', oAuthServMsgScriptPathFragment),
      (''pingscriptpathfragment'', oAuthServPingScriptPathFragment),
      (''authscriptpathfragment'', oAuthServAuthScriptPathFragment),
      (''firewallruleset'', oFirewallRuleSet), (''firewallrule'', oFirewallRule),
      (''trustedmaclist'', oTrustedMACList), (''popularservers'', oPopularServers),
      (''htmlmessagefile'', oHtmlMessageFile), (''proxyport'', oProxyPort),
      (''sslpeerverification'', oSSLPeerVerification), (''sslcertpath'', oSSLCertPath),
      (''sslallowedcipherlist'', oSSLAllowedCipherList), (''sslusesni'', oSSLUseSNI)]"

section \<open>Defaults\<close>

text \<open>
  The constants of \<^verbatim>\<open>conf.h\<close>. \<open>SYSCONFDIR\<close> is not set; \<open>LOG_INFO\<close> is 6 and \<open>LOG_DAEMON\<close> is 24.
\<close>

definition DEFAULT_CONFIGFILE :: string where [simp]: "DEFAULT_CONFIGFILE = ''/etc/wifidog.conf''"
definition DEFAULT_HTMLMSGFILE :: string where [simp]: "DEFAULT_HTMLMSGFILE = ''/etc/wifidog-msg.html''"
definition DEFAULT_DAEMON :: int where [simp]: "DEFAULT_DAEMON = 1"
definition DEFAULT_DEBUGLEVEL :: int where [simp]: "DEFAULT_DEBUGLEVEL = 6"
definition DEFAULT_HTTPDMAXCONN :: int where [simp]: "DEFAULT_HTTPDMAXCONN = 10"
definition DEFAULT_GATEWAYID :: "string option" where [simp]: "DEFAULT_GATEWAYID = None"
definition DEFAULT_GATEWAYPORT :: int where [simp]: "DEFAULT_GATEWAYPORT = 2060"
definition DEFAULT_HTTPDNAME :: string where [simp]: "DEFAULT_HTTPDNAME = ''WiFiDog''"
definition DEFAULT_CLIENTTIMEOUT :: int where [simp]: "DEFAULT_CLIENTTIMEOUT = 5"
definition DEFAULT_CHECKINTERVAL :: int where [simp]: "DEFAULT_CHECKINTERVAL = 60"
definition DEFAULT_LOG_SYSLOG :: int where [simp]: "DEFAULT_LOG_SYSLOG = 0"
definition DEFAULT_SYSLOG_FACILITY :: int where [simp]: "DEFAULT_SYSLOG_FACILITY = 24"
definition DEFAULT_WDCTL_SOCK :: string where [simp]: "DEFAULT_WDCTL_SOCK = ''/tmp/wdctl.sock''"
definition DEFAULT_INTERNAL_SOCK :: string where [simp]: "DEFAULT_INTERNAL_SOCK = ''/tmp/wifidog.sock''"
definition DEFAULT_AUTHSERVPORT :: int where [simp]: "DEFAULT_AUTHSERVPORT = 80"
definition DEFAULT_AUTHSERVSSLPORT :: int where [simp]: "DEFAULT_AUTHSERVSSLPORT = 443"
definition DEFAULT_AUTHSERVSSLAVAILABLE :: int where [simp]: "DEFAULT_AUTHSERVSSLAVAILABLE = 0"
definition DEFAULT_AUTHSERVPATH :: string where [simp]: "DEFAULT_AUTHSERVPATH = ''/wifidog/''"
definition DEFAULT_AUTHSERVLOGINPATHFRAGMENT :: string where [simp]: "DEFAULT_AUTHSERVLOGINPATHFRAGMENT = ''login/?''"
definition DEFAULT_AUTHSERVPORTALPATHFRAGMENT :: string where [simp]: "DEFAULT_AUTHSERVPORTALPATHFRAGMENT = ''portal/?''"
definition DEFAULT_AUTHSERVMSGPATHFRAGMENT :: string where [simp]: "DEFAULT_AUTHSERVMSGPATHFRAGMENT = ''gw_message.php?''"
definition DEFAULT_AUTHSERVPINGPATHFRAGMENT :: string where [simp]: "DEFAULT_AUTHSERVPINGPATHFRAGMENT = ''ping/?''"
definition DEFAULT_AUTHSERVAUTHPATHFRAGMENT :: string where [simp]: "DEFAULT_AUTHSERVAUTHPATHFRAGMENT = ''auth/?''"
definition DEFAULT_AUTHSERVSSLCERTPATH :: string where [simp]: "DEFAULT_AUTHSERVSSLCERTPATH = ''/etc/ssl/certs/''"
definition DEFAULT_AUTHSERVSSLPEERVER :: int where [simp]: "DEFAULT_AUTHSERVSSLPEERVER = 1"
definition DEFAULT_DELTATRAFFIC :: int where [simp]: "DEFAULT_DELTATRAFFIC = 0"
definition DEFAULT_ARPTABLE :: string where [simp]: "DEFAULT_ARPTABLE = ''/proc/net/arp''"
definition DEFAULT_AUTHSERVSSLSNI :: int where [simp]: "DEFAULT_AUTHSERVSSLSNI = 0"

text \<open>The names of the rule sets that the firewall knows.\<close>

definition FWRULESET_GLOBAL :: string where [simp]: "FWRULESET_GLOBAL = ''global''"
definition FWRULESET_VALIDATING_USERS :: string where [simp]: "FWRULESET_VALIDATING_USERS = ''validating-users''"
definition FWRULESET_KNOWN_USERS :: string where [simp]: "FWRULESET_KNOWN_USERS = ''known-users''"
definition FWRULESET_AUTH_IS_DOWN :: string where [simp]: "FWRULESET_AUTH_IS_DOWN = ''auth-is-down''"
definition FWRULESET_UNKNOWN_USERS :: string where [simp]: "FWRULESET_UNKNOWN_USERS = ''unknown-users''"
definition FWRULESET_LOCKED_USERS :: string where [simp]: "FWRULESET_LOCKED_USERS = ''locked-users''"

definition config_init :: s_config where
  "config_init = \<lparr>configfile = DEFAULT_CONFIGFILE, htmlmsgfile = DEFAULT_HTMLMSGFILE,
     wdctl_sock = DEFAULT_WDCTL_SOCK, internal_sock = DEFAULT_INTERNAL_SOCK, deltatraffic = DEFAULT_DELTATRAFFIC,
     daemon = -1, pidfile = None, external_interface = None, gw_id = DEFAULT_GATEWAYID, gw_interface = None,
     gw_address = None, gw_port = DEFAULT_GATEWAYPORT, auth_servers = [], httpdname = None, httpdmaxconn = DEFAULT_HTTPDMAXCONN,
     httpdrealm = DEFAULT_HTTPDNAME, httpdusername = None, httpdpassword = None, clienttimeout = DEFAULT_CLIENTTIMEOUT,
     checkinterval = DEFAULT_CHECKINTERVAL, proxy_port = 0, ssl_certs = DEFAULT_AUTHSERVSSLCERTPATH,
     ssl_verify = DEFAULT_AUTHSERVSSLPEERVER, ssl_cipher_list = None, ssl_use_sni = DEFAULT_AUTHSERVSSLSNI, rulesets = [],
     trustedmaclist = [], arp_table_path = DEFAULT_ARPTABLE, popular_servers = [],
     debugconf = \<lparr>log_stderr = 1, debuglevel = DEFAULT_DEBUGLEVEL, syslog_facility = DEFAULT_SYSLOG_FACILITY,
       log_syslog = DEFAULT_LOG_SYSLOG\<rparr>\<rparr>"

definition config_init_override :: "s_config \<Rightarrow> s_config" where
  "config_init_override c =
     (if daemon c = -1
      then c\<lparr>daemon := DEFAULT_DAEMON, debugconf := (debugconf c)\<lparr>log_stderr := 0\<rparr>\<rparr> else c)"

section \<open>Words and lines\<close>

definition config_parse_token :: "string \<Rightarrow> OpCodes" where
  "config_parse_token cp =
     (case List.find (\<lambda>(name, opcode). strcasecmp_eq cp name) conf_keywords of
        Some (name, opcode) \<Rightarrow> opcode | None \<Rightarrow> oBadOption)"

definition parse_boolean_value :: "string \<Rightarrow> int" where
  "parse_boolean_value line =
     (if strcasecmp_eq line ''yes'' then 1
      else if strcasecmp_eq line ''no'' then 0
      else if line = ''1'' then 1
      else if line = ''0'' then 0 else -1)"

text \<open>\<open>fgets (line, n, file)\<close>: at most \<open>n - 1\<close> characters, up to and with a newline.\<close>

definition fgets :: "nat \<Rightarrow> string \<Rightarrow> (string \<times> string) option" where
  "fgets n file =
     (if file = [] \<or> n \<le> 1 then None
      else (let l = takeWhile (\<lambda>c. c \<noteq> NL) file; k = min (n - 1) (min (length l + 1) (length file))
            in Some (take k file, drop k file)))"

text \<open>
  A line of a block, as both block parsers treat it: leading blanks are skipped, the line is
  ended at the first of a hash, a carriage return or a newline, blanks before that end are
  removed where \<open>trim\<close> is set, and the first word is cut off. The value is what follows
  the byte behind the first word, which is the text behind the end of the line when there
  is no value. The buffer ends with NULs, since it was cleared.
\<close>

definition line_end :: "string \<Rightarrow> nat option" where
  "line_end p1 =
     (if CHR ''#'' \<in> set p1 then Some (length (takeWhile (\<lambda>c. c \<noteq> CHR ''#'') p1))
      else if CR \<in> set p1 then Some (length (takeWhile (\<lambda>c. c \<noteq> CR) p1))
      else if NL \<in> set p1 then Some (length (takeWhile (\<lambda>c. c \<noteq> NL) p1))
      else None)"

fun trim_from :: "nat \<Rightarrow> char list \<Rightarrow> char list" where
  "trim_from 0 b = b"
| "trim_from (Suc i) b = (if isblank (b ! Suc i) then trim_from i (b[Suc i := NUL]) else b)"

definition cut_line :: "bool \<Rightarrow> string \<Rightarrow> char list" where
  "cut_line trim line =
     (let p1 = dropWhile isblank (cstr line); b = p1 @ [NUL]
      in case line_end p1 of
           None \<Rightarrow> b
         | Some k \<Rightarrow> (let b1 = b[k := NUL] in if trim \<and> 0 < k then trim_from (k - 1) b1 else b1))"

definition first_word :: "char list \<Rightarrow> string \<times> string" where
  "first_word b =
     (let w = takeWhile (\<lambda>c. c \<noteq> NUL \<and> \<not> isblank c) b
      in (w, cstr (dropWhile isblank (drop (length w + 1) b))))"

section \<open>Authentication servers\<close>

record auth_block =
  b_host :: "string option"
  b_path :: string
  b_login :: string
  b_portal :: string
  b_msg :: string
  b_ping :: string
  b_auth :: string
  b_http_port :: int
  b_ssl_port :: int
  b_ssl_available :: int

definition auth_block_defaults :: auth_block where
  "auth_block_defaults = \<lparr>b_host = None, b_path = DEFAULT_AUTHSERVPATH, b_login = DEFAULT_AUTHSERVLOGINPATHFRAGMENT,
     b_portal = DEFAULT_AUTHSERVPORTALPATHFRAGMENT, b_msg = DEFAULT_AUTHSERVMSGPATHFRAGMENT,
     b_ping = DEFAULT_AUTHSERVPINGPATHFRAGMENT, b_auth = DEFAULT_AUTHSERVAUTHPATHFRAGMENT,
     b_http_port = DEFAULT_AUTHSERVPORT, b_ssl_port = DEFAULT_AUTHSERVSSLPORT, b_ssl_available = DEFAULT_AUTHSERVSSLAVAILABLE\<rparr>"

definition auth_option :: "OpCodes \<Rightarrow> string \<Rightarrow> auth_block \<Rightarrow> conf_error + auth_block" where
  "auth_option opcode p2 b =
     (case opcode of
        oAuthServHostname \<Rightarrow> Inr (b\<lparr>b_host := Some p2\<rparr>)
      | oAuthServPath \<Rightarrow> Inr (b\<lparr>b_path := p2\<rparr>)
      | oAuthServLoginScriptPathFragment \<Rightarrow> Inr (b\<lparr>b_login := p2\<rparr>)
      | oAuthServPortalScriptPathFragment \<Rightarrow> Inr (b\<lparr>b_portal := p2\<rparr>)
      | oAuthServMsgScriptPathFragment \<Rightarrow> Inr (b\<lparr>b_msg := p2\<rparr>)
      | oAuthServPingScriptPathFragment \<Rightarrow> Inr (b\<lparr>b_ping := p2\<rparr>)
      | oAuthServAuthScriptPathFragment \<Rightarrow> Inr (b\<lparr>b_auth := p2\<rparr>)
      | oAuthServSSLPort \<Rightarrow> Inr (b\<lparr>b_ssl_port := atoi p2\<rparr>)
      | oAuthServHTTPPort \<Rightarrow> Inr (b\<lparr>b_http_port := atoi p2\<rparr>)
      | oAuthServSSLAvailable \<Rightarrow>
          (if parse_boolean_value p2 < 0 then Inl (Conf_Exit (-1))
           else Inr (b\<lparr>b_ssl_available := parse_boolean_value p2\<rparr>))
      | _ \<Rightarrow> Inl (Conf_Exit (-1)))"

text \<open>\<open>MAX_BUF - 1\<close> is what the block parsers pass to \<open>fgets\<close>. The lines up to one with a
  closing brace, and what is left of the file.\<close>

lemma fgets_shrinks: "fgets n f = Some (line, rest) \<Longrightarrow> length rest < length f"
  by (cases f) (auto simp: fgets_def Let_def min_def split: if_splits)

function parse_auth_lines :: "string \<Rightarrow> auth_block \<Rightarrow> conf_error + (auth_block \<times> string)" where
  "parse_auth_lines file b =
     (case fgets (MAX_BUF - 1) file of
        None \<Rightarrow> Inr (b, file)
      | Some (line, rest) \<Rightarrow>
          if CHR ''}'' \<in> set (cstr line) then Inr (b, rest)
          else (let buf = cut_line True line
                in if cstr buf = [] then parse_auth_lines rest b
                   else (let (p1, p2) = first_word buf
                         in case auth_option (config_parse_token p1) p2 b of
                              Inl e \<Rightarrow> Inl e
                            | Inr b1 \<Rightarrow> parse_auth_lines rest b1)))"
  by pat_completeness auto
termination
  by (relation "measure (\<lambda>(file, b). length file)") (auto dest: fgets_shrinks)

declare parse_auth_lines.simps [simp del]

definition new_auth_server :: "nat \<Rightarrow> string \<Rightarrow> auth_block \<Rightarrow> t_auth_serv" where
  "new_auth_server p host b = \<lparr>as_ptr = p, authserv_hostname = host, authserv_path = b_path b,
     authserv_login_script_path_fragment = b_login b, authserv_portal_script_path_fragment = b_portal b,
     authserv_msg_script_path_fragment = b_msg b, authserv_ping_script_path_fragment = b_ping b,
     authserv_auth_script_path_fragment = b_auth b, authserv_http_port = b_http_port b,
     authserv_ssl_port = b_ssl_port b, authserv_use_ssl = b_ssl_available b, last_ip = None\<rparr>"

definition parse_auth_server :: "string \<Rightarrow> s_config \<Rightarrow> conf_error + (s_config \<times> string)" where
  "parse_auth_server file c =
     (case parse_auth_lines file auth_block_defaults of
        Inl e \<Rightarrow> Inl e
      | Inr (b, rest) \<Rightarrow>
          (case b_host b of
             None \<Rightarrow> Inr (c, rest)
           | Some host \<Rightarrow>
               Inr (c\<lparr>auth_servers := auth_servers c @ [new_auth_server (length (auth_servers c)) host b]\<rparr>, rest)))"

section \<open>Firewall rules\<close>

text \<open>
  \<open>TO_NEXT_WORD\<close>: the word that it ends with a NUL, the new position, and whether the end of
  the string was reached.
\<close>

definition TO_NEXT_WORD :: "string \<Rightarrow> string \<times> string \<times> bool" where
  "TO_NEXT_WORD s =
     (let w = takeWhile (\<lambda>c. \<not> isblank c) s
      in case drop (length w) s of
           [] \<Rightarrow> (w, [], True)
         | _ # r \<Rightarrow> (w, dropWhile isblank r, False))"

definition rule_target :: "string \<Rightarrow> bool \<Rightarrow> t_firewall_target option" where
  "rule_target token finished =
     (if strcasecmp_eq token ''block'' \<or> finished then Some TARGET_REJECT
      else if strcasecmp_eq token ''drop'' then Some TARGET_DROP
      else if strcasecmp_eq token ''allow'' then Some TARGET_ACCEPT
      else if strcasecmp_eq token ''log'' then Some TARGET_LOG
      else if strcasecmp_eq token ''ulog'' then Some TARGET_ULOG
      else None)"

text \<open>
  The rule that a line denotes, or the negative return value: first the target, then the
  protocol, the port, and the destination.
\<close>

definition read_dest ::
  "t_firewall_target \<Rightarrow> string option \<Rightarrow> string option \<Rightarrow> string \<Rightarrow> bool \<Rightarrow> t_firewall_rule" where
  "read_dest target protocol port leftover finished =
     (let (other_kw, next1, e1) = TO_NEXT_WORD leftover;
          (mask, next2, e2) = TO_NEXT_WORD next1;
          has_mask = (\<not> finished \<and> \<not> e1)
      in \<lparr>fr_target = target, fr_protocol = protocol, fr_port = port,
          fr_mask = (if has_mask then mask else ''0.0.0.0/0''),
          fr_mask_is_ipset = (has_mask \<and> strncmp_eq 8 other_kw ''to-ipset'')\<rparr>)"

definition read_port ::
  "t_firewall_target \<Rightarrow> string option \<Rightarrow> string \<Rightarrow> bool \<Rightarrow> int + t_firewall_rule" where
  "read_port target protocol leftover finished =
     (if strncmp_eq 4 leftover ''port'' then
        (let (kw, next1, e1) = TO_NEXT_WORD leftover;
             (port, next2, e2) = TO_NEXT_WORD next1
         in if \<not> list_all (\<lambda>c. isdigit c \<or> c = CHR '':'') port then Inl (-3)
            else Inr (read_dest target protocol (Some port) next2 (finished \<or> e1 \<or> e2)))
      else Inr (read_dest target protocol None leftover finished))"

definition is_protocol :: "string \<Rightarrow> bool" where
  "is_protocol s \<longleftrightarrow> strncmp_eq 3 s ''tcp'' \<or> strncmp_eq 3 s ''udp'' \<or> strncmp_eq 4 s ''icmp''"

definition read_rule :: "string \<Rightarrow> int + t_firewall_rule" where
  "read_rule line =
     (let (token, leftover, finished) = TO_NEXT_WORD (map tolower line)
      in case rule_target token finished of
           None \<Rightarrow> Inl (-1)
         | Some target \<Rightarrow>
             if is_protocol leftover
             then (let (protocol, next1, e) = TO_NEXT_WORD leftover
                   in read_port target (Some protocol) next1 (finished \<or> e))
             else read_port target None leftover finished)"

fun append_rule :: "string \<Rightarrow> t_firewall_rule \<Rightarrow> t_firewall_ruleset list \<Rightarrow> t_firewall_ruleset list" where
  "append_rule ruleset r [] = [\<lparr>rs_name = ruleset, rs_rules = [r]\<rparr>]"
| "append_rule ruleset r (s # ss) =
     (if rs_name s = ruleset then s\<lparr>rs_rules := rs_rules s @ [r]\<rparr> # ss else s # append_rule ruleset r ss)"

definition parse_firewall_rule :: "string \<Rightarrow> string \<Rightarrow> s_config \<Rightarrow> int \<times> s_config" where
  "parse_firewall_rule ruleset leftover c =
     (case read_rule leftover of
        Inl rc \<Rightarrow> (rc, c)
      | Inr r \<Rightarrow> (1, c\<lparr>rulesets := append_rule ruleset r (rulesets c)\<rparr>))"

definition get_ruleset :: "string \<Rightarrow> s_config \<Rightarrow> t_firewall_rule list" where
  "get_ruleset ruleset c =
     (case List.find (\<lambda>s. rs_name s = ruleset) (rulesets c) of None \<Rightarrow> [] | Some s \<Rightarrow> rs_rules s)"

function parse_firewall_ruleset :: "string \<Rightarrow> string \<Rightarrow> s_config \<Rightarrow> conf_error + (s_config \<times> string)" where
  "parse_firewall_ruleset ruleset file c =
     (case fgets (MAX_BUF - 1) file of
        None \<Rightarrow> Inr (c, file)
      | Some (line, rest) \<Rightarrow>
          if CHR ''}'' \<in> set (cstr line) then Inr (c, rest)
          else (let buf = cut_line False line
                in if cstr buf = [] then parse_firewall_ruleset ruleset rest c
                   else (let (p1, p2) = first_word buf
                         in if config_parse_token p1 = oFirewallRule
                            then parse_firewall_ruleset ruleset rest (snd (parse_firewall_rule ruleset p2 c))
                            else Inl (Conf_Exit (-1)))))"
  by pat_completeness auto
termination
  by (relation "measure (\<lambda>(ruleset, file, c). length file)") (auto dest: fgets_shrinks)

declare parse_firewall_ruleset.simps [simp del]

section \<open>Trusted MAC addresses and popular servers\<close>

text \<open>
  \<open>sscanf\<close> with six groups of one or two hexadecimal digits, separated by colons: the
  number of conversions is 6 when the groups are there, whatever follows.
\<close>

fun scan_mac_groups :: "nat \<Rightarrow> string \<Rightarrow> bool" where
  "scan_mac_groups 0 s = True"
| "scan_mac_groups (Suc n) s =
     (let g = takeWhile isxdigit (take 2 s); r = drop (length g) s
      in g \<noteq> [] \<and> (n = 0 \<or> (case r of [] \<Rightarrow> False | c # r' \<Rightarrow> c = CHR '':'' \<and> scan_mac_groups n r')))"

definition check_mac_format :: "string \<Rightarrow> bool" where
  "check_mac_format possiblemac = scan_mac_groups 6 possiblemac"

text \<open>\<open>sscanf (possiblemac, " %17[A-Fa-f0-9:]", mac)\<close>.\<close>

definition scan_mac :: "string \<Rightarrow> string option" where
  "scan_mac s =
     (let m = takeWhile (\<lambda>c. isxdigit c \<or> c = CHR '':'') (take 17 (dropWhile isspace s))
      in if m = [] then None else Some m)"

text \<open>The duplicate check looks at the first entry and at every entry but the last.\<close>

definition add_trusted_mac :: "string \<Rightarrow> string list \<Rightarrow> string list" where
  "add_trusted_mac mac l =
     (if l = [] then [mac]
      else if hd l = mac \<or> mac \<in> set (butlast l) then l else l @ [mac])"

text \<open>
  The tokens between commas. On an invalid one the function frees the pointer that \<open>strsep\<close>
  has moved into the middle of the copy, unless it was the last token (then the pointer is NULL).
\<close>

fun parse_trusted_tokens :: "string list \<Rightarrow> string list \<Rightarrow> conf_error + string list" where
  "parse_trusted_tokens [] l = Inr l"
| "parse_trusted_tokens (t # ts) l =
     (if \<not> check_mac_format t then (if ts = [] then Inr l else Inl Memory_Error)
      else (case scan_mac t of
              None \<Rightarrow> parse_trusted_tokens ts l
            | Some mac \<Rightarrow> parse_trusted_tokens ts (add_trusted_mac mac l)))"

definition parse_trusted_mac_list :: "string \<Rightarrow> s_config \<Rightarrow> conf_error + s_config" where
  "parse_trusted_mac_list ptr c =
     (case parse_trusted_tokens (strsep_all ptr (CHR '','')) (trustedmaclist c) of
        Inl e \<Rightarrow> Inl e
      | Inr l \<Rightarrow> Inr (c\<lparr>trustedmaclist := l\<rparr>))"

definition add_popular_server :: "string \<Rightarrow> s_config \<Rightarrow> s_config" where
  "add_popular_server server c = c\<lparr>popular_servers := server # popular_servers c\<rparr>"

definition parse_popular_servers :: "string \<Rightarrow> s_config \<Rightarrow> s_config" where
  "parse_popular_servers ptr c =
     fold (\<lambda>t c. let h = takeWhile (\<lambda>ch. \<not> isblank ch) (dropWhile isblank t)
                 in if h = [] then c else add_popular_server h c)
       (strsep_all ptr (CHR '','')) c"

section \<open>Reading the file\<close>

text \<open>
  A line of the top level: the keyword, and the argument if there is one, with the raw
  argument that keeps its blanks.
\<close>

definition split_config_line :: "string \<Rightarrow> string \<times> (string \<times> string) option" where
  "split_config_line line =
     (let s0 = cstr line;
          s = (if s0 \<noteq> [] \<and> last s0 = NL then butlast s0 else s0);
          sep = (if CHR '' '' \<in> set s then CHR '' '' else TAB)
      in if sep \<in> set s then
           (let word = takeWhile (\<lambda>c. c \<noteq> sep) s;
                raw = dropWhile (\<lambda>c. c = CHR '' '') (drop (length word + 1) s);
                p1 = (if CHR '' '' \<in> set raw then takeWhile (\<lambda>c. c \<noteq> CHR '' '') raw
                      else case strstr raw [CR, NL] of
                             Some t \<Rightarrow> take (length raw - length t) raw
                           | None \<Rightarrow> takeWhile (\<lambda>c. c \<noteq> NL) raw)
            in (word, Some (p1, raw)))
         else (s, None))"

text \<open>\<open>sscanf (p1, "%d", &x)\<close> leaves \<open>x\<close> alone when there is no number.\<close>

definition scan_int :: "string \<Rightarrow> int \<Rightarrow> int" where
  "scan_int s old = (case sscanf_d s of None \<Rightarrow> old | Some i \<Rightarrow> i)"

definition config_option :: "OpCodes \<Rightarrow> string \<Rightarrow> string \<Rightarrow> string \<Rightarrow> s_config \<Rightarrow> conf_error + (s_config \<times> string)" where
  "config_option opcode p1 rawarg file c =
     (case opcode of
        oDeltaTraffic \<Rightarrow> Inr (c\<lparr>deltatraffic := parse_boolean_value p1\<rparr>, file)
      | oDaemon \<Rightarrow>
          (let v = parse_boolean_value p1
           in if daemon c = -1 \<and> v \<noteq> -1
              then Inr (c\<lparr>daemon := v, debugconf := (debugconf c)\<lparr>log_stderr := (if v > 0 then 0 else 1)\<rparr>\<rparr>, file)
              else Inr (c, file))
      | oExternalInterface \<Rightarrow> Inr (c\<lparr>external_interface := Some p1\<rparr>, file)
      | oGatewayID \<Rightarrow> Inr (c\<lparr>gw_id := Some p1\<rparr>, file)
      | oGatewayInterface \<Rightarrow> Inr (c\<lparr>gw_interface := Some p1\<rparr>, file)
      | oGatewayAddress \<Rightarrow> Inr (c\<lparr>gw_address := Some p1\<rparr>, file)
      | oGatewayPort \<Rightarrow> Inr (c\<lparr>gw_port := scan_int p1 (gw_port c)\<rparr>, file)
      | oAuthServer \<Rightarrow> parse_auth_server file c
      | oFirewallRuleSet \<Rightarrow> parse_firewall_ruleset p1 file c
      | oTrustedMACList \<Rightarrow>
          (case parse_trusted_mac_list p1 c of Inl e \<Rightarrow> Inl e | Inr c1 \<Rightarrow> Inr (c1, file))
      | oPopularServers \<Rightarrow> Inr (parse_popular_servers rawarg c, file)
      | oHTTPDName \<Rightarrow> Inr (c\<lparr>httpdname := Some p1\<rparr>, file)
      | oHTTPDMaxConn \<Rightarrow> Inr (c\<lparr>httpdmaxconn := scan_int p1 (httpdmaxconn c)\<rparr>, file)
      | oHTTPDRealm \<Rightarrow> Inr (c\<lparr>httpdrealm := p1\<rparr>, file)
      | oHTTPDUsername \<Rightarrow> Inr (c\<lparr>httpdusername := Some p1\<rparr>, file)
      | oHTTPDPassword \<Rightarrow> Inr (c\<lparr>httpdpassword := Some p1\<rparr>, file)
      | oCheckInterval \<Rightarrow> Inr (c\<lparr>checkinterval := scan_int p1 (checkinterval c)\<rparr>, file)
      | oWdctlSocket \<Rightarrow> Inr (c\<lparr>wdctl_sock := p1\<rparr>, file)
      | oClientTimeout \<Rightarrow> Inr (c\<lparr>clienttimeout := scan_int p1 (clienttimeout c)\<rparr>, file)
      | oSyslogFacility \<Rightarrow>
          Inr (c\<lparr>debugconf := (debugconf c)\<lparr>syslog_facility := scan_int p1 (syslog_facility (debugconf c))\<rparr>\<rparr>, file)
      | oHtmlMessageFile \<Rightarrow> Inr (c\<lparr>htmlmsgfile := p1\<rparr>, file)
      | oProxyPort \<Rightarrow> Inr (c\<lparr>proxy_port := scan_int p1 (proxy_port c)\<rparr>, file)
      | oSSLCertPath \<Rightarrow> Inr (c\<lparr>ssl_certs := p1\<rparr>, file)
      | oSSLPeerVerification \<Rightarrow>
          (if parse_boolean_value p1 < 0 then Inl (Conf_Exit (-1))
           else Inr (c\<lparr>ssl_verify := parse_boolean_value p1\<rparr>, file))
      | oSSLAllowedCipherList \<Rightarrow> Inr (c\<lparr>ssl_cipher_list := Some p1\<rparr>, file)
      | oSSLUseSNI \<Rightarrow>
          (if parse_boolean_value p1 < 0 then Inl (Conf_Exit (-1))
           else Inr (c\<lparr>ssl_use_sni := parse_boolean_value p1\<rparr>, file))
      | _ \<Rightarrow> Inl (Conf_Exit (-1)))"

lemma parse_auth_lines_step:
  "fgets (MAX_BUF - 1) f = Some (line, r) \<Longrightarrow> parse_auth_lines f b =
     (if CHR ''}'' \<in> set (cstr line) then Inr (b, r)
      else if cstr (cut_line True line) = [] then parse_auth_lines r b
      else case auth_option (config_parse_token (fst (first_word (cut_line True line))))
                  (snd (first_word (cut_line True line))) b of
             Inl e \<Rightarrow> Inl e | Inr b1 \<Rightarrow> parse_auth_lines r b1)"
  by (subst parse_auth_lines.simps) (auto simp: Let_def case_prod_unfold split: sum.split)

lemma parse_auth_lines_end: "fgets (MAX_BUF - 1) f = None \<Longrightarrow> parse_auth_lines f b = Inr (b, f)"
  by (subst parse_auth_lines.simps) simp

lemma parse_ruleset_step:
  "fgets (MAX_BUF - 1) f = Some (line, r) \<Longrightarrow> parse_firewall_ruleset n f c =
     (if CHR ''}'' \<in> set (cstr line) then Inr (c, r)
      else if cstr (cut_line False line) = [] then parse_firewall_ruleset n r c
      else if config_parse_token (fst (first_word (cut_line False line))) = oFirewallRule
      then parse_firewall_ruleset n r (snd (parse_firewall_rule n (snd (first_word (cut_line False line))) c))
      else Inl (Conf_Exit (-1)))"
  by (subst parse_firewall_ruleset.simps) (simp add: Let_def case_prod_unfold)

lemma parse_ruleset_end: "fgets (MAX_BUF - 1) f = None \<Longrightarrow> parse_firewall_ruleset n f c = Inr (c, f)"
  by (subst parse_firewall_ruleset.simps) simp

text \<open>Both parsers leave a shorter file, by induction on its length.\<close>

lemma auth_lines_shrink: "parse_auth_lines f b = Inr (b', rest) \<Longrightarrow> length rest \<le> length f"
proof (induction "length f" arbitrary: f b rule: less_induct)
  case less
  show ?case
  proof (cases "fgets (MAX_BUF - 1) f")
    case None
    with less.prems show ?thesis by (simp add: parse_auth_lines_end)
  next
    case (Some a)
    then obtain line r where r: "fgets (MAX_BUF - 1) f = Some (line, r)" by (cases a) auto
    with less.hyps [OF fgets_shrinks [OF r]] less.prems fgets_shrinks [OF r] show ?thesis
      by (fastforce simp: parse_auth_lines_step [OF r] split: if_splits sum.splits)
  qed
qed

lemma ruleset_shrink: "parse_firewall_ruleset n f c = Inr (c', rest) \<Longrightarrow> length rest \<le> length f"
proof (induction "length f" arbitrary: f c rule: less_induct)
  case less
  show ?case
  proof (cases "fgets (MAX_BUF - 1) f")
    case None
    with less.prems show ?thesis by (simp add: parse_ruleset_end)
  next
    case (Some a)
    then obtain line r where r: "fgets (MAX_BUF - 1) f = Some (line, r)" by (cases a) auto
    with less.hyps [OF fgets_shrinks [OF r]] less.prems fgets_shrinks [OF r] show ?thesis
      by (fastforce simp: parse_ruleset_step [OF r] split: if_splits)
  qed
qed

lemma config_option_shrink:
  assumes "config_option opcode p1 raw f c = Inr (c', rest)"
  shows "length rest \<le> length f"
proof -
  have "parse_auth_server f c = Inr (c', rest) \<Longrightarrow> length rest \<le> length f"
    by (auto simp: parse_auth_server_def split: sum.splits option.splits dest: auth_lines_shrink)
  with assms show ?thesis
    by (cases opcode)
       (auto simp: config_option_def Let_def split: if_splits sum.splits dest: ruleset_shrink)
qed

function config_read_loop :: "string \<Rightarrow> s_config \<Rightarrow> conf_error + s_config" where
  "config_read_loop file c =
     (case fgets MAX_BUF file of
        None \<Rightarrow> Inr c
      | Some (line, rest) \<Rightarrow>
          (case split_config_line line of
             (s, Some (p1, rawarg)) \<Rightarrow>
               if p1 \<noteq> [] \<and> \<not> strncmp_eq 1 s ''#'' then
                 (case config_option (config_parse_token s) p1 rawarg rest c of
                    Inl e \<Rightarrow> Inl e
                  | Inr (c1, rest1) \<Rightarrow> config_read_loop rest1 c1)
               else config_read_loop rest c
           | (s, None) \<Rightarrow> config_read_loop rest c))"
  by pat_completeness auto
termination
  by (relation "measure (\<lambda>(file, c). length file)")
     (auto dest: fgets_shrinks config_option_shrink intro: le_less_trans)

declare config_read_loop.simps [simp del]

text \<open>The file is \<^term>\<open>None\<close> when it cannot be opened.\<close>

definition config_read :: "string option \<Rightarrow> s_config \<Rightarrow> conf_error + s_config" where
  "config_read file c =
     (case file of
        None \<Rightarrow> Inl (Conf_Exit 1)
      | Some f \<Rightarrow>
          (case config_read_loop f c of
             Inl e \<Rightarrow> Inl e
           | Inr c1 \<Rightarrow>
               if httpdusername c1 \<noteq> None \<and> httpdpassword c1 = None then Inl (Conf_Exit (-1)) else Inr c1))"

section \<open>Validation and the current server\<close>

definition validate_popular_servers :: "s_config \<Rightarrow> s_config" where
  "validate_popular_servers c =
     (if popular_servers c = []
      then add_popular_server ''www.yahoo.com'' (add_popular_server ''www.google.com'' c) else c)"

text \<open>\<open>missing_parms\<close> is the static flag that \<open>config_notnull\<close> sets.\<close>

definition config_notnull :: "bool \<Rightarrow> bool \<Rightarrow> bool" where
  "config_notnull isnull missing_parms = (if isnull then True else missing_parms)"

definition config_validate :: "bool \<Rightarrow> s_config \<Rightarrow> conf_error + s_config" where
  "config_validate missing_parms c =
     (let m = config_notnull (auth_servers c = []) (config_notnull (gw_interface c = None) missing_parms);
          c1 = validate_popular_servers c
      in if m then Inl (Conf_Exit (-1)) else Inr c1)"

definition get_auth_server :: "s_config \<Rightarrow> t_auth_serv option" where
  "get_auth_server c = (case auth_servers c of [] \<Rightarrow> None | a # _ \<Rightarrow> Some a)"

definition mark_auth_server_bad :: "nat \<Rightarrow> s_config \<Rightarrow> s_config" where
  "mark_auth_server_bad bad c =
     (case auth_servers c of
        a # b # rest \<Rightarrow> if as_ptr a = bad then c\<lparr>auth_servers := (b # rest) @ [a]\<rparr> else c
      | _ \<Rightarrow> c)"

end
