(* ===== verification/Conf_Props.thy ===== *)
theory Conf_Props
  imports Conf "HOL-Library.Multiset"
begin

text \<open>
  Properties of the configuration: firewall rules are read back as they are written, a
  ruleset keeps the order of its rules, the list of authentication servers is only ever
  rotated, and what the parsers do with malformed input.
\<close>

section \<open>Firewall rules\<close>

fun target_word :: "t_firewall_target \<Rightarrow> string" where
  "target_word TARGET_REJECT = ''block''"
| "target_word TARGET_DROP = ''drop''"
| "target_word TARGET_ACCEPT = ''allow''"
| "target_word TARGET_LOG = ''log''"
| "target_word TARGET_ULOG = ''ulog''"

definition print_rule :: "t_firewall_rule \<Rightarrow> string" where
  "print_rule r = target_word (fr_target r) @
     (case fr_protocol r of None \<Rightarrow> [] | Some p \<Rightarrow> '' '' @ p) @
     (case fr_port r of None \<Rightarrow> [] | Some p \<Rightarrow> '' port '' @ p) @
     (if fr_mask_is_ipset r then '' to-ipset '' else '' to '') @ fr_mask r"

text \<open>A word of the rule language: not empty, no blanks, no capital letters.\<close>

definition word :: "string \<Rightarrow> bool" where
  "word w \<longleftrightarrow> w \<noteq> [] \<and> list_all (\<lambda>c. \<not> isblank c \<and> tolower c = c) w"

definition wf_rule :: "t_firewall_rule \<Rightarrow> bool" where
  "wf_rule r \<longleftrightarrow> (\<forall>p. fr_protocol r = Some p \<longrightarrow> word p \<and> is_protocol p) \<and>
     (\<forall>p. fr_port r = Some p \<longrightarrow> word p \<and> list_all (\<lambda>c. isdigit c \<or> c = CHR '':'') p) \<and> word (fr_mask r)"

lemma word_lower: "word w \<Longrightarrow> map tolower w = w"
  by (auto simp: word_def list_all_iff intro: map_idI)

lemma next_word_blank:
  assumes "word w" and "s = [] \<or> \<not> isblank (hd s)"
  shows "TO_NEXT_WORD (w @ CHR '' '' # s) = (w, s, False)"
proof -
  have "takeWhile (\<lambda>c. \<not> isblank c) (w @ CHR '' '' # s) = w"
    using assms(1) by (subst takeWhile_append2) (auto simp: word_def list_all_iff isblank_def)
  moreover have "dropWhile isblank s = s"
    using assms(2) by (cases s) auto
  ultimately show ?thesis
    by (simp add: TO_NEXT_WORD_def)
qed

lemma next_word_end: "word w \<Longrightarrow> TO_NEXT_WORD w = (w, [], True)"
proof -
  assume "word w"
  then have w: "takeWhile (\<lambda>c. \<not> isblank c) w = w"
    by (auto simp: word_def list_all_iff takeWhile_eq_all_conv)
  show ?thesis unfolding TO_NEXT_WORD_def w by simp
qed

lemma word_hd: "word w \<Longrightarrow> \<not> isblank (hd (w @ s))"
  by (cases w) (auto simp: word_def)

lemma word_target: "word (target_word t)" "word ''port''" "word ''to''" "word ''to-ipset''"
  by (cases t) (auto simp: word_def char_class_defs)

lemma target_of_word: "rule_target (target_word t) False = Some t"
  by (cases t) (auto simp: rule_target_def strcasecmp_eq_def char_class_defs)

text \<open>What follows the target: a sequence of words, each after one blank.\<close>

definition sentence :: "string list \<Rightarrow> string" where
  "sentence ws = concat (map (\<lambda>w. CHR '' '' # w) ws)"

lemma next_word_sentence:
  assumes "word w" and "list_all word ws"
  shows "TO_NEXT_WORD (w @ sentence ws) = (w, tl (sentence ws), ws = [])"
proof (cases ws)
  case Nil
  with assms(1) show ?thesis by (simp add: sentence_def next_word_end)
next
  case (Cons v vs)
  with assms show ?thesis
    using next_word_blank [of w "v @ sentence vs"] word_hd [of v "sentence vs"]
    by (simp add: sentence_def)
qed

lemma tl_sentence: "tl (sentence (w # ws)) = w @ sentence ws"
  by (simp add: sentence_def)

definition rule_words :: "t_firewall_rule \<Rightarrow> string list" where
  "rule_words r = (case fr_protocol r of None \<Rightarrow> [] | Some p \<Rightarrow> [p]) @
     (case fr_port r of None \<Rightarrow> [] | Some p \<Rightarrow> [''port'', p]) @
     [if fr_mask_is_ipset r then ''to-ipset'' else ''to'', fr_mask r]"

lemma print_rule_words: "print_rule r = target_word (fr_target r) @ sentence (rule_words r)"
  by (simp add: print_rule_def sentence_def rule_words_def split: option.splits)

lemma wf_rule_words: "wf_rule r \<Longrightarrow> list_all word (rule_words r)"
  using word_target by (auto simp: wf_rule_def rule_words_def split: option.splits)

lemma strncmp_eq_append: "strncmp_eq n w v \<Longrightarrow> length v = n \<Longrightarrow> strncmp_eq n (w @ s) v"
  by (auto simp: strncmp_eq_def)

lemma is_protocol_append: "is_protocol p \<Longrightarrow> is_protocol (p @ s)"
  by (auto simp: is_protocol_def intro: strncmp_eq_append)

lemma starts_simps:
  "strncmp_eq 4 (''port'' @ s) ''port''" "\<not> is_protocol (''port'' @ s)"
  "\<not> is_protocol (''to'' @ s)" "\<not> strncmp_eq 4 (''to'' @ s) ''port''"
  "\<not> is_protocol (''to-ipset'' @ s)" "\<not> strncmp_eq 4 (''to-ipset'' @ s) ''port''"
  "strncmp_eq 8 ''to-ipset'' ''to-ipset''" "\<not> strncmp_eq 8 ''to'' ''to-ipset''"
  by (simp_all add: strncmp_eq_def is_protocol_def numeral_eq_Suc)

lemma lower_words: "list_all word ws \<Longrightarrow> map tolower (sentence ws) = sentence ws"
  by (induction ws) (auto simp: sentence_def word_lower char_class_defs)

lemma next_words:
  assumes "word w" and "word v" and "list_all word ws"
  shows "TO_NEXT_WORD (w @ sentence (v # ws)) = (w, v @ sentence ws, False)"
  using next_word_sentence [of w "v # ws"] assms by (simp add: tl_sentence)

lemma read_dest_words:
  assumes "word m"
  shows "read_dest t p q ((if b then ''to-ipset'' else ''to'') @ sentence [m]) False =
    \<lparr>fr_target = t, fr_protocol = p, fr_port = q, fr_mask = m, fr_mask_is_ipset = b\<rparr>"
  using next_words [OF word_target(3) assms, of "[]"] next_words [OF word_target(4) assms, of "[]"]
    next_word_end [OF assms] starts_simps(7,8)
  by (auto simp: read_dest_def sentence_def Let_def)

lemma read_port_words:
  assumes "word m" and "\<forall>x. q = Some x \<longrightarrow> word x \<and> list_all (\<lambda>c. isdigit c \<or> c = CHR '':'') x"
  shows "read_port t p ((case q of None \<Rightarrow> [] | Some x \<Rightarrow> ''port'' @ sentence [x] @ '' '') @
      (if b then ''to-ipset'' else ''to'') @ sentence [m]) False =
    Inr \<lparr>fr_target = t, fr_protocol = p, fr_port = q, fr_mask = m, fr_mask_is_ipset = b\<rparr>"
proof (cases q)
  case None
  with assms(1) show ?thesis
    using starts_simps read_dest_words [OF assms(1), of t p None b] by (auto simp: read_port_def)
next
  case (Some x)
  let ?k = "if b then ''to-ipset'' else ''to''"
  have k: "word ?k" and x: "word x" "list_all (\<lambda>c. isdigit c \<or> c = CHR '':'') x"
    using word_target assms(2) Some by auto
  have e: "''port'' @ sentence [x] @ '' '' @ ?k @ sentence [m] = ''port'' @ sentence (x # [?k, m])"
    by (simp add: sentence_def)
  have "read_port t p (''port'' @ sentence (x # [?k, m])) False =
      Inr (read_dest t p (Some x) (?k @ sentence [m]) False)"
    using next_words [OF word_target(2) x(1), of "[?k, m]"] next_words [OF x(1) k, of "[m]"] k x(2) assms(1)
      starts_simps(1)
    by (simp add: read_port_def del: if_split)
  then show ?thesis
    using Some e read_dest_words [OF assms(1), of t p q b] by (simp del: if_split)
qed

text \<open>
  C23: A firewall rule written in the syntax of the configuration file (target, optional
  protocol, optional port or port range, destination) is read back as the same rule.
\<close>

theorem read_print_rule:
  assumes "wf_rule r"
  shows "read_rule (print_rule r) = Inr r"
proof -
  let ?k = "if fr_mask_is_ipset r then ''to-ipset'' else ''to''"
  let ?rest = "(case fr_port r of None \<Rightarrow> [] | Some x \<Rightarrow> ''port'' @ sentence [x] @ '' '') @ ?k @ sentence [fr_mask r]"
  have m: "word (fr_mask r)" and q: "\<forall>x. fr_port r = Some x \<longrightarrow> word x \<and> list_all (\<lambda>c. isdigit c \<or> c = CHR '':'') x"
    using assms by (auto simp: wf_rule_def)
  have low: "map tolower (print_rule r) = print_rule r"
    using lower_words [OF wf_rule_words [OF assms]] word_lower [OF word_target(1)]
    by (simp add: print_rule_words)
  have first: "TO_NEXT_WORD (print_rule r) = (target_word (fr_target r), tl (sentence (rule_words r)), False)"
    using next_word_sentence [OF word_target(1) wf_rule_words [OF assms]]
    by (simp add: print_rule_words rule_words_def)
  have port: "read_port (fr_target r) p ?rest False = Inr (r\<lparr>fr_protocol := p\<rparr>)" for p
    using read_port_words [OF m q, of "fr_target r" p] by simp
  have np: "\<not> is_protocol ?rest"
    using starts_simps by (simp split: option.split)
  show ?thesis
  proof (cases "fr_protocol r")
    case None
    then have "tl (sentence (rule_words r)) = ?rest"
      by (simp add: rule_words_def sentence_def split: option.split)
    with None np port show ?thesis
      by (simp add: read_rule_def low first target_of_word Let_def)
  next
    case (Some p)
    then have p: "word p" "is_protocol p"
      using assms by (auto simp: wf_rule_def)
    obtain v vs where vs: "rule_words r = p # v # vs" "v @ sentence vs = ?rest"
      using Some by (cases "fr_port r") (auto simp: rule_words_def sentence_def)
    then have "TO_NEXT_WORD (p @ sentence (v # vs)) = (p, ?rest, False)"
      using next_words [OF p(1), of v vs] wf_rule_words [OF assms] by simp
    moreover have "tl (sentence (rule_words r)) = p @ sentence (v # vs)"
      by (simp only: vs(1) tl_sentence)
    ultimately show ?thesis
      using is_protocol_append [OF p(2)] port Some
      by (simp add: read_rule_def low first target_of_word Let_def)
  qed
qed

theorem read_print_rule_witness:
  "read_rule ''allow tcp port 80 to 69.90.89.205'' = Inr \<lparr>fr_target = TARGET_ACCEPT,
     fr_protocol = Some ''tcp'', fr_port = Some ''80'', fr_mask = ''69.90.89.205'', fr_mask_is_ipset = False\<rparr>"
  using read_print_rule [of "\<lparr>fr_target = TARGET_ACCEPT, fr_protocol = Some ''tcp'', fr_port = Some ''80'',
     fr_mask = ''69.90.89.205'', fr_mask_is_ipset = False\<rparr>"]
  by (simp add: print_rule_def wf_rule_def word_def is_protocol_def strncmp_eq_def char_class_defs)

text \<open>
  A rule that consists of its target alone is read as a rejection whatever the target
  is: \<open>FirewallRule allow\<close>, which the comments of the shipped configuration file permit, blocks
  everything.
\<close>

theorem target_alone_rejects:
  "read_rule (target_word t) = Inr \<lparr>fr_target = TARGET_REJECT, fr_protocol = None, fr_port = None,
     fr_mask = ''0.0.0.0/0'', fr_mask_is_ipset = False\<rparr>"
proof -
  have "TO_NEXT_WORD (target_word t) = (target_word t, [], True)" "map tolower (target_word t) = target_word t"
    using next_word_end word_lower word_target(1) by blast+
  then show ?thesis
    by (simp add: read_rule_def rule_target_def is_protocol_def read_port_def read_dest_def strncmp_eq_def
        TO_NEXT_WORD_def Let_def)
qed

lemma find_append_rule:
  "List.find (\<lambda>s. rs_name s = n) (append_rule m r ss) =
     (if n = m then Some (case List.find (\<lambda>s. rs_name s = n) ss of
                            None \<Rightarrow> \<lparr>rs_name = m, rs_rules = [r]\<rparr> | Some s \<Rightarrow> s\<lparr>rs_rules := rs_rules s @ [r]\<rparr>)
      else List.find (\<lambda>s. rs_name s = n) ss)"
  by (induction ss) auto

text \<open>
  A rule that parses becomes the last rule of its ruleset, the ruleset being made on
  first use, and the other rulesets stay as they are; a rule that does not parse changes
  nothing.
\<close>

theorem firewall_rule_appended:
  "get_ruleset n (snd (parse_firewall_rule m line c)) =
    (case read_rule line of
       Inl rc \<Rightarrow> get_ruleset n c
     | Inr r \<Rightarrow> if n = m then get_ruleset n c @ [r] else get_ruleset n c)"
  by (auto simp: get_ruleset_def parse_firewall_rule_def find_append_rule split: sum.split option.split)

section \<open>Authentication servers\<close>

text \<open>
  What the connection code needs from the list of servers: failing the current one never
  loses or duplicates a server, and failing each current one in turn tries all of them.
\<close>

locale server_ring =
  fixes servers :: "'c \<Rightarrow> t_auth_serv list"
    and fail :: "nat \<Rightarrow> 'c \<Rightarrow> 'c"
  assumes fail_current: "servers c = a # rest \<Longrightarrow> servers (fail (as_ptr a) c) = rest @ [a]"
    and fail_other: "servers c = a # rest \<Longrightarrow> p \<noteq> as_ptr a \<Longrightarrow> servers (fail p c) = servers c"
begin

text \<open>Failing the current server \<open>k\<close> times.\<close>

fun fail_heads :: "nat \<Rightarrow> 'c \<Rightarrow> 'c" where
  "fail_heads 0 c = c"
| "fail_heads (Suc k) c = (case servers c of [] \<Rightarrow> c | a # _ \<Rightarrow> fail_heads k (fail (as_ptr a) c))"

lemma fail_heads_rotate: "servers c \<noteq> [] \<Longrightarrow> servers (fail_heads k c) = rotate k (servers c)"
proof (induction k arbitrary: c)
  case (Suc k)
  then obtain a rest where a: "servers c = a # rest"
    by (cases "servers c") auto
  then have "servers (fail (as_ptr a) c) = rotate1 (servers c)"
    using fail_current by simp
  with Suc.IH [of "fail (as_ptr a) c"] a show ?case
    by (simp add: rotate1_rotate_swap del: rotate_Suc) (metis a rotate1.simps(2) rotate1_rotate_swap rotate_Suc)
qed simp

lemma tries_all:
  assumes "servers c \<noteq> []" and "k < length (servers c)"
  shows "hd (servers (fail_heads k c)) = servers c ! k"
proof -
  have "hd (rotate k (servers c)) = servers c ! k"
    using hd_rotate_conv_nth [of "servers c" k] assms by simp
  with fail_heads_rotate [OF assms(1)] show ?thesis by simp
qed

lemma full_round: "servers c \<noteq> [] \<Longrightarrow> servers (fail_heads (length (servers c)) c) = servers c"
  using fail_heads_rotate by simp

end

lemma mark_bad_rotate:
  "auth_servers c = a # rest \<Longrightarrow> auth_servers (mark_auth_server_bad (as_ptr a) c) = rest @ [a]"
  by (cases rest) (simp_all add: mark_auth_server_bad_def)

interpretation ring: server_ring auth_servers mark_auth_server_bad
proof unfold_locales
  show "auth_servers c = a # rest \<Longrightarrow> auth_servers (mark_auth_server_bad (as_ptr a) c) = rest @ [a]" for c a rest
    by (rule mark_bad_rotate)
  show "auth_servers c = a # rest \<Longrightarrow> p \<noteq> as_ptr a \<Longrightarrow> auth_servers (mark_auth_server_bad p c) = auth_servers c"
    for c a rest p
    by (cases rest) (simp_all add: mark_auth_server_bad_def)
qed

text \<open>
  Marking a server as bad moves it to the end of the list if it is the current one and
  changes nothing otherwise; in both cases the list holds the same servers as before.
\<close>

theorem mark_bad_keeps_servers:
  "mset (auth_servers (mark_auth_server_bad p c)) = mset (auth_servers c) \<and>
   (\<forall>a rest. auth_servers c = a # rest \<longrightarrow>
      auth_servers (mark_auth_server_bad p c) = (if as_ptr a = p then rest @ [a] else a # rest))"
proof (cases "auth_servers c")
  case (Cons a rest)
  then show ?thesis
    using ring.fail_current [OF Cons] ring.fail_other [OF Cons, of p] by (cases "as_ptr a = p") auto
qed (simp add: mark_auth_server_bad_def)

theorem mark_bad_keeps_servers_witness:
  "auth_servers (mark_auth_server_bad 0 (config_init\<lparr>auth_servers :=
      [new_auth_server 0 ''a'' auth_block_defaults, new_auth_server 1 ''b'' auth_block_defaults]\<rparr>)) =
    [new_auth_server 1 ''b'' auth_block_defaults, new_auth_server 0 ''a'' auth_block_defaults]"
  using mark_bad_keeps_servers [of 0 "config_init\<lparr>auth_servers :=
      [new_auth_server 0 ''a'' auth_block_defaults, new_auth_server 1 ''b'' auth_block_defaults]\<rparr>"]
  by (simp add: new_auth_server_def)

section \<open>Trusted MAC addresses\<close>



text \<open>
  The check for duplicates does not look at the last entry, unless it is the first: an address that
  is given twice in a row is there twice.
\<close>

lemma trusted_mac_last_repeated:
  "distinct (l @ [mac]) \<Longrightarrow> l \<noteq> [] \<Longrightarrow> add_trusted_mac mac (l @ [mac]) = l @ [mac, mac]"
  by (cases l) (auto simp: add_trusted_mac_def)

end
