(* ===== verification/World.thy ===== *)
theory World
  imports Conf Client_List
begin

text \<open>
  The state that the threads of the gateway share, and the outside world.

  A \<open>world\<close> holds the configuration, the client list, the static variables of the modules,
  and the history of what was done to the outside: commands run by the shell, output of
  programs read, names resolved, connections and messages. What the outside answers is the
  argument \<open>env\<close>: every answer is a function of the history so far and of the question,
  so that answers may change over time and nothing is assumed of them. What other threads do while
  a lock is given up is part of it as well, a function on worlds. The result
  \<^term>\<open>None\<close> is an exit, undefined behaviour or a loop without end.
\<close>

datatype event =
    Exec string int          \<comment> \<open>a shell command and the quiet flag\<close>
  | Popen string             \<comment> \<open>a command whose output is read\<close>
  | Time                     \<comment> \<open>a call of \<open>time\<close>\<close>
  | Resolve string           \<comment> \<open>a name looked up\<close>
  | Connect string int       \<comment> \<open>an address and a port\<close>
  | Exchange string          \<comment> \<open>a request sent on a connection\<close>
  | Icmp string              \<comment> \<open>an echo request\<close>
  | Read_File string         \<comment> \<open>a file opened and read\<close>
  | Write_File string string \<comment> \<open>a file and what is written to it\<close>
  | Yield                    \<comment> \<open>a lock given up and taken again\<close>

type_synonym history = "event list"

text \<open>
  The outcome of \<open>socket\<close> and \<open>connect\<close>, and of one round of \<open>select\<close> and \<open>read\<close> on a
  connection.
\<close>

datatype connect_result = No_Socket | Refused | Connected int

datatype sock_event = Select_Failed | Timed_Out | Read_Failed | End_Of_File | Received string

record world =
  w_config :: s_config
  w_clients :: client_state
  w_fw_quiet :: int
  w_last_online_time :: int
  w_last_offline_time :: int
  w_last_auth_online_time :: int
  w_last_auth_offline_time :: int
  w_served_this_session :: int
  w_started_time :: int
  w_restart_orig_pid :: int
  w_authdown :: bool
  w_history :: history

record env =
  e_exec :: "history \<Rightarrow> string \<Rightarrow> int"
  e_popen :: "history \<Rightarrow> string \<Rightarrow> string option"
  e_time :: "history \<Rightarrow> int"
  e_resolve :: "history \<Rightarrow> string \<Rightarrow> string option"
  e_connect :: "history \<Rightarrow> string \<Rightarrow> int \<Rightarrow> connect_result"
  e_send :: "history \<Rightarrow> string \<Rightarrow> int"
  e_recv :: "history \<Rightarrow> sock_event list"
  e_file :: "history \<Rightarrow> string \<Rightarrow> string option"
  e_others :: "world \<Rightarrow> world"
  e_junk :: "nat \<Rightarrow> char"

text \<open>One step to the outside, and its answer.\<close>

definition did :: "event \<Rightarrow> world \<Rightarrow> world" where
  "did ev w = w\<lparr>w_history := w_history w @ [ev]\<rparr>"

definition get_time :: "env \<Rightarrow> world \<Rightarrow> int \<times> world" where
  "get_time env w = (e_time env (w_history w), did Time w)"

text \<open>
  \<open>execute\<close> of \<^verbatim>\<open>src/util.c\<close>: the exit status of the shell, or 1 when the child could
  not be waited for or was killed; both are what \<open>e_exec\<close> answers.
\<close>

definition execute :: "env \<Rightarrow> string \<Rightarrow> int \<Rightarrow> world \<Rightarrow> int \<times> world" where
  "execute env cmd_line quiet w = (e_exec env (w_history w) cmd_line, did (Exec cmd_line quiet) w)"

definition popen :: "env \<Rightarrow> string \<Rightarrow> world \<Rightarrow> string option \<times> world" where
  "popen env cmd w = (e_popen env (w_history w) cmd, did (Popen cmd) w)"

text \<open>
  The client list lock is given up for a while: other threads may do anything to the shared
  state and to the outside, which is added to the history.
\<close>

definition yield_clients :: "env \<Rightarrow> world \<Rightarrow> world" where
  "yield_clients env w = did Yield (e_others env w)"

lemma did_simps [simp]:
  "w_config (did ev w) = w_config w" "w_clients (did ev w) = w_clients w"
  "w_fw_quiet (did ev w) = w_fw_quiet w" "w_history (did ev w) = w_history w @ [ev]"
  "w_last_online_time (did ev w) = w_last_online_time w"
  "w_last_offline_time (did ev w) = w_last_offline_time w"
  "w_last_auth_online_time (did ev w) = w_last_auth_online_time w"
  "w_last_auth_offline_time (did ev w) = w_last_auth_offline_time w"
  "w_served_this_session (did ev w) = w_served_this_session w" "w_started_time (did ev w) = w_started_time w"
  "w_restart_orig_pid (did ev w) = w_restart_orig_pid w" "w_authdown (did ev w) = w_authdown w"
  by (simp_all add: did_def)

text \<open>The commands that were run, in order.\<close>

fun command_of :: "event \<Rightarrow> string list" where
  "command_of (Exec cmd quiet) = [cmd]"
| "command_of _ = []"

definition commands :: "history \<Rightarrow> string list" where
  "commands h = concat (map command_of h)"

lemma commands_simps [simp]:
  "commands [] = []" "commands (h @ h') = commands h @ commands h'" "commands (ev # h) = command_of ev @ commands h"
  by (simp_all add: commands_def)

end
