(* ===== verification/Util.thy ===== *)
theory Util
  imports World
begin

text \<open>
  Helpers around the operating system (\<^verbatim>\<open>src/util.c\<close>, \<^verbatim>\<open>src/debug.c\<close>): the external
  interface from the routing table, the MAC address as text, the echo request with its
  checksum, the pid file, and where a log message goes.
\<close>

unbundle bit_operations_syntax

section \<open>Tokens of formatted input\<close>

text \<open>
  \<open>fscanf\<close> on text. \<open>skip_tokens n\<close> is \<open>n\<close> times \<open>%*s\<close>, \<open>scan_token\<close> is \<open>%15s\<close>; the end of
  the text is \<^term>\<open>None\<close>.
\<close>

definition skip_token :: "string \<Rightarrow> string option" where
  "skip_token s =
     (let t = dropWhile isspace s in if t = [] then None else Some (dropWhile (\<lambda>c. \<not> isspace c) t))"

fun skip_tokens :: "nat \<Rightarrow> string \<Rightarrow> string option" where
  "skip_tokens 0 s = Some s"
| "skip_tokens (Suc n) s = (case skip_token s of None \<Rightarrow> None | Some r \<Rightarrow> skip_tokens n r)"

definition scan_token :: "string \<Rightarrow> (string \<times> string) option" where
  "scan_token s =
     (let t = dropWhile isspace s; v = takeWhile (\<lambda>c. \<not> isspace c) (take 15 t)
      in if t = [] then None else Some (v, drop (length v) t))"

lemma skip_token_shorter: "skip_token s = Some r \<Longrightarrow> length r < length s"
proof -
  assume "skip_token s = Some r"
  then have t: "dropWhile isspace s \<noteq> []" "r = dropWhile (\<lambda>c. \<not> isspace c) (dropWhile isspace s)"
    by (auto simp: skip_token_def Let_def split: if_splits)
  then obtain c u where cu: "dropWhile isspace s = c # u" by (cases "dropWhile isspace s") auto
  then have "\<not> isspace c"
    by (metis dropWhile_eq_Cons_conv)
  then have "length r \<le> length u"
    using t(2) cu length_dropWhile_le by simp
  also have "length u < length s"
    using cu length_dropWhile_le [of isspace s] by simp
  finally show ?thesis .
qed

lemma skip_tokens_shorter: "skip_tokens n s = Some r \<Longrightarrow> length r \<le> length s"
  by (induction n s rule: skip_tokens.induct) (auto split: option.splits dest!: skip_token_shorter)

lemma scan_token_shorter: "scan_token s = Some (v, r) \<Longrightarrow> length r < length s"
proof -
  assume s: "scan_token s = Some (v, r)"
  let ?t = "dropWhile isspace s"
  have t: "?t \<noteq> []" "v = takeWhile (\<lambda>c. \<not> isspace c) (take 15 ?t)" "r = drop (length v) ?t"
    using s by (auto simp: scan_token_def Let_def split: if_splits)
  then obtain c u where cu: "?t = c # u" by (cases ?t) auto
  then have "\<not> isspace c" by (metis dropWhile_eq_Cons_conv)
  then have "0 < length v" using t(2) cu by simp
  then have "length r < length ?t" using t(1,3) by simp
  also have "\<dots> \<le> length s" by (rule length_dropWhile_le)
  finally show ?thesis .
qed

section \<open>The external interface\<close>

definition NUM_EXT_INTERFACE_DETECT_RETRY :: nat where "NUM_EXT_INTERFACE_DETECT_RETRY = 0"

text \<open>One call on a line of the routing table: the device and the gateway, if both were read.\<close>

definition scan_route :: "string \<Rightarrow> (string \<times> string) option \<times> string" where
  "scan_route s =
     (case scan_token s of
        None \<Rightarrow> (None, [])
      | Some (device, s1) \<Rightarrow>
          (case skip_token s1 of
             None \<Rightarrow> (None, [])
           | Some s2 \<Rightarrow>
               (case scan_token s2 of
                  None \<Rightarrow> (None, [])
                | Some (gw, s3) \<Rightarrow>
                    (Some (device, gw),
                     case skip_tokens 8 s3 of None \<Rightarrow> [] | Some s4 \<Rightarrow> dropWhile isspace s4))))"

lemma scan_route_shorter: "s \<noteq> [] \<Longrightarrow> scan_route s = (e, r) \<Longrightarrow> length r < length s"
proof -
  assume s: "s \<noteq> []" "scan_route s = (e, r)"
  have drop: "length (dropWhile isspace x) \<le> length x" for x by (rule length_dropWhile_le)
  show ?thesis
  proof (cases "\<exists>device s1 s2 gw s3. scan_token s = Some (device, s1) \<and> skip_token s1 = Some s2 \<and> scan_token s2 = Some (gw, s3)")
    case True
    then obtain device s1 s2 gw s3 where t: "scan_token s = Some (device, s1)" "skip_token s1 = Some s2" "scan_token s2 = Some (gw, s3)"
      by blast
    then have "length r \<le> length s3"
      using s(2) drop skip_tokens_shorter [of 8 s3]
      by (auto simp: scan_route_def split: option.splits intro: order_trans)
    then show ?thesis
      using scan_token_shorter [OF t(1)] skip_token_shorter [OF t(2)] scan_token_shorter [OF t(3)] by simp
  next
    case False
    then have "r = []"
      using s(2) by (auto simp: scan_route_def split: option.splits)
    with s(1) show ?thesis by simp
  qed
qed

function route_loop :: "string \<Rightarrow> string option" where
  "route_loop s =
     (if s = [] then None
      else case scan_route s of
             (Some (device, gw), rest) \<Rightarrow> if gw = ''00000000'' then Some device else route_loop rest
           | (None, rest) \<Rightarrow> route_loop rest)"
  by pat_completeness auto
termination
  by (relation "measure length") (auto dest: scan_route_shorter sym)

declare route_loop.simps [simp del]

text \<open>
  The table is read again and again, with a pause, until it has a default route; with the limit
  at 0 there is no last try.
\<close>

partial_function (option) ext_iface_try :: "env \<Rightarrow> nat \<Rightarrow> world \<Rightarrow> (string option \<times> world) option" where
  "ext_iface_try env i w =
     (let w1 = did (Read_File ''/proc/net/route'') w
      in case e_file env (w_history w) ''/proc/net/route'' of
           None \<Rightarrow> Some (None, w1)
         | Some s \<Rightarrow>
             (case route_loop s of
                Some device \<Rightarrow> Some (Some device, w1)
              | None \<Rightarrow>
                  if NUM_EXT_INTERFACE_DETECT_RETRY \<noteq> 0 \<and> i > NUM_EXT_INTERFACE_DETECT_RETRY then None
                  else ext_iface_try env (i + 1) (did Time w1)))"

definition get_ext_iface :: "env \<Rightarrow> world \<Rightarrow> (string option \<times> world) option" where
  "get_ext_iface env w = ext_iface_try env 1 w"

section \<open>Addresses of the internal interface\<close>

text \<open>
  \<open>ioctl\<close> answers with the bytes of the hardware address, or fails; the name is cut to 15
  characters.
\<close>

definition hex_upper :: "nat \<Rightarrow> char" where
  "hex_upper d = (if d < 10 then digit_char d else chr (55 + d))"

definition show_02X :: "nat \<Rightarrow> string" where
  "show_02X n = [hex_upper (n div 16 mod 16), hex_upper (n mod 16)]"

definition get_iface_mac :: "(string \<Rightarrow> char list option) \<Rightarrow> string \<Rightarrow> string option" where
  "get_iface_mac ioctl ifname =
     map_option (\<lambda>hwaddr. concat (map (\<lambda>c. show_02X (of_char c mod 256)) (take 6 hwaddr))) (ioctl (take 15 ifname))"

text \<open>\<open>inet_ntoa\<close> on the four bytes of the address.\<close>

definition get_iface_ip :: "(string \<Rightarrow> (nat \<times> nat \<times> nat \<times> nat) option) \<Rightarrow> string \<Rightarrow> string option" where
  "get_iface_ip ioctl ifname =
     map_option (\<lambda>(a, b, c, d). show_nat a @ ''.'' @ show_nat b @ ''.'' @ show_nat c @ ''.'' @ show_nat d)
       (ioctl (take 15 ifname))"

section \<open>Echo requests\<close>

type_synonym u16 = "16 word"

text \<open>
  The results of \<open>socket\<close>, \<open>fcntl\<close> and \<open>setsockopt\<close>, in the order of the calls; the first
  failure ends the chain.
\<close>

definition init_icmp_socket :: "int list \<Rightarrow> int" where
  "init_icmp_socket rs =
     (case rs of
        [sock, flags, setfl, rcvbuf, dontroute] \<Rightarrow>
          if sock = -1 \<or> flags = -1 \<or> setfl = -1 \<or> rcvbuf \<noteq> 0 \<or> dontroute = -1 then 0 else 1
      | _ \<Rightarrow> 0)"

text \<open>The open descriptors after the socket has been closed; an error of \<open>close\<close> is not looked at.\<close>

definition close_icmp_socket :: "int \<Rightarrow> int list \<Rightarrow> int list" where
  "close_icmp_socket icmp_fd fds = removeAll icmp_fd fds"

text \<open>
  \<open>rand16\<close>: the generator is seeded once; \<open>rand\<close> gives a number below \<open>2 ^ 31\<close>, of which the
  upper bits are used.
\<close>

record rand_state =
  been_seeded :: bool
  rand_seed :: u32

definition rand16 :: "(u32 \<Rightarrow> u32 \<times> u32) \<Rightarrow> u32 \<Rightarrow> u32 \<Rightarrow> u32 \<Rightarrow> rand_state \<Rightarrow> u16 \<times> rand_state" where
  "rand16 rand sec usec pid st =
     (let st1 = (if been_seeded st then st
                 else \<lparr>been_seeded = True, rand_seed = sec XOR usec XOR push_bit 16 pid\<rparr>);
          (r, seed) = rand (rand_seed st1)
      in (ucast (drop_bit 15 r), st1\<lparr>rand_seed := seed\<rparr>))"

text \<open>
  The packet as 14 half words on a little-endian machine: type and code, checksum, id, and zeros. The sum is
  taken in 32 bits and its carries are added back in.
\<close>

definition icmp_packet :: "u16 \<Rightarrow> u16 \<Rightarrow> u16 list" where
  "icmp_packet cksum ident = [8, cksum, ident] @ replicate 11 0"

definition sum16 :: "u16 list \<Rightarrow> u32" where
  "sum16 hs = fold (\<lambda>h j. j + ucast h) hs 0"

lemma unat_bounds: "unat (j :: u32) < 4294967296" "unat (h :: u16) < 65536"
  by (rule unsigned_less [THEN order_less_le_trans], simp)+

lemma unat_low: "unat (j AND 0xffff :: u32) = unat j mod 65536"
proof -
  have eq: "j AND 0xffff = take_bit 16 j"
    by (simp add: take_bit_eq_mask mask_eq_exp_minus_1)
  show ?thesis
    unfolding eq unsigned_take_bit_eq by (simp add: take_bit_eq_mod)
qed

lemma unat_high: "unat (drop_bit 16 j :: u32) = unat j div 65536"
  by (simp only: unat_drop_bit_eq) (simp add: drop_bit_eq_div)

lemma high_zero: "drop_bit 16 (j :: u32) = 0 \<longleftrightarrow> unat j < 65536"
  by (metis div_eq_0_iff div_less unat_0 unat_eq_zero unat_high zero_neq_numeral)

lemma unat_fold_step: "unat ((j AND 0xffff) + drop_bit 16 (j :: u32)) = unat j mod 65536 + unat j div 65536"
proof -
  have "unat j div 65536 < 65536"
    using unat_bounds(1) [of j] by (simp add: less_mult_imp_div_less)
  moreover have "unat j mod 65536 < 65536" by simp
  ultimately show ?thesis
    by (simp add: unat_word_ariths unat_low unat_high del: mod_less_divisor)
qed

function fold16 :: "u32 \<Rightarrow> u32" where
  "fold16 j = (if drop_bit 16 j \<noteq> 0 then fold16 ((j AND 0xffff) + drop_bit 16 j) else j)"
  by pat_completeness auto
termination
proof (relation "measure unat")
  fix j :: u32
  assume "drop_bit 16 j \<noteq> 0"
  then have "65536 \<le> unat j" using high_zero [of j] by simp
  then have "unat j mod 65536 + unat j div 65536 < unat j"
    using div_mult_mod_eq [of "unat j" 65536] by linarith
  then show "((j AND 65535) + drop_bit 16 j, j) \<in> measure unat"
    using unat_fold_step [of j] by simp
qed simp

declare fold16.simps [simp del]

definition icmp_cksum :: "u16 list \<Rightarrow> u16" where
  "icmp_cksum hs = (let j = fold16 (sum16 hs) in ucast (if j = 0xffff then j else NOT j))"

text \<open>\<open>icmp_ping\<close>: the packet that goes to the address; the results of the socket calls are only logged.\<close>

definition icmp_ping :: "u16 \<Rightarrow> string \<Rightarrow> world \<Rightarrow> u16 list \<times> world" where
  "icmp_ping ident host w = (icmp_packet (icmp_cksum (icmp_packet 0 ident)) ident, did (Icmp host) w)"

section \<open>The pid file and the log\<close>

text \<open>\<open>opens\<close> says whether the file can be opened.\<close>

definition save_pid_file :: "bool \<Rightarrow> int \<Rightarrow> string option \<Rightarrow> world \<Rightarrow> world" where
  "save_pid_file opens pid pf w =
     (case pf of None \<Rightarrow> w | Some f \<Rightarrow> if opens then did (Write_File f (show_int pid @ [NL])) w else w)"

text \<open>
  \<open>_debug\<close>: messages above the level are dropped; warnings and worse always go to the standard
  error output, the others only if it is asked for; the system log gets all of them if it is
  on. \<open>stamp\<close> is the prefix with level, time, process and place.
\<close>

datatype log_output = To_Stderr string | To_Syslog int int string

definition LOG_WARNING :: int where "LOG_WARNING = 4"

definition debug_output :: "s_debugconf \<Rightarrow> int \<Rightarrow> string \<Rightarrow> string \<Rightarrow> log_output list" where
  "debug_output conf level stamp msg =
     (if debuglevel conf \<ge> level
      then (if level \<le> LOG_WARNING then [To_Stderr (stamp @ msg @ [NL])]
            else if log_stderr conf \<noteq> 0 then [To_Stderr (stamp @ msg @ [NL])] else []) @
           (if log_syslog conf \<noteq> 0 then [To_Syslog (syslog_facility conf) level msg] else [])
      else [])"

section \<open>The checksum\<close>

text \<open>Adding the carries back in keeps the value modulo 65535 and does not make zero of a sum.\<close>

lemma fold16_mod:
  "unat (fold16 j) mod 65535 = unat j mod 65535 \<and> unat (fold16 j) < 65536 \<and> (unat j \<noteq> 0 \<longrightarrow> unat (fold16 j) \<noteq> 0)"
proof (induction j rule: fold16.induct)
  case (1 j)
  show ?case
  proof (cases "drop_bit 16 j = 0")
    case True
    then show ?thesis
      using high_zero [of j] by (subst (1 2 3) fold16.simps) simp
  next
    case False
    let ?k = "(j AND 0xffff) + drop_bit 16 j"
    have k: "unat ?k = unat j mod 65536 + unat j div 65536" by (rule unat_fold_step)
    have "unat j = 65535 * (unat j div 65536) + unat ?k"
      using k div_mult_mod_eq [of "unat j" 65536] by simp
    then have "unat ?k mod 65535 = unat j mod 65535"
      by (metis mod_mult_self4)
    moreover have "unat ?k \<noteq> 0"
    proof -
      have "unat j div 65536 \<noteq> 0"
        using False high_zero [of j] by (simp add: div_eq_0_iff)
      with k show ?thesis by simp
    qed
    ultimately show ?thesis
      using "1.IH" [OF False] False by (subst (1 2 3) fold16.simps) simp
  qed
qed

lemma sum16_nat:
  assumes "length hs < 65536"
  shows "unat (sum16 hs) = sum_list (map unat hs)"
proof -
  have bound: "sum_list (map unat hs) \<le> 65535 * length hs" for hs :: "u16 list"
  proof (induction hs)
    case (Cons h hs)
    then show ?case using unat_bounds(2) [of h] by simp
  qed simp
  have "unat (fold (\<lambda>h j. j + ucast h) hs j) = unat j + sum_list (map unat hs)"
    if "unat j + 65535 * length hs < 2 ^ 32" for j :: u32 and hs :: "u16 list"
    using that
  proof (induction hs arbitrary: j)
    case (Cons h hs)
    have h: "unat (ucast h :: u32) = unat h" using unat_bounds(2) [of h] by (simp add: unsigned_ucast_eq take_bit_eq_mod)
    moreover have "unat h < 65536" using unat_bounds(2) [of h] by simp
    ultimately have "unat (j + ucast h) = unat j + unat h"
      using Cons.prems by (simp add: unat_word_ariths)
    with Cons.IH [of "j + ucast h"] Cons.prems \<open>unat h < 65536\<close> show ?case by simp
  qed simp
  from this [of 0 hs] show ?thesis
    using assms by (simp add: sum16_def)
qed

lemma unat_cksum:
  "unat (icmp_cksum hs) = (let f = unat (fold16 (sum16 hs)) in if f = 65535 then 65535 else 65535 - f)"
proof -
  define j where "j = fold16 (sum16 hs)"
  have j: "unat j < 65536" using fold16_mod [of "sum16 hs"] by (simp add: j_def)
  have eq: "j = 0xffff \<longleftrightarrow> unat j = 65535"
    by (simp add: word_unat_eq_iff)
  have not: "unat (NOT j) = 4294967295 - unat j"
  proof -
    have "NOT j = - 1 - j" by (simp add: not_eq_complement)
    moreover have "unat (- 1 - j) = unat (- 1 :: u32) - unat j"
      by (rule unat_sub) simp
    ultimately show ?thesis by (simp add: unsigned_minus_1_eq_mask mask_eq_exp_minus_1)
  qed
  have "(4294967295 - unat j) mod 65536 = 65535 - unat j"
  proof -
    have "4294967295 - unat j = (65535 - unat j) + 65535 * 65536" using j by simp
    then have "(4294967295 - unat j) mod 65536 = (65535 - unat j) mod 65536"
      by (metis mod_mult_self1)
    then show ?thesis by simp
  qed
  then show ?thesis
    unfolding icmp_cksum_def j_def [symmetric] Let_def
    using eq not by (simp add: unsigned_ucast_eq take_bit_eq_mod)
qed

text \<open>
  C20: Every echo request carries a valid checksum: the sum of all its half words, with the
  carries added back in, is \<open>0xffff\<close>, which is what a receiver tests, for every id,
  and the loop that adds the carries ends.
\<close>

theorem icmp_checksum_valid: "fold16 (sum16 (fst (icmp_ping ident host w))) = 0xffff"
proof -
  define c where "c = icmp_cksum (icmp_packet 0 ident)"
  define f where "f = unat (fold16 (sum16 (icmp_packet 0 ident)))"
  define g where "g = unat (fold16 (sum16 (icmp_packet c ident)))"
  have len: "length (icmp_packet x ident) < 65536" for x
    by (simp add: icmp_packet_def)
  have sum: "unat (sum16 (icmp_packet x ident)) = 8 + unat x + unat ident" for x
    unfolding sum16_nat [OF len] by (simp add: icmp_packet_def)
  have f: "f mod 65535 = (8 + unat ident) mod 65535" "f < 65536"
    using fold16_mod [of "sum16 (icmp_packet 0 ident)"] sum [of 0] unfolding f_def by simp_all
  have c: "unat c = (if f = 65535 then 65535 else 65535 - f)"
    using unat_cksum [of "icmp_packet 0 ident"] unfolding c_def f_def Let_def .
  have "(8 + unat ident + unat c) mod 65535 = (f + unat c) mod 65535"
    using f(1) by (metis mod_add_left_eq)
  also have "\<dots> = 0"
    using f(2) c by (cases "f = 65535") simp_all
  finally have "(8 + unat c + unat ident) mod 65535 = 0" by (simp add: ac_simps)
  then have g: "g mod 65535 = 0" "g < 65536" "g \<noteq> 0"
    using fold16_mod [of "sum16 (icmp_packet c ident)"] unfolding sum g_def by simp_all
  then have "65535 \<le> g" by (auto dest: dvd_imp_le simp: mod_eq_0_iff_dvd)
  with g(2) have "g = 65535" by simp
  then show ?thesis
    unfolding icmp_ping_def fst_conv c_def [symmetric] word_unat_eq_iff g_def by simp
qed

end
