(* ===== verification/Fw_Iptables.thy ===== *)
theory Fw_Iptables
  imports Util
begin

text \<open>
  The iptables back end (\<^verbatim>\<open>src/fw_iptables.c\<close>): every change of the firewall is a shell
  command. The commands are built as strings, byte for byte, and appended to the history of the
  world. A string that contains the place holder for the gateway id is used as a format string by
  the C code; a percent sign in it is undefined behaviour, which is \<^term>\<open>None\<close> here.
\<close>

section \<open>Names\<close>

definition CHAIN_NAME_MAX_LEN :: nat where "CHAIN_NAME_MAX_LEN = 15"

definition CHAIN_OUTGOING :: string where "CHAIN_OUTGOING = ''WD_$ID$_Outgoing''"
definition CHAIN_TO_INTERNET :: string where "CHAIN_TO_INTERNET = ''WD_$ID$_Internet''"
definition CHAIN_TO_ROUTER :: string where "CHAIN_TO_ROUTER = ''WD_$ID$_Router''"
definition CHAIN_INCOMING :: string where "CHAIN_INCOMING = ''WD_$ID$_Incoming''"
definition CHAIN_AUTHSERVERS :: string where "CHAIN_AUTHSERVERS = ''WD_$ID$_AuthServs''"
definition CHAIN_GLOBAL :: string where "CHAIN_GLOBAL = ''WD_$ID$_Global''"
definition CHAIN_VALIDATE :: string where "CHAIN_VALIDATE = ''WD_$ID$_Validate''"
definition CHAIN_KNOWN :: string where "CHAIN_KNOWN = ''WD_$ID$_Known''"
definition CHAIN_UNKNOWN :: string where "CHAIN_UNKNOWN = ''WD_$ID$_Unknown''"
definition CHAIN_LOCKED :: string where "CHAIN_LOCKED = ''WD_$ID$_Locked''"
definition CHAIN_TRUSTED :: string where "CHAIN_TRUSTED = ''WD_$ID$_Trusted''"
definition CHAIN_AUTH_IS_DOWN :: string where "CHAIN_AUTH_IS_DOWN = ''WD_$ID$_AuthDown''"

lemmas chain_defs = CHAIN_OUTGOING_def CHAIN_TO_INTERNET_def CHAIN_TO_ROUTER_def CHAIN_INCOMING_def
  CHAIN_AUTHSERVERS_def CHAIN_GLOBAL_def CHAIN_VALIDATE_def CHAIN_KNOWN_def CHAIN_UNKNOWN_def
  CHAIN_LOCKED_def CHAIN_TRUSTED_def CHAIN_AUTH_IS_DOWN_def

definition FW_MARK_NONE :: int where "FW_MARK_NONE = 0"
definition FW_MARK_PROBATION :: int where "FW_MARK_PROBATION = 1"
definition FW_MARK_KNOWN :: int where "FW_MARK_KNOWN = 2"
definition FW_MARK_AUTH_IS_DOWN :: int where "FW_MARK_AUTH_IS_DOWN = 253"
definition FW_MARK_LOCKED :: int where "FW_MARK_LOCKED = 254"

datatype fw_access_t = FW_ACCESS_ALLOW | FW_ACCESS_DENY

section \<open>Commands\<close>

fun replace_id :: "string \<Rightarrow> string \<Rightarrow> string" where
  "replace_id intf [] = []"
| "replace_id intf (c # s) =
     (if take 4 (c # s) = ''$ID$'' then intf @ replace_id intf (drop 3 s) else c # replace_id intf s)"

definition iptables_insert_gateway_id :: "s_config \<Rightarrow> string \<Rightarrow> string option" where
  "iptables_insert_gateway_id c input =
     (if strstr input ''$ID$'' = None then Some input
      else (case gw_interface c of
              None \<Rightarrow> None
            | Some intf \<Rightarrow>
                if CHR ''%'' \<in> set input then None
                else Some (replace_id (take CHAIN_NAME_MAX_LEN intf) input)))"

text \<open>\<open>iptables_do_command\<close>, given the formatted arguments.\<close>

definition iptables_do_command :: "env \<Rightarrow> string \<Rightarrow> world \<Rightarrow> (int \<times> world) option" where
  "iptables_do_command env fmt_cmd w = do {
     cmd \<leftarrow> iptables_insert_gateway_id (w_config w) (''iptables '' @ fmt_cmd);
     Some (execute env cmd (w_fw_quiet w) w)
   }"

text \<open>A sequence of commands whose results are ignored.\<close>

fun do_commands :: "env \<Rightarrow> string list \<Rightarrow> world \<Rightarrow> world option" where
  "do_commands env [] w = Some w"
| "do_commands env (c # cs) w =
     (case iptables_do_command env c w of None \<Rightarrow> None | Some (rc, w1) \<Rightarrow> do_commands env cs w1)"

definition target_mode :: "t_firewall_target \<Rightarrow> string" where
  "target_mode t = (case t of TARGET_DROP \<Rightarrow> ''DROP'' | TARGET_REJECT \<Rightarrow> ''REJECT'' | TARGET_ACCEPT \<Rightarrow> ''ACCEPT''
     | TARGET_LOG \<Rightarrow> ''LOG'' | TARGET_ULOG \<Rightarrow> ''ULOG'')"

text \<open>The pieces are printed one after the other into a buffer of \<open>MAX_BUF\<close> bytes, each
  cut at its end.\<close>

definition iptables_compile :: "string \<Rightarrow> string \<Rightarrow> t_firewall_rule \<Rightarrow> string option" where
  "iptables_compile table chain rule =
     (if (fr_target rule = TARGET_DROP \<or> fr_target rule = TARGET_REJECT) \<and> strncmp_eq 3 table ''nat'' then None
      else Some (take (MAX_BUF - 1)
        (''-t '' @ table @ '' -A '' @ chain @ '' '' @
         (if fr_mask_is_ipset rule then ''-m set --match-set '' @ fr_mask rule @ '' dst ''
          else ''-d '' @ fr_mask rule @ '' '') @
         (case fr_protocol rule of None \<Rightarrow> [] | Some p \<Rightarrow> ''-p '' @ p @ '' '') @
         (case fr_port rule of None \<Rightarrow> [] | Some p \<Rightarrow> ''--dport '' @ p @ '' '') @
         ''-j '' @ target_mode (fr_target rule))))"

definition ruleset_commands :: "string \<Rightarrow> string \<Rightarrow> string \<Rightarrow> s_config \<Rightarrow> string list" where
  "ruleset_commands table ruleset chain c =
     concat (map (\<lambda>rule. case iptables_compile table chain rule of None \<Rightarrow> [] | Some cmd \<Rightarrow> [cmd])
       (get_ruleset ruleset c))"

definition iptables_load_ruleset :: "env \<Rightarrow> string \<Rightarrow> string \<Rightarrow> string \<Rightarrow> world \<Rightarrow> world option" where
  "iptables_load_ruleset env table ruleset chain w =
     do_commands env (ruleset_commands table ruleset chain (w_config w)) w"

definition iptables_fw_clear_authservers :: "env \<Rightarrow> world \<Rightarrow> world option" where
  "iptables_fw_clear_authservers env w =
     do_commands env [''-t filter -F '' @ CHAIN_AUTHSERVERS, ''-t nat -F '' @ CHAIN_AUTHSERVERS] w"

definition authserver_commands :: "s_config \<Rightarrow> string list" where
  "authserver_commands c = concat (map (\<lambda>a. case last_ip a of
       None \<Rightarrow> []
     | Some ip \<Rightarrow> if ip = ''0.0.0.0'' then [] else
         [''-t filter -A '' @ CHAIN_AUTHSERVERS @ '' -d '' @ ip @ '' -j ACCEPT'',
          ''-t nat -A '' @ CHAIN_AUTHSERVERS @ '' -d '' @ ip @ '' -j ACCEPT'']) (auth_servers c))"

definition iptables_fw_set_authservers :: "env \<Rightarrow> world \<Rightarrow> world option" where
  "iptables_fw_set_authservers env w = do_commands env (authserver_commands (w_config w)) w"

section \<open>Setting the firewall up\<close>

definition got_authdown_ruleset :: "s_config \<Rightarrow> bool" where
  "got_authdown_ruleset c \<longleftrightarrow> get_ruleset FWRULESET_AUTH_IS_DOWN c \<noteq> []"

text \<open>\<open>0x%u\<close> prints a decimal number behind the prefix of a hexadecimal one.\<close>

definition mark :: "int \<Rightarrow> string" where
  "mark m = ''0x'' @ show_u32_of_int m"

definition mangle_setup :: "s_config \<Rightarrow> string \<Rightarrow> string list" where
  "mangle_setup c intf = (let down = got_authdown_ruleset c in
     [''-t mangle -N '' @ CHAIN_TRUSTED, ''-t mangle -N '' @ CHAIN_OUTGOING, ''-t mangle -N '' @ CHAIN_INCOMING] @
     (if down then [''-t mangle -N '' @ CHAIN_AUTH_IS_DOWN] else []) @
     [''-t mangle -I PREROUTING 1 -i '' @ intf @ '' -j '' @ CHAIN_OUTGOING,
      ''-t mangle -I PREROUTING 1 -i '' @ intf @ '' -j '' @ CHAIN_TRUSTED] @
     (if down then [''-t mangle -I PREROUTING 1 -i '' @ intf @ '' -j '' @ CHAIN_AUTH_IS_DOWN] else []) @
     [''-t mangle -I POSTROUTING 1 -o '' @ intf @ '' -j '' @ CHAIN_INCOMING] @
     map (\<lambda>mac. ''-t mangle -A '' @ CHAIN_TRUSTED @ '' -m mac --mac-source '' @ mac @ '' -j MARK --set-mark '' @
            show_int FW_MARK_KNOWN) (trustedmaclist c))"

definition nat_setup :: "s_config \<Rightarrow> string \<Rightarrow> string \<Rightarrow> string list" where
  "nat_setup c intf addr = (let down = got_authdown_ruleset c in
     [''-t nat -N '' @ CHAIN_OUTGOING, ''-t nat -N '' @ CHAIN_TO_ROUTER, ''-t nat -N '' @ CHAIN_TO_INTERNET,
      ''-t nat -N '' @ CHAIN_GLOBAL, ''-t nat -N '' @ CHAIN_UNKNOWN, ''-t nat -N '' @ CHAIN_AUTHSERVERS] @
     (if down then [''-t nat -N '' @ CHAIN_AUTH_IS_DOWN] else []) @
     [''-t nat -A PREROUTING -i '' @ intf @ '' -j '' @ CHAIN_OUTGOING,
      ''-t nat -A '' @ CHAIN_OUTGOING @ '' -d '' @ addr @ '' -j '' @ CHAIN_TO_ROUTER,
      ''-t nat -A '' @ CHAIN_TO_ROUTER @ '' -j ACCEPT'',
      ''-t nat -A '' @ CHAIN_OUTGOING @ '' -j '' @ CHAIN_TO_INTERNET] @
     (if proxy_port c \<noteq> 0 then
        map (\<lambda>m. ''-t nat -A '' @ CHAIN_TO_INTERNET @ '' -p tcp --dport 80 -m mark --mark '' @ mark m @
               '' -j REDIRECT --to-port '' @ show_u32_of_int (proxy_port c)) [FW_MARK_KNOWN, FW_MARK_PROBATION]
      else []) @
     [''-t nat -A '' @ CHAIN_TO_INTERNET @ '' -m mark --mark '' @ mark FW_MARK_KNOWN @ '' -j ACCEPT'',
      ''-t nat -A '' @ CHAIN_TO_INTERNET @ '' -m mark --mark '' @ mark FW_MARK_PROBATION @ '' -j ACCEPT'',
      ''-t nat -A '' @ CHAIN_TO_INTERNET @ '' -j '' @ CHAIN_UNKNOWN,
      ''-t nat -A '' @ CHAIN_UNKNOWN @ '' -j '' @ CHAIN_AUTHSERVERS,
      ''-t nat -A '' @ CHAIN_UNKNOWN @ '' -j '' @ CHAIN_GLOBAL] @
     (if down then
        [''-t nat -A '' @ CHAIN_UNKNOWN @ '' -j '' @ CHAIN_AUTH_IS_DOWN,
         ''-t nat -A '' @ CHAIN_AUTH_IS_DOWN @ '' -m mark --mark '' @ mark FW_MARK_AUTH_IS_DOWN @ '' -j ACCEPT'']
      else []) @
     [''-t nat -A '' @ CHAIN_UNKNOWN @ '' -p tcp --dport 80 -j REDIRECT --to-ports '' @ show_int (gw_port c)])"

definition filter_setup :: "s_config \<Rightarrow> string \<Rightarrow> string \<Rightarrow> string list" where
  "filter_setup c intf ext_interface = (let down = got_authdown_ruleset c in
     map (\<lambda>ch. ''-t filter -N '' @ ch) [CHAIN_TO_INTERNET, CHAIN_AUTHSERVERS, CHAIN_LOCKED, CHAIN_GLOBAL,
        CHAIN_VALIDATE, CHAIN_KNOWN, CHAIN_UNKNOWN] @
     (if down then [''-t filter -N '' @ CHAIN_AUTH_IS_DOWN] else []) @
     [''-t filter -I FORWARD -i '' @ intf @ '' -j '' @ CHAIN_TO_INTERNET,
      ''-t filter -A '' @ CHAIN_TO_INTERNET @ '' -m state --state INVALID -j DROP'',
      ''-t filter -A '' @ CHAIN_TO_INTERNET @ '' -o '' @ ext_interface @
        '' -p tcp --tcp-flags SYN,RST SYN -j TCPMSS --clamp-mss-to-pmtu'',
      ''-t filter -A '' @ CHAIN_TO_INTERNET @ '' -j '' @ CHAIN_AUTHSERVERS] @
     authserver_commands c @
     [''-t filter -A '' @ CHAIN_TO_INTERNET @ '' -m mark --mark '' @ mark FW_MARK_LOCKED @ '' -j '' @ CHAIN_LOCKED] @
     ruleset_commands ''filter'' FWRULESET_LOCKED_USERS CHAIN_LOCKED c @
     [''-t filter -A '' @ CHAIN_TO_INTERNET @ '' -j '' @ CHAIN_GLOBAL] @
     ruleset_commands ''filter'' FWRULESET_GLOBAL CHAIN_GLOBAL c @
     ruleset_commands ''nat'' FWRULESET_GLOBAL CHAIN_GLOBAL c @
     [''-t filter -A '' @ CHAIN_TO_INTERNET @ '' -m mark --mark '' @ mark FW_MARK_PROBATION @ '' -j '' @ CHAIN_VALIDATE] @
     ruleset_commands ''filter'' FWRULESET_VALIDATING_USERS CHAIN_VALIDATE c @
     [''-t filter -A '' @ CHAIN_TO_INTERNET @ '' -m mark --mark '' @ mark FW_MARK_KNOWN @ '' -j '' @ CHAIN_KNOWN] @
     ruleset_commands ''filter'' FWRULESET_KNOWN_USERS CHAIN_KNOWN c @
     (if down then
        [''-t filter -A '' @ CHAIN_TO_INTERNET @ '' -m mark --mark '' @ mark FW_MARK_AUTH_IS_DOWN @ '' -j '' @
         CHAIN_AUTH_IS_DOWN] @ ruleset_commands ''filter'' FWRULESET_AUTH_IS_DOWN CHAIN_AUTH_IS_DOWN c
      else []) @
     [''-t filter -A '' @ CHAIN_TO_INTERNET @ '' -j '' @ CHAIN_UNKNOWN] @
     ruleset_commands ''filter'' FWRULESET_UNKNOWN_USERS CHAIN_UNKNOWN c @
     [''-t filter -A '' @ CHAIN_UNKNOWN @ '' -j REJECT --reject-with icmp-port-unreachable''])"

text \<open>\<open>printf\<close> of a NULL string prints \<open>(null)\<close> in glibc.\<close>

definition show_str :: "string option \<Rightarrow> string" where
  "show_str s = (case s of None \<Rightarrow> ''(null)'' | Some t \<Rightarrow> t)"

definition iptables_fw_init :: "env \<Rightarrow> world \<Rightarrow> (int \<times> world) option" where
  "iptables_fw_init env w0 =
     (let w = w0\<lparr>w_fw_quiet := 0\<rparr>; c = w_config w; intf = show_str (gw_interface c)
      in do {
        (ext, w1) \<leftarrow> (case external_interface c of Some e \<Rightarrow> Some (Some e, w) | None \<Rightarrow> get_ext_iface env w);
        (case ext of
           None \<Rightarrow> Some (0, w1)
         | Some ext_interface \<Rightarrow>
             map_option (\<lambda>w2. (1, w2))
               (do_commands env (mangle_setup c intf @ nat_setup c intf (show_str (gw_address c)) @
                  filter_setup c intf ext_interface) w1))
      })"

section \<open>Taking the firewall down\<close>

text \<open>The text behind the first two lines, as \<open>fgetc\<close> skips them.\<close>

definition skip_line :: "string \<Rightarrow> string" where
  "skip_line s = tl (dropWhile (\<lambda>c. c \<noteq> NL) s)"

text \<open>\<open>sscanf (line, "%9[0-9]", rulenum)\<close>.\<close>

definition rule_number :: "string \<Rightarrow> string option" where
  "rule_number line = (let n = takeWhile isdigit (take 9 line) in if n = [] then None else Some n)"

text \<open>The number of the first listed rule that mentions the victim and starts with a number.\<close>

function find_victim :: "string \<Rightarrow> string \<Rightarrow> string option" where
  "find_victim victim out =
     (case fgets MAX_BUF out of
        None \<Rightarrow> None
      | Some (line, rest) \<Rightarrow>
          if strstr (cstr line) victim \<noteq> None \<and> rule_number line \<noteq> None then rule_number line
          else find_victim victim rest)"
  by pat_completeness auto
termination
  by (relation "measure (\<lambda>(victim, out). length out)") (auto dest: fgets_shrinks)

declare find_victim.simps [simp del]

partial_function (option) iptables_fw_destroy_mention ::
  "env \<Rightarrow> string \<Rightarrow> string \<Rightarrow> string \<Rightarrow> world \<Rightarrow> (int \<times> world) option" where
  "iptables_fw_destroy_mention env table chain mention w =
     Option.bind (iptables_insert_gateway_id (w_config w) mention) (\<lambda>victim.
       Option.bind (iptables_insert_gateway_id (w_config w)
           (''iptables -t '' @ table @ '' -L '' @ chain @ '' -n --line-numbers -v'')) (\<lambda>command.
         (case popen env command w of
            (None, w1) \<Rightarrow> Some (0, w1)
          | (Some out, w1) \<Rightarrow>
              (case find_victim victim (skip_line (skip_line out)) of
                 None \<Rightarrow> Some (0, w1)
               | Some rulenum \<Rightarrow>
                   Option.bind (iptables_do_command env (''-t '' @ table @ '' -D '' @ chain @ '' '' @ rulenum) w1)
                     (\<lambda>(rc, w2). Option.bind (iptables_fw_destroy_mention env table chain mention w2)
                        (\<lambda>(r, w3). Some (1, w3)))))))"

text \<open>Several calls whose results are ignored.\<close>

fun destroy_mentions :: "env \<Rightarrow> (string \<times> string \<times> string) list \<Rightarrow> world \<Rightarrow> world option" where
  "destroy_mentions env [] w = Some w"
| "destroy_mentions env ((table, chain, mention) # ms) w =
     (case iptables_fw_destroy_mention env table chain mention w of
        None \<Rightarrow> None | Some (r, w1) \<Rightarrow> destroy_mentions env ms w1)"

definition flush_delete :: "string \<Rightarrow> string list \<Rightarrow> string list" where
  "flush_delete table chs =
     map (\<lambda>ch. ''-t '' @ table @ '' -F '' @ ch) chs @ map (\<lambda>ch. ''-t '' @ table @ '' -X '' @ ch) chs"

definition iptables_fw_destroy :: "env \<Rightarrow> world \<Rightarrow> (int \<times> world) option" where
  "iptables_fw_destroy env w0 =
     (let w = w0\<lparr>w_fw_quiet := 1\<rparr>; down = got_authdown_ruleset (w_config w);
          auth_down = (if down then [CHAIN_AUTH_IS_DOWN] else [])
      in do {
        w1 \<leftarrow> destroy_mentions env
          ([(''mangle'', ''PREROUTING'', CHAIN_TRUSTED), (''mangle'', ''PREROUTING'', CHAIN_OUTGOING)] @
           map (\<lambda>ch. (''mangle'', ''PREROUTING'', ch)) auth_down @
           [(''mangle'', ''POSTROUTING'', CHAIN_INCOMING)]) w;
        w2 \<leftarrow> do_commands env (flush_delete ''mangle'' ([CHAIN_TRUSTED, CHAIN_OUTGOING] @ auth_down @ [CHAIN_INCOMING])) w1;
        w3 \<leftarrow> destroy_mentions env [(''nat'', ''PREROUTING'', CHAIN_OUTGOING)] w2;
        w4 \<leftarrow> do_commands env (flush_delete ''nat'' ([CHAIN_AUTHSERVERS, CHAIN_OUTGOING] @ auth_down @
               [CHAIN_TO_ROUTER, CHAIN_TO_INTERNET, CHAIN_GLOBAL, CHAIN_UNKNOWN])) w3;
        w5 \<leftarrow> destroy_mentions env [(''filter'', ''FORWARD'', CHAIN_TO_INTERNET)] w4;
        w6 \<leftarrow> do_commands env (flush_delete ''filter'' ([CHAIN_TO_INTERNET, CHAIN_AUTHSERVERS, CHAIN_LOCKED,
               CHAIN_GLOBAL, CHAIN_VALIDATE, CHAIN_KNOWN, CHAIN_UNKNOWN] @ auth_down)) w5;
        Some (1, w6)
      })"

section \<open>Access of clients and hosts\<close>

definition client_command :: "string \<Rightarrow> string \<Rightarrow> string \<Rightarrow> int \<Rightarrow> string" where
  "client_command action ip mac tag = ''-t mangle '' @ action @ '' '' @ CHAIN_OUTGOING @ '' -s '' @ ip @
     '' -m mac --mac-source '' @ mac @ '' -j MARK --set-mark '' @ show_int tag"

definition incoming_command :: "string \<Rightarrow> string \<Rightarrow> string" where
  "incoming_command action ip = ''-t mangle '' @ action @ '' '' @ CHAIN_INCOMING @ '' -d '' @ ip @ '' -j ACCEPT''"

fun access_action :: "fw_access_t \<Rightarrow> string" where
  "access_action FW_ACCESS_ALLOW = ''-A''"
| "access_action FW_ACCESS_DENY = ''-D''"

definition iptables_fw_access ::
  "env \<Rightarrow> fw_access_t \<Rightarrow> string \<Rightarrow> string \<Rightarrow> int \<Rightarrow> world \<Rightarrow> (int \<times> world) option" where
  "iptables_fw_access env type ip mac tag w = do {
     (rc1, w1) \<leftarrow> iptables_do_command env (client_command (access_action type) ip mac tag) (w\<lparr>w_fw_quiet := 0\<rparr>);
     iptables_do_command env (incoming_command (access_action type) ip) w1
   }"

definition host_command :: "string \<Rightarrow> string \<Rightarrow> string \<Rightarrow> string" where
  "host_command table action host =
     ''-t '' @ table @ '' '' @ action @ '' '' @ CHAIN_GLOBAL @ '' -d '' @ host @ '' -j ACCEPT''"

definition iptables_fw_access_host :: "env \<Rightarrow> fw_access_t \<Rightarrow> string \<Rightarrow> world \<Rightarrow> (int \<times> world) option" where
  "iptables_fw_access_host env type host w = do {
     (rc1, w1) \<leftarrow> iptables_do_command env (host_command ''nat'' (access_action type) host) (w\<lparr>w_fw_quiet := 0\<rparr>);
     iptables_do_command env (host_command ''filter'' (access_action type) host) w1
   }"

definition iptables_fw_auth_unreachable :: "env \<Rightarrow> int \<Rightarrow> world \<Rightarrow> (int \<times> world) option" where
  "iptables_fw_auth_unreachable env tag w =
     (if got_authdown_ruleset (w_config w)
      then iptables_do_command env (''-t mangle -A '' @ CHAIN_AUTH_IS_DOWN @ '' -j MARK --set-mark '' @ mark tag) w
      else Some (1, w))"

definition iptables_fw_auth_reachable :: "env \<Rightarrow> world \<Rightarrow> (int \<times> world) option" where
  "iptables_fw_auth_reachable env w =
     (if got_authdown_ruleset (w_config w)
      then iptables_do_command env (''-t mangle -F '' @ CHAIN_AUTH_IS_DOWN) w else Some (1, w))"

section \<open>Counters\<close>

text \<open>\<open>%llu\<close> without a sign: the value saturates at \<open>2 ^ 64 - 1\<close>.\<close>

definition scan_llu :: "string \<Rightarrow> (u64 \<times> string) option" where
  "scan_llu s =
     (let t = dropWhile isspace s; d = takeWhile isdigit t
      in if d = [] then None
         else Some (of_nat (min (2 ^ 64 - 1) (read_digits 0 d)), drop (length d) t))"

definition scan_ip :: "string \<Rightarrow> (string \<times> string) option" where
  "scan_ip s =
     (let t = dropWhile isspace s; ip = takeWhile (\<lambda>c. isdigit c \<or> c = CHR ''.'') (take 15 t)
      in if ip = [] then None else Some (ip, drop (length ip) t))"

text \<open>
  One call: the pair of counter and address if both conversions succeeded, and the rest of the
  text. \<open>before\<close> is the number of columns between counter and address, \<open>after\<close> the number
  of tokens behind it.
\<close>

definition scan_entry :: "nat \<Rightarrow> nat \<Rightarrow> string \<Rightarrow> (u64 \<times> string) option \<times> string" where
  "scan_entry before after s =
     (case skip_token s of
        None \<Rightarrow> (None, [])
      | Some s1 \<Rightarrow>
          (case scan_llu s1 of
             None \<Rightarrow> (None, dropWhile isspace s1)
           | Some (counter, s2) \<Rightarrow>
               (case skip_tokens before s2 of
                  None \<Rightarrow> (None, [])
                | Some s3 \<Rightarrow>
                    (case scan_ip s3 of
                       None \<Rightarrow> (None, dropWhile isspace s3)
                     | Some (ip, s4) \<Rightarrow>
                         (Some (counter, ip), case skip_tokens after s4 of None \<Rightarrow> [] | Some s5 \<Rightarrow> s5)))))"

text \<open>\<open>inet_aton\<close> on digits and dots: one to four numbers, decimal or octal, the last one
  filling the rest of the address.\<close>

definition aton_part :: "string \<Rightarrow> nat option" where
  "aton_part s =
     (if s = [] then None
      else if length s > 1 \<and> hd s = CHR ''0'' then
        (if list_all (\<lambda>c. isdigit c \<and> digit_val c < 8) s then Some (fold (\<lambda>c v. 8 * v + digit_val c) s 0) else None)
      else if list_all isdigit s then Some (read_digits 0 s) else None)"

definition inet_aton :: "string \<Rightarrow> bool" where
  "inet_aton s =
     (let ps = map aton_part (strsep_all s (CHR ''.'')); n = length ps
      in n \<le> 4 \<and> None \<notin> set ps \<and> list_all (\<lambda>p. the p \<le> 255) (butlast ps) \<and> the (last ps) < 256 ^ (5 - n))"

definition update_outgoing :: "u64 \<Rightarrow> int \<Rightarrow> t_client \<Rightarrow> t_client" where
  "update_outgoing counter now c = (let k = counters c in
     c\<lparr>counters := k\<lparr>outgoing_delta := outgoing_history k + counter - outgoing k,
        outgoing := outgoing_history k + counter, last_updated := now\<rparr>\<rparr>)"

definition update_incoming :: "u64 \<Rightarrow> t_client \<Rightarrow> t_client" where
  "update_incoming counter c = (let k = counters c in
     c\<lparr>counters := k\<lparr>incoming_delta := incoming_history k + counter - incoming k,
        incoming := incoming_history k + counter\<rparr>\<rparr>)"

definition with_clients :: "client_state \<Rightarrow> world \<Rightarrow> world" where
  "with_clients s w = w\<lparr>w_clients := s\<rparr>"

text \<open>What is done with one line of each listing.\<close>

definition forget_ip :: "env \<Rightarrow> string \<Rightarrow> world \<Rightarrow> world option" where
  "forget_ip env ip w = destroy_mentions env [(''mangle'', CHAIN_OUTGOING, ip), (''mangle'', CHAIN_INCOMING, ip)] w"

definition count_outgoing :: "env \<Rightarrow> u64 \<Rightarrow> string \<Rightarrow> world \<Rightarrow> world option" where
  "count_outgoing env counter ip w =
     (if \<not> inet_aton ip then Some w
      else do {
        p \<leftarrow> client_list_find_by_ip ip (w_clients w);
        (case p of
           None \<Rightarrow> forget_ip env ip w
         | Some a \<Rightarrow> do {
             c \<leftarrow> load (heap (w_clients w)) a;
             if outgoing (counters c) - outgoing_history (counters c) < counter
             then (let (now, w1) = get_time env w in do {
                     s \<leftarrow> modify a (update_outgoing counter now) (w_clients w1);
                     Some (with_clients s w1)
                   })
             else Some w
           })
      })"

definition count_incoming :: "env \<Rightarrow> u64 \<Rightarrow> string \<Rightarrow> world \<Rightarrow> world option" where
  "count_incoming env counter ip w =
     (if \<not> inet_aton ip then Some w
      else do {
        p \<leftarrow> client_list_find_by_ip ip (w_clients w);
        (case p of
           None \<Rightarrow> forget_ip env ip w
         | Some a \<Rightarrow> do {
             c \<leftarrow> load (heap (w_clients w)) a;
             if incoming (counters c) - incoming_history (counters c) < counter
             then do {
               s \<leftarrow> modify a (update_incoming counter) (w_clients w);
               Some (with_clients s w)
             }
             else Some w
           })
      })"

lemma scan_llu_shorter: "scan_llu s = Some (v, r) \<Longrightarrow> length r \<le> length s"
  using length_dropWhile_le [of isspace s] by (auto simp: scan_llu_def Let_def split: if_splits)

lemma scan_ip_shorter: "scan_ip s = Some (v, r) \<Longrightarrow> length r \<le> length s"
  using length_dropWhile_le [of isspace s] by (auto simp: scan_ip_def Let_def split: if_splits)

lemma scan_entry_shorter:
  assumes "s \<noteq> []"
  shows "length (snd (scan_entry before after s)) < length s"
proof (cases "skip_token s")
  case None
  with assms show ?thesis by (simp add: scan_entry_def)
next
  case (Some s1)
  note s1 = Some
  have l1: "length s1 < length s"
    using skip_token_shorter [OF Some] .
  show ?thesis
  proof (cases "scan_llu s1")
    case None
    have "length (dropWhile isspace s1) \<le> length s1"
      by (rule length_dropWhile_le)
    with None s1 l1 show ?thesis by (simp add: scan_entry_def)
  next
    case (Some x)
    then obtain v s2 where s2: "scan_llu s1 = Some (v, s2)" by (cases x) auto
    note l2 = scan_llu_shorter [OF s2]
    show ?thesis
    proof (cases "skip_tokens before s2")
      case None
      with s1 s2 assms show ?thesis by (simp add: scan_entry_def)
    next
      case (Some s3)
      note s3 = Some and l3 = skip_tokens_shorter [OF Some]
      show ?thesis
      proof (cases "scan_ip s3")
        case None
        have "length (dropWhile isspace s3) \<le> length s3"
          by (rule length_dropWhile_le)
        with None s1 s2 s3 l1 l2 l3 show ?thesis by (simp add: scan_entry_def)
      next
        case (Some y)
        then obtain ip s4 where s4: "scan_ip s3 = Some (ip, s4)" by (cases y) auto
        note l4 = scan_ip_shorter [OF s4]
        have "length (case skip_tokens after s4 of None \<Rightarrow> [] | Some s5 \<Rightarrow> s5) \<le> length s4"
          by (auto split: option.split dest: skip_tokens_shorter)
        with s1 s2 s3 s4 l1 l2 l3 l4 show ?thesis by (simp add: scan_entry_def)
      qed
    qed
  qed
qed

lemma scan_entry_eq_shorter: "(r, y) = scan_entry before after s \<Longrightarrow> s \<noteq> [] \<Longrightarrow> length y < length s"
  using scan_entry_shorter [of s before after] by (metis snd_conv)

text \<open>The loop over one listing; \<open>f\<close> is what is done with an entry.\<close>

function count_loop ::
  "(u64 \<Rightarrow> string \<Rightarrow> world \<Rightarrow> world option) \<Rightarrow> nat \<Rightarrow> nat \<Rightarrow> string \<Rightarrow> world \<Rightarrow> world option" where
  "count_loop f before after s w =
     (if s = [] then Some w
      else (case scan_entry before after s of
              (None, rest) \<Rightarrow> count_loop f before after rest w
            | (Some (counter, ip), rest) \<Rightarrow>
                (case f counter ip w of
                   None \<Rightarrow> None
                 | Some w1 \<Rightarrow> count_loop f before after rest w1)))"
  by pat_completeness auto
termination
  by (relation "measure (\<lambda>(f, before, after, s, w). length s)") (auto dest: scan_entry_eq_shorter)

declare count_loop.simps [simp del]

text \<open>The listing of one chain, without its first two lines.\<close>

definition list_chain :: "env \<Rightarrow> string \<Rightarrow> world \<Rightarrow> (string option \<times> world) option" where
  "list_chain env chain w = do {
     script \<leftarrow> iptables_insert_gateway_id (w_config w) (''iptables -v -n -x -t mangle -L '' @ chain);
     (let (out, w1) = popen env script w
      in Some (map_option (\<lambda>o1. skip_line (skip_line o1)) out, w1))
   }"

definition iptables_fw_counters_update :: "env \<Rightarrow> world \<Rightarrow> (int \<times> world) option" where
  "iptables_fw_counters_update env w = do {
     (out, w1) \<leftarrow> list_chain env CHAIN_OUTGOING w;
     (case out of
        None \<Rightarrow> Some (-1, w1)
      | Some s \<Rightarrow> do {
          w2 \<leftarrow> count_loop (count_outgoing env) 5 6 s w1;
          (out2, w3) \<leftarrow> list_chain env CHAIN_INCOMING w2;
          (case out2 of
             None \<Rightarrow> Some (-1, w3)
           | Some s2 \<Rightarrow> do {
               w4 \<leftarrow> count_loop (count_incoming env) 6 0 s2 w3;
               Some (1, w4)
             })
        })
   }"

end
