(* ===== verification/Wd_Util.thy ===== *)
theory Wd_Util
  imports Fw_Iptables
begin

text \<open>
  Connectivity bookkeeping (\<^verbatim>\<open>src/wd_util.c\<close>) and the operations of
  \<^verbatim>\<open>src/firewall.c\<close> that do not talk to the authentication server: allowing and denying
  clients and hosts, the firewall at start and stop, and the ARP lookup.
\<close>

section \<open>Connectivity\<close>

definition is_online :: "world \<Rightarrow> bool" where
  "is_online w \<longleftrightarrow> \<not> (w_last_online_time w = 0 \<or>
     w_last_offline_time w - w_last_online_time w \<ge> checkinterval (w_config w) * 2)"

definition is_auth_online :: "world \<Rightarrow> bool" where
  "is_auth_online w \<longleftrightarrow> is_online w \<and> \<not> (w_last_auth_online_time w = 0 \<or>
     w_last_auth_offline_time w - w_last_auth_online_time w \<ge> checkinterval (w_config w) * 2)"

definition mark_online :: "env \<Rightarrow> world \<Rightarrow> world" where
  "mark_online env w = (let (t, w1) = get_time env w in w1\<lparr>w_last_online_time := t\<rparr>)"

definition mark_auth_offline :: "env \<Rightarrow> world \<Rightarrow> world" where
  "mark_auth_offline env w = (let (t, w1) = get_time env w in w1\<lparr>w_last_auth_offline_time := t\<rparr>)"

definition mark_offline :: "env \<Rightarrow> world \<Rightarrow> world" where
  "mark_offline env w =
     (let (t, w1) = get_time env w in mark_auth_offline env (w1\<lparr>w_last_offline_time := t\<rparr>))"

definition mark_auth_online :: "env \<Rightarrow> world \<Rightarrow> world" where
  "mark_auth_online env w =
     (let (t, w1) = get_time env w in mark_online env (w1\<lparr>w_last_auth_online_time := t\<rparr>))"

section \<open>Clients in the firewall\<close>

text \<open>The strings of a client, which \<open>printf\<close> would need; a NULL there stays out of the model.\<close>

definition client_key :: "t_client \<Rightarrow> (string \<times> string) option" where
  "client_key c = do { ip \<leftarrow> c_ip c; mac \<leftarrow> c_mac c; Some (ip, mac) }"

definition set_fw_state :: "nat \<Rightarrow> int \<Rightarrow> world \<Rightarrow> world option" where
  "set_fw_state a st w = do {
     s \<leftarrow> modify a (\<lambda>c. c\<lparr>fw_connection_state := st\<rparr>) (w_clients w);
     Some (with_clients s w)
   }"

definition fw_deny_raw :: "env \<Rightarrow> string \<Rightarrow> string \<Rightarrow> int \<Rightarrow> world \<Rightarrow> (int \<times> world) option" where
  "fw_deny_raw env ip mac m w = iptables_fw_access env FW_ACCESS_DENY ip mac m w"

definition fw_allow :: "env \<Rightarrow> nat \<Rightarrow> int \<Rightarrow> world \<Rightarrow> (int \<times> world) option" where
  "fw_allow env client new_fw_connection_state w = do {
     c \<leftarrow> load (heap (w_clients w)) client;
     (ip, mac) \<leftarrow> client_key c;
     w1 \<leftarrow> set_fw_state client new_fw_connection_state w;
     (result, w2) \<leftarrow> iptables_fw_access env FW_ACCESS_ALLOW ip mac new_fw_connection_state w1;
     if fw_connection_state c \<noteq> FW_MARK_NONE then do {
       (rc, w3) \<leftarrow> fw_deny_raw env ip mac (fw_connection_state c) w2;
       Some (result, w3)
     }
     else Some (result, w2)
   }"

definition fw_deny :: "env \<Rightarrow> nat \<Rightarrow> world \<Rightarrow> (int \<times> world) option" where
  "fw_deny env client w = do {
     c \<leftarrow> load (heap (w_clients w)) client;
     (ip, mac) \<leftarrow> client_key c;
     w1 \<leftarrow> set_fw_state client FW_MARK_NONE w;
     fw_deny_raw env ip mac (fw_connection_state c) w1
   }"

definition fw_allow_host :: "env \<Rightarrow> string \<Rightarrow> world \<Rightarrow> (int \<times> world) option" where
  "fw_allow_host env host w = iptables_fw_access_host env FW_ACCESS_ALLOW host w"

definition fw_set_authdown :: "env \<Rightarrow> world \<Rightarrow> (int \<times> world) option" where
  "fw_set_authdown env w = iptables_fw_auth_unreachable env FW_MARK_AUTH_IS_DOWN w"

definition fw_set_authup :: "env \<Rightarrow> world \<Rightarrow> (int \<times> world) option" where
  "fw_set_authup env w = iptables_fw_auth_reachable env w"

definition fw_clear_authservers :: "env \<Rightarrow> world \<Rightarrow> world option" where
  "fw_clear_authservers env w = iptables_fw_clear_authservers env w"

definition fw_set_authservers :: "env \<Rightarrow> world \<Rightarrow> world option" where
  "fw_set_authservers env w = iptables_fw_set_authservers env w"

section \<open>Start and stop\<close>

text \<open>The loop over the clients that were inherited from a parent process.\<close>

partial_function (option) restore_clients :: "env \<Rightarrow> ptr \<Rightarrow> world \<Rightarrow> world option" where
  "restore_clients env p w =
     (case p of
        None \<Rightarrow> Some w
      | Some a \<Rightarrow> Option.bind (load (heap (w_clients w)) a) (\<lambda>c.
          Option.bind (set_fw_state a FW_MARK_NONE w) (\<lambda>w1.
            Option.bind (fw_allow env a (fw_connection_state c) w1) (\<lambda>(rc, w2).
              Option.bind (load (heap (w_clients w2)) a) (\<lambda>c2.
                restore_clients env (c_next c2) w2)))))"

text \<open>\<open>icmp_ok\<close> is the result of \<open>init_icmp_socket\<close>.\<close>

definition fw_init :: "env \<Rightarrow> bool \<Rightarrow> world \<Rightarrow> (int \<times> world) option" where
  "fw_init env icmp_ok w =
     (if \<not> icmp_ok then Some (0, w)
      else do {
        (result, w1) \<leftarrow> iptables_fw_init env w;
        if w_restart_orig_pid w1 \<noteq> 0 then do {
          w2 \<leftarrow> restore_clients env (client_get_first_client (w_clients w1)) w1;
          Some (result, w2)
        }
        else Some (result, w1)
      })"

definition fw_destroy :: "env \<Rightarrow> world \<Rightarrow> (int \<times> world) option" where
  "fw_destroy env w = iptables_fw_destroy env w"

section \<open>The ARP table\<close>

text \<open>
  One call of \<open>fscanf\<close>: an address, two columns, a MAC address, two more columns.
\<close>

definition scan_arp_mac :: "string \<Rightarrow> (string \<times> string) option" where
  "scan_arp_mac s =
     (let t = dropWhile isspace s; m = takeWhile (\<lambda>c. isxdigit c \<or> c = CHR '':'') (take 17 t)
      in if m = [] then None else Some (m, drop (length m) t))"

definition scan_arp_entry :: "string \<Rightarrow> ((string \<times> string) \<times> string) option" where
  "scan_arp_entry s = do {
     (ip, s1) \<leftarrow> scan_ip s;
     s2 \<leftarrow> skip_tokens 2 s1;
     (mac, s3) \<leftarrow> scan_arp_mac s2;
     Some ((ip, mac), case skip_tokens 2 s3 of None \<Rightarrow> [] | Some s4 \<Rightarrow> s4)
   }"

lemma scan_arp_shorter: "scan_arp_entry s = Some (e, r) \<Longrightarrow> length r < length s"
proof -
  assume "scan_arp_entry s = Some (e, r)"
  then obtain ip s1 s2 mac s3 where s: "scan_ip s = Some (ip, s1)" "skip_tokens 2 s1 = Some s2"
    "scan_arp_mac s2 = Some (mac, s3)" "r = (case skip_tokens 2 s3 of None \<Rightarrow> [] | Some s4 \<Rightarrow> s4)"
    by (auto simp: scan_arp_entry_def bind_eq_Some_conv)
  have "length s2 < length s1"
  proof -
    from s(2) obtain t where t: "skip_token s1 = Some t" "skip_tokens 1 t = Some s2"
      by (auto simp: numeral_2_eq_2 split: option.splits)
    show ?thesis
      using skip_token_shorter [OF t(1)] skip_tokens_shorter [OF t(2)] by simp
  qed
  moreover have "length s3 \<le> length s2"
    using s(3) length_dropWhile_le [of isspace s2] by (auto simp: scan_arp_mac_def Let_def split: if_splits)
  moreover have "length r \<le> length s3"
    using s(4) by (auto split: option.splits dest: skip_tokens_shorter)
  ultimately show ?thesis
    using scan_ip_shorter [OF s(1)] by simp
qed

function arp_loop :: "string \<Rightarrow> string \<Rightarrow> string option" where
  "arp_loop req_ip s =
     (if s = [] then None
      else (case scan_arp_entry s of
              None \<Rightarrow> None
            | Some ((ip, mac), rest) \<Rightarrow> if ip = req_ip then Some mac else arp_loop req_ip rest))"
  by pat_completeness auto
termination
  by (relation "measure (\<lambda>(req_ip, s). length s)") (auto dest: scan_arp_shorter)

declare arp_loop.simps [simp del]

definition arp_get :: "env \<Rightarrow> string \<Rightarrow> world \<Rightarrow> string option \<times> world" where
  "arp_get env req_ip w =
     (let path = arp_table_path (w_config w); w1 = did (Read_File path) w
      in case e_file env (w_history w) path of
           None \<Rightarrow> (None, w1)
         | Some s \<Rightarrow> (arp_loop req_ip (skip_line s), w1))"

end
