(* ===== verification/Fw_Props.thy ===== *)
theory Fw_Props
  imports Wd_Util "HOL-Library.Multiset"
begin

text \<open>
  What the firewall commands add up to. The first part gives the exact effect of a sequence of
  commands on the world. The second reads the commands on the two chains that hold a
  client's rules as a multiset of rules, the balance of rules appended and deleted, and shows that
  \<open>fw_allow\<close> and \<open>fw_deny\<close> keep it in step with the states of the clients.
  The interface that \<^verbatim>\<open>src/firewall.c\<close> uses is the locale \<open>fw_backend\<close>.
\<close>

section \<open>Commands\<close>

lemma replace_id_none: "strstr s ''$ID$'' = None \<Longrightarrow> replace_id intf s = s"
  by (induction s) (auto simp: numeral_3_eq_3 split: if_splits)

lemma insert_gateway_id_eq:
  assumes "gw_interface c = Some intf" and "CHR ''%'' \<notin> set s"
  shows "iptables_insert_gateway_id c s = Some (replace_id (take CHAIN_NAME_MAX_LEN intf) s)"
  using assms by (auto simp: iptables_insert_gateway_id_def replace_id_none)

text \<open>The shell command for an argument string, and the event that runs it.\<close>

definition shell_of :: "string \<Rightarrow> string \<Rightarrow> string" where
  "shell_of intf s = replace_id (take CHAIN_NAME_MAX_LEN intf) (''iptables '' @ s)"

definition no_percent :: "string \<Rightarrow> bool" where
  "no_percent s \<longleftrightarrow> CHR ''%'' \<notin> set s"

lemma no_percent_simps [simp]:
  "no_percent []" "no_percent (c # s) \<longleftrightarrow> c \<noteq> CHR ''%'' \<and> no_percent s"
  "no_percent (s @ t) \<longleftrightarrow> no_percent s \<and> no_percent t"
  by (auto simp: no_percent_def)

lemma no_percent_show_nat [simp]: "no_percent (show_nat n)"
  using set_show_nat [of "CHR ''%''" n] by (auto simp: no_percent_def char_class_defs)

lemma no_percent_show_int [simp]: "no_percent (show_int i)" "no_percent (show_u32_of_int i)"
  by (simp_all add: show_int_def show_u32_of_int_def)

lemma no_percent_take: "no_percent s \<Longrightarrow> no_percent (take n s)"
  by (auto simp: no_percent_def dest: in_set_takeD)

lemma do_command_eq:
  assumes "gw_interface (w_config w) = Some intf" and "no_percent s"
  shows "iptables_do_command env s w = Some (execute env (shell_of intf s) (w_fw_quiet w) w)"
  using assms insert_gateway_id_eq [of "w_config w" intf "''iptables '' @ s"]
  by (simp add: iptables_do_command_def shell_of_def no_percent_def)

text \<open>The world after some events.\<close>

definition did_all :: "event list \<Rightarrow> world \<Rightarrow> world" where
  "did_all evs w = w\<lparr>w_history := w_history w @ evs\<rparr>"

lemma did_all_simps [simp]:
  "did_all [] w = w" "did_all es (did ev w) = did_all (ev # es) w" "did_all es (did_all fs w) = did_all (fs @ es) w"
  "did ev (did_all fs w) = did_all (fs @ [ev]) w"
  "w_config (did_all es w) = w_config w" "w_clients (did_all es w) = w_clients w"
  "w_fw_quiet (did_all es w) = w_fw_quiet w" "w_history (did_all es w) = w_history w @ es"
  "w_authdown (did_all es w) = w_authdown w"
  by (simp_all add: did_all_def did_def)

lemma did_did_all: "did ev w = did_all [ev] w"
  by (simp add: did_all_def did_def)

lemma do_commands_eq:
  assumes "gw_interface (w_config w) = Some intf" and "list_all no_percent cs"
  shows "do_commands env cs w = Some (did_all (map (\<lambda>s. Exec (shell_of intf s) (w_fw_quiet w)) cs) w)"
  using assms
proof (induction cs arbitrary: w)
  case (Cons s cs)
  then show ?case
    using do_command_eq [of w intf s env] by (simp add: execute_def)
qed simp

section \<open>The balance of the rules of clients\<close>

definition out_rule :: "string \<Rightarrow> string \<Rightarrow> string \<Rightarrow> int \<Rightarrow> string" where
  "out_rule intf ip mac tag = replace_id (take CHAIN_NAME_MAX_LEN intf)
     (CHAIN_OUTGOING @ '' -s '' @ ip @ '' -m mac --mac-source '' @ mac @ '' -j MARK --set-mark '' @ show_int tag)"

definition in_rule :: "string \<Rightarrow> string \<Rightarrow> string" where
  "in_rule intf ip = replace_id (take CHAIN_NAME_MAX_LEN intf) (CHAIN_INCOMING @ '' -d '' @ ip @ '' -j ACCEPT'')"

definition client_rules :: "string \<Rightarrow> string \<Rightarrow> string \<Rightarrow> int \<Rightarrow> string multiset" where
  "client_rules intf ip mac tag = {#out_rule intf ip mac tag, in_rule intf ip#}"

text \<open>A rule of one of the two chains starts with the name of the chain and a space.\<close>

definition of_chain :: "string \<Rightarrow> string \<Rightarrow> string \<Rightarrow> bool" where
  "of_chain intf chain rule \<longleftrightarrow>
     (let name = replace_id (take CHAIN_NAME_MAX_LEN intf) chain @ '' '' in take (length name) rule = name)"

definition of_client_chain :: "string \<Rightarrow> string \<Rightarrow> bool" where
  "of_client_chain intf rule \<longleftrightarrow> of_chain intf CHAIN_OUTGOING rule \<or> of_chain intf CHAIN_INCOMING rule"

definition balance_step :: "string \<Rightarrow> string \<Rightarrow> string multiset \<Rightarrow> string multiset" where
  "balance_step intf cmd M =
     (if take 22 cmd = ''iptables -t mangle -A '' \<and> of_client_chain intf (drop 22 cmd)
      then add_mset (drop 22 cmd) M
      else if take 22 cmd = ''iptables -t mangle -D '' \<and> of_client_chain intf (drop 22 cmd)
      then M - {#drop 22 cmd#}
      else M)"

definition balance :: "string \<Rightarrow> world \<Rightarrow> string multiset" where
  "balance intf w = fold (balance_step intf) (commands (w_history w)) {#}"

lemma balance_did [simp]:
  "balance intf (did (Exec cmd q) w) = balance_step intf cmd (balance intf w)"
  by (simp add: balance_def)

lemma balance_cong: "w_history w' = w_history w \<Longrightarrow> balance intf w' = balance intf w"
  by (simp add: balance_def)

text \<open>The two commands of \<open>iptables_fw_access\<close>, seen through the balance.\<close>

lemma shell_client_command:
  "shell_of intf (client_command act ip mac tag) =
     ''iptables -t mangle '' @ replace_id (take CHAIN_NAME_MAX_LEN intf) (act @ '' '') @ out_rule intf ip mac tag"
  if "act = ''-A'' \<or> act = ''-D''"
  using that by (auto simp: shell_of_def client_command_def out_rule_def CHAIN_OUTGOING_def)

lemma shell_incoming_command:
  "shell_of intf (incoming_command act ip) =
     ''iptables -t mangle '' @ replace_id (take CHAIN_NAME_MAX_LEN intf) (act @ '' '') @ in_rule intf ip"
  if "act = ''-A'' \<or> act = ''-D''"
  using that by (auto simp: shell_of_def incoming_command_def in_rule_def CHAIN_INCOMING_def)

lemma of_client_chain_rules [simp]:
  "of_client_chain intf (out_rule intf ip mac tag)" "of_client_chain intf (in_rule intf ip)"
proof -
  let ?id = "replace_id (take CHAIN_NAME_MAX_LEN intf)"
  have "out_rule intf ip mac tag = (?id CHAIN_OUTGOING @ '' '') @ ?id (''-s '' @ ip @ '' -m mac --mac-source '' @ mac @
      '' -j MARK --set-mark '' @ show_int tag)"
    by (simp add: out_rule_def CHAIN_OUTGOING_def)
  then show "of_client_chain intf (out_rule intf ip mac tag)"
    unfolding of_client_chain_def of_chain_def Let_def by (metis append_eq_conv_conj)
  have "in_rule intf ip = (?id CHAIN_INCOMING @ '' '') @ ?id (''-d '' @ ip @ '' -j ACCEPT'')"
    by (simp add: in_rule_def CHAIN_INCOMING_def)
  then show "of_client_chain intf (in_rule intf ip)"
    unfolding of_client_chain_def of_chain_def Let_def by (metis append_eq_conv_conj)
qed

lemma balance_append: "of_client_chain intf rule \<Longrightarrow>
    balance_step intf (''iptables -t mangle '' @ ''-A '' @ rule) M = add_mset rule M"
  by (simp add: balance_step_def)

lemma balance_delete: "of_client_chain intf rule \<Longrightarrow>
    balance_step intf (''iptables -t mangle '' @ ''-D '' @ rule) M = M - {#rule#}"
  by (simp add: balance_step_def)

text \<open>One call of \<open>iptables_fw_access\<close>.\<close>

lemma access_eq:
  assumes "gw_interface (w_config w) = Some intf" and "no_percent ip" and "no_percent mac"
  shows "\<exists>rc. iptables_fw_access env type ip mac tag w = Some (rc, did_all
    [Exec (shell_of intf (client_command (access_action type) ip mac tag)) 0,
     Exec (shell_of intf (incoming_command (access_action type) ip)) 0] (w\<lparr>w_fw_quiet := 0\<rparr>))"
proof -
  have p: "no_percent (client_command (access_action type) ip mac tag)"
    "no_percent (incoming_command (access_action type) ip)"
    using assms(2,3) by (cases type; simp add: client_command_def incoming_command_def CHAIN_OUTGOING_def
        CHAIN_INCOMING_def)+
  show ?thesis
    using assms(1) by (simp add: iptables_fw_access_def do_command_eq [OF _ p(1)] do_command_eq [OF _ p(2)]
        execute_def did_did_all)
qed

lemma access_balance:
  assumes "gw_interface (w_config w) = Some intf" and "no_percent ip" and "no_percent mac"
    and "iptables_fw_access env type ip mac tag w = Some (rc, w')"
  shows "balance intf w' = (case type of
      FW_ACCESS_ALLOW \<Rightarrow> balance intf w + client_rules intf ip mac tag
    | FW_ACCESS_DENY \<Rightarrow> balance intf w - client_rules intf ip mac tag)"
proof -
  have w': "w' = did_all [Exec (shell_of intf (client_command (access_action type) ip mac tag)) 0,
     Exec (shell_of intf (incoming_command (access_action type) ip)) 0] (w\<lparr>w_fw_quiet := 0\<rparr>)"
    using access_eq [OF assms(1-3), of env type tag] assms(4) by auto
  have "balance intf w' = balance_step intf (shell_of intf (incoming_command (access_action type) ip))
      (balance_step intf (shell_of intf (client_command (access_action type) ip mac tag)) (balance intf w))"
    unfolding w' by (simp add: balance_def)
  moreover have "replace_id i ''-A '' = ''-A ''" "replace_id i ''-D '' = ''-D ''" for i
    by simp_all
  ultimately show ?thesis
    by (cases type) (simp_all add: shell_client_command shell_incoming_command balance_append [simplified]
        balance_delete [simplified] client_rules_def
        add_mset_commute)
qed

section \<open>The interface of the back end\<close>

locale fw_backend =
  fixes rules :: "'w \<Rightarrow> 'r multiset"
    and rules_for :: "string \<Rightarrow> string \<Rightarrow> int \<Rightarrow> 'r multiset"
    and ready :: "'w \<Rightarrow> bool"
    and printable :: "string \<Rightarrow> bool"
    and access :: "fw_access_t \<Rightarrow> string \<Rightarrow> string \<Rightarrow> int \<Rightarrow> 'w \<Rightarrow> (int \<times> 'w) option"
  assumes access_returns: "ready w \<Longrightarrow> printable ip \<Longrightarrow> printable mac \<Longrightarrow>
      \<exists>rc w'. access type ip mac tag w = Some (rc, w') \<and> ready w'"
    and allow_law: "ready w \<Longrightarrow> printable ip \<Longrightarrow> printable mac \<Longrightarrow>
      access FW_ACCESS_ALLOW ip mac tag w = Some (rc, w') \<Longrightarrow> rules w' = rules w + rules_for ip mac tag"
    and deny_law: "ready w \<Longrightarrow> printable ip \<Longrightarrow> printable mac \<Longrightarrow>
      access FW_ACCESS_DENY ip mac tag w = Some (rc, w') \<Longrightarrow> rules w' = rules w - rules_for ip mac tag"
begin

lemma change_tag:
  assumes "ready w" and "printable ip" and "printable mac" and "rules w = rules_for ip mac old + R"
  shows "\<exists>rc1 w1 rc2 w2. access FW_ACCESS_ALLOW ip mac new w = Some (rc1, w1) \<and>
    access FW_ACCESS_DENY ip mac old w1 = Some (rc2, w2) \<and> rules w2 = rules_for ip mac new + R"
proof -
  obtain rc1 w1 where w1: "access FW_ACCESS_ALLOW ip mac new w = Some (rc1, w1)" "ready w1"
    using access_returns [OF assms(1-3)] by blast
  obtain rc2 w2 where w2: "access FW_ACCESS_DENY ip mac old w1 = Some (rc2, w2)"
    using access_returns [OF w1(2) assms(2,3)] by blast
  show ?thesis
    using w1(1) w2 allow_law [OF assms(1-3) w1(1)] deny_law [OF w1(2) assms(2,3) w2] assms(4)
    by (simp add: algebra_simps)
qed

lemma grant_first:
  assumes "ready w" and "printable ip" and "printable mac"
  shows "\<exists>rc w1. access FW_ACCESS_ALLOW ip mac new w = Some (rc, w1) \<and> rules w1 = rules_for ip mac new + rules w"
  using access_returns [OF assms] allow_law [OF assms] by (metis add.commute)

lemma revoke:
  assumes "ready w" and "printable ip" and "printable mac" and "rules w = rules_for ip mac old + R"
  shows "\<exists>rc w1. access FW_ACCESS_DENY ip mac old w = Some (rc, w1) \<and> rules w1 = R"
  using access_returns [OF assms(1-3)] deny_law [OF assms(1-3)] assms(4) by (metis add_diff_cancel_left')

end

interpretation ipt: fw_backend "balance intf" "client_rules intf" "\<lambda>w. gw_interface (w_config w) = Some intf"
  no_percent "iptables_fw_access env" for intf env
proof unfold_locales
  fix w :: world and ip mac type tag
  assume "gw_interface (w_config w) = Some intf" "no_percent ip" "no_percent mac"
  then show "\<exists>rc w'. iptables_fw_access env type ip mac tag w = Some (rc, w') \<and> gw_interface (w_config w') = Some intf"
    using access_eq [of w intf ip mac env type tag] by auto
qed (use access_balance in fastforce)+

section \<open>Rules and client states in step\<close>

definition data_rules :: "string \<Rightarrow> t_client \<Rightarrow> string multiset" where
  "data_rules intf d =
     (if fw_connection_state d = FW_MARK_NONE then {#}
      else client_rules intf (the (c_ip d)) (the (c_mac d)) (fw_connection_state d))"

definition rules_of :: "string \<Rightarrow> (nat \<times> t_client) list \<Rightarrow> string multiset" where
  "rules_of intf ds = sum_list (map (\<lambda>(a, d). data_rules intf d) ds)"

definition set_state :: "nat \<Rightarrow> int \<Rightarrow> (nat \<times> t_client) list \<Rightarrow> (nat \<times> t_client) list" where
  "set_state a st ds = map (\<lambda>(b, d). (b, if b = a then d\<lparr>fw_connection_state := st\<rparr> else d)) ds"

lemma set_state_other: "a \<notin> fst ` set ds \<Longrightarrow> set_state a st ds = ds"
  by (induction ds) (auto simp: set_state_def)

lemma rules_of_split:
  assumes "distinct (map fst ds)" and "(a, d) \<in> set ds"
  obtains R where "rules_of intf ds = data_rules intf d + R"
    and "\<And>st. rules_of intf (set_state a st ds) = data_rules intf (d\<lparr>fw_connection_state := st\<rparr>) + R"
    and "rules_of intf (filter (\<lambda>(b, e). b \<noteq> a) ds) = R"
proof -
  obtain xs ys where ds: "ds = xs @ (a, d) # ys"
    using assms(2) by (auto dest: split_list)
  with assms(1) have a: "a \<notin> fst ` set xs" "a \<notin> fst ` set ys" by auto
  have "set_state a st ds = xs @ (a, d\<lparr>fw_connection_state := st\<rparr>) # ys" for st
    using set_state_other [OF a(1)] set_state_other [OF a(2)] ds by (simp add: set_state_def)
  moreover have "filter (\<lambda>(b, e). b \<noteq> a) ds = xs @ ys"
    using filter_fst_neq [OF a(1)] filter_fst_neq [OF a(2)] ds by simp
  ultimately show ?thesis
    using that [of "rules_of intf xs + rules_of intf ys"] ds by (simp add: rules_of_def algebra_simps)
qed

text \<open>Loading and marking a listed client.\<close>

lemma listed_client:
  assumes "clist s ds" and "(a, d) \<in> set ds"
  obtains c where "load (heap s) a = Some c" and "cdata c = d"
  using dseg_load [of s "firstclient s" ds a d] assms by (auto simp: clist_def)

lemma set_fw_state_spec:
  assumes "clist (w_clients w) ds" and "load (heap (w_clients w)) a = Some c"
  shows "\<exists>s. set_fw_state a st w = Some (with_clients s w) \<and> clist s (set_state a st ds) \<and>
    load (heap s) = (load (heap (w_clients w)))(a \<mapsto> c\<lparr>fw_connection_state := st\<rparr>) \<and>
    firstclient s = firstclient (w_clients w) \<and> client_id s = client_id (w_clients w)"
proof -
  obtain s where "modify a (\<lambda>c. c\<lparr>fw_connection_state := st\<rparr>) (w_clients w) = Some s \<and>
     clist s (map (\<lambda>(b, d). (b, if b = a then d\<lparr>fw_connection_state := st\<rparr> else d)) ds) \<and>
     load (heap s) = (load (heap (w_clients w)))(a \<mapsto> c\<lparr>fw_connection_state := st\<rparr>) \<and>
     firstclient s = firstclient (w_clients w) \<and> client_id s = client_id (w_clients w)"
    using modify_spec [OF assms, of "\<lambda>c. c\<lparr>fw_connection_state := st\<rparr>"] by (auto simp: cdata_def)
  then show ?thesis
    by (intro exI [of _ s]) (simp add: set_fw_state_def set_state_def)
qed

lemma with_clients_simps [simp]:
  "w_clients (with_clients s w) = s" "w_config (with_clients s w) = w_config w"
  "w_history (with_clients s w) = w_history w" "w_fw_quiet (with_clients s w) = w_fw_quiet w"
  "balance intf (with_clients s w) = balance intf w"
  by (simp_all add: with_clients_def balance_def)

lemma access_frame:
  assumes "iptables_fw_access env type ip mac tag w = Some (rc, w')"
    and "gw_interface (w_config w) = Some intf" and "no_percent ip" and "no_percent mac"
  shows "w_clients w' = w_clients w" and "w_config w' = w_config w"
  using access_eq [OF assms(2-4), of env type tag] assms(1) by auto

text \<open>
  A client whose strings the commands can carry, with its address and MAC.
\<close>

definition printable_client :: "t_client \<Rightarrow> bool" where
  "printable_client d \<longleftrightarrow> (\<exists>ip mac. c_ip d = Some ip \<and> c_mac d = Some mac \<and> no_percent ip \<and> no_percent mac)"

lemma fw_allow_spec:
  assumes intf: "gw_interface (w_config w) = Some intf" and ds: "clist (w_clients w) ds" "(a, d) \<in> set ds"
    and d: "printable_client d" and new: "new \<noteq> FW_MARK_NONE" and bal: "balance intf w = rules_of intf ds + R"
  shows "\<exists>rc w'. fw_allow env a new w = Some (rc, w') \<and> clist (w_clients w') (set_state a new ds) \<and>
    balance intf w' = rules_of intf (set_state a new ds) + R \<and> w_config w' = w_config w \<and>
    (\<forall>b. b \<noteq> a \<longrightarrow> load (heap (w_clients w')) b = load (heap (w_clients w)) b)"
proof -
  obtain ip mac where k: "c_ip d = Some ip" "c_mac d = Some mac" "no_percent ip" "no_percent mac"
    using d by (auto simp: printable_client_def)
  obtain c where c: "load (heap (w_clients w)) a = Some c" "cdata c = d"
    using listed_client [OF ds] .
  then have ck: "client_key c = Some (ip, mac)" "fw_connection_state c = fw_connection_state d"
    using k by (auto simp: client_key_def)
  obtain s where s: "set_fw_state a new w = Some (with_clients s w)" "clist s (set_state a new ds)"
    "load (heap s) = (load (heap (w_clients w)))(a \<mapsto> c\<lparr>fw_connection_state := new\<rparr>)"
    using set_fw_state_spec [OF ds(1) c(1)] by blast
  have w1: "gw_interface (w_config (with_clients s w)) = Some intf" using intf by simp
  obtain R' where R': "rules_of intf ds = data_rules intf d + R'"
    "rules_of intf (set_state a new ds) = data_rules intf (d\<lparr>fw_connection_state := new\<rparr>) + R'"
    using rules_of_split [OF dseg_distinct ds(2)] ds(1) unfolding clist_def by metis
  have new_rules: "data_rules intf (d\<lparr>fw_connection_state := new\<rparr>) = client_rules intf ip mac new"
    using new k by (simp add: data_rules_def)
  show ?thesis
  proof (cases "fw_connection_state d = FW_MARK_NONE")
    case True
    then have "data_rules intf d = {#}" by (simp add: data_rules_def)
    moreover obtain rc w2 where w2: "iptables_fw_access env FW_ACCESS_ALLOW ip mac new (with_clients s w) = Some (rc, w2)"
      "balance intf w2 = client_rules intf ip mac new + balance intf w"
      using ipt.grant_first [OF w1 k(3,4), of env new] by auto
    ultimately show ?thesis
      using True c(1) ck s bal R' new_rules access_frame [OF w2(1) w1 k(3,4)]
      by (simp add: fw_allow_def algebra_simps)
  next
    case False
    then have old: "data_rules intf d = client_rules intf ip mac (fw_connection_state d)"
      using k by (simp add: data_rules_def)
    obtain rc1 w2 rc2 w3 where w2: "iptables_fw_access env FW_ACCESS_ALLOW ip mac new (with_clients s w) = Some (rc1, w2)"
      and w3: "iptables_fw_access env FW_ACCESS_DENY ip mac (fw_connection_state d) w2 = Some (rc2, w3)"
      and bal3: "balance intf w3 = client_rules intf ip mac new + (R' + R)"
      using ipt.change_tag [OF w1 k(3,4), of "fw_connection_state d" "R' + R" env new] bal R'(1) old
      by (auto simp: add.assoc)
    have w2': "w_clients w2 = s" "w_config w2 = w_config w"
      using access_frame [OF w2 w1 k(3,4)] by simp_all
    show ?thesis
      using False c(1) ck s w2 w3 bal3 R' new_rules access_frame [OF w3 _ k(3,4)] w2' intf
      by (simp add: fw_allow_def fw_deny_raw_def algebra_simps)
  qed
qed

lemma fw_deny_run:
  assumes intf: "gw_interface (w_config w) = Some intf" and ds: "clist (w_clients w) ds" "(a, d) \<in> set ds"
    and k: "c_ip d = Some ip" "c_mac d = Some mac" "no_percent ip" "no_percent mac"
  shows "\<exists>rc w'. fw_deny env a w = Some (rc, w') \<and> clist (w_clients w') (set_state a FW_MARK_NONE ds) \<and>
    balance intf w' = balance intf w - client_rules intf ip mac (fw_connection_state d) \<and> w_config w' = w_config w \<and>
    (\<forall>b. b \<noteq> a \<longrightarrow> load (heap (w_clients w')) b = load (heap (w_clients w)) b)"
proof -
  obtain c where c: "load (heap (w_clients w)) a = Some c" "cdata c = d"
    using listed_client [OF ds] .
  then have ck: "client_key c = Some (ip, mac)" "fw_connection_state c = fw_connection_state d"
    using k by (auto simp: client_key_def)
  obtain s where s: "set_fw_state a FW_MARK_NONE w = Some (with_clients s w)" "clist s (set_state a FW_MARK_NONE ds)"
    "load (heap s) = (load (heap (w_clients w)))(a \<mapsto> c\<lparr>fw_connection_state := FW_MARK_NONE\<rparr>)"
    using set_fw_state_spec [OF ds(1) c(1)] by blast
  have w1: "gw_interface (w_config (with_clients s w)) = Some intf" using intf by simp
  obtain rc w2 where w2: "iptables_fw_access env FW_ACCESS_DENY ip mac (fw_connection_state d) (with_clients s w) = Some (rc, w2)"
    using ipt.access_returns [OF w1 k(3,4)] by blast
  then have "balance intf w2 = balance intf w - client_rules intf ip mac (fw_connection_state d)"
    using ipt.deny_law [OF w1 k(3,4)] by simp
  then show ?thesis
    using c(1) ck s w2 access_frame [OF w2 w1 k(3,4)] by (simp add: fw_deny_def fw_deny_raw_def)
qed

lemma set_state_same:
  assumes "distinct (map fst ds)" and "(a, d) \<in> set ds"
  shows "set_state a (fw_connection_state d) ds = ds"
proof -
  have "e\<lparr>fw_connection_state := fw_connection_state d\<rparr> = e" if "(a, e) \<in> set ds" for e
    using that assms eq_key_imp_eq_value by fastforce
  then show ?thesis
    unfolding set_state_def by (intro map_idI) auto
qed

section \<open>Properties of access\<close>

text \<open>The two commands that one access change runs.\<close>

definition access_events :: "string \<Rightarrow> fw_access_t \<Rightarrow> string \<Rightarrow> string \<Rightarrow> int \<Rightarrow> event list" where
  "access_events intf type ip mac tag =
     [Exec (shell_of intf (client_command (access_action type) ip mac tag)) 0,
      Exec (shell_of intf (incoming_command (access_action type) ip)) 0]"

lemma fw_allow_events:
  assumes intf: "gw_interface (w_config w) = Some intf" and ds: "clist (w_clients w) ds" "(a, d) \<in> set ds"
    and k: "c_ip d = Some ip" "c_mac d = Some mac" "no_percent ip" "no_percent mac"
    and st: "fw_connection_state d \<noteq> FW_MARK_NONE"
  shows "\<exists>rc w'. fw_allow env a new w = Some (rc, w') \<and>
    w_history w' = w_history w @ access_events intf FW_ACCESS_ALLOW ip mac new @
      access_events intf FW_ACCESS_DENY ip mac (fw_connection_state d)"
proof -
  obtain c where c: "load (heap (w_clients w)) a = Some c" "cdata c = d"
    using listed_client [OF ds] .
  then have ck: "client_key c = Some (ip, mac)" "fw_connection_state c = fw_connection_state d"
    using k by (auto simp: client_key_def)
  obtain s where s: "set_fw_state a new w = Some (with_clients s w)"
    using set_fw_state_spec [OF ds(1) c(1)] by blast
  obtain rc1 where a1: "iptables_fw_access env FW_ACCESS_ALLOW ip mac new (with_clients s w) = Some (rc1,
      did_all (access_events intf FW_ACCESS_ALLOW ip mac new) ((with_clients s w)\<lparr>w_fw_quiet := 0\<rparr>))" (is "_ = Some (_, ?w1)")
    using access_eq [of "with_clients s w" intf ip mac env FW_ACCESS_ALLOW new] intf k(3,4)
    by (auto simp: access_events_def)
  obtain rc2 where "iptables_fw_access env FW_ACCESS_DENY ip mac (fw_connection_state d) ?w1 = Some (rc2,
      did_all (access_events intf FW_ACCESS_DENY ip mac (fw_connection_state d)) (?w1\<lparr>w_fw_quiet := 0\<rparr>))"
    using access_eq [of ?w1 intf ip mac env FW_ACCESS_DENY "fw_connection_state d"] intf k(3,4)
    by (auto simp: access_events_def)
  then show ?thesis
    using c(1) ck s a1 st by (simp add: fw_allow_def fw_deny_raw_def)
qed

lemma balance_access_commands [simp]:
  "balance_step intf (shell_of intf (client_command ''-A'' ip mac tag)) M = add_mset (out_rule intf ip mac tag) M"
  "balance_step intf (shell_of intf (client_command ''-D'' ip mac tag)) M = M - {#out_rule intf ip mac tag#}"
  "balance_step intf (shell_of intf (incoming_command ''-A'' ip)) M = add_mset (in_rule intf ip) M"
  "balance_step intf (shell_of intf (incoming_command ''-D'' ip)) M = M - {#in_rule intf ip#}"
  using balance_append [OF of_client_chain_rules(1)] balance_append [OF of_client_chain_rules(2)]
    balance_delete [OF of_client_chain_rules(1)] balance_delete [OF of_client_chain_rules(2)]
  by (simp_all add: shell_client_command shell_incoming_command)

text \<open>
  C9: When the state of an admitted client changes, \<open>fw_allow\<close> installs the new mark
  before it removes the old one: after every single command that it runs, the balance of the
  rules still holds a marking rule and an accepting rule for the client, so that the
  client is never cut off in between.
\<close>

theorem fw_allow_no_gap:
  assumes "gw_interface (w_config w) = Some intf" and "clist (w_clients w) ds" and "(a, d) \<in> set ds"
    and "c_ip d = Some ip" and "c_mac d = Some mac" and "no_percent ip" and "no_percent mac"
    and "fw_connection_state d \<noteq> FW_MARK_NONE" and "new \<noteq> FW_MARK_NONE"
    and "balance intf w = rules_of intf ds + R"
  shows "\<exists>rc w' evs. fw_allow env a new w = Some (rc, w') \<and> w_history w' = w_history w @ evs \<and>
    (\<forall>k. \<exists>tag. tag \<noteq> FW_MARK_NONE \<and> {#out_rule intf ip mac tag, in_rule intf ip#} \<subseteq>#
       fold (balance_step intf) (commands (w_history w @ take k evs)) {#})"
proof -
  let ?old = "fw_connection_state d"
  let ?evs = "access_events intf FW_ACCESS_ALLOW ip mac new @ access_events intf FW_ACCESS_DENY ip mac ?old"
  obtain R' where "rules_of intf ds = data_rules intf d + R'"
    using rules_of_split [OF dseg_distinct assms(3)] assms(2) unfolding clist_def by metis
  then obtain X where B: "fold (balance_step intf) (commands (w_history w)) {#} =
      add_mset (out_rule intf ip mac ?old) (add_mset (in_rule intf ip) X)"
    using assms(4,5,8,10) by (auto simp: balance_def data_rules_def client_rules_def)
  have "\<exists>tag. tag \<noteq> FW_MARK_NONE \<and> {#out_rule intf ip mac tag, in_rule intf ip#} \<subseteq>#
       fold (balance_step intf) (commands (w_history w @ take k ?evs)) {#}" for k
  proof -
    consider "k = 0" | "k = 1" | "k = 2" | "k = 3" | "4 \<le> k" by linarith
    then show ?thesis
    proof cases
      case 5
      then have "take k ?evs = ?evs" by (simp add: access_events_def)
      with B show ?thesis
        using assms(9) by (intro exI [of _ new]) (simp add: access_events_def add_mset_commute)
    qed (use B assms(8,9) in \<open>(intro exI [of _ ?old], simp add: access_events_def numeral_2_eq_2 add_mset_commute; fail)
        | (intro exI [of _ new], simp add: access_events_def numeral_3_eq_3 add_mset_commute)\<close>)+
  qed
  then show ?thesis
    using fw_allow_events [OF assms(1-8)] by blast
qed

text \<open>A small world: one client, and an outside that answers everything kindly.\<close>

definition kind_env :: env where
  "kind_env = \<lparr>e_exec = (\<lambda>h c. 0), e_popen = (\<lambda>h c. None), e_time = (\<lambda>h. 1000), e_resolve = (\<lambda>h n. Some ''10.1.1.1''),
     e_connect = (\<lambda>h ip port. Connected 7), e_send = (\<lambda>h s. int (length s)), e_recv = (\<lambda>h. []), e_file = (\<lambda>h f. None),
     e_others = (\<lambda>w. w), e_junk = (\<lambda>n. CHR ''x'')\<rparr>"

definition one_client :: "int \<Rightarrow> t_client" where
  "one_client st = zero_client\<lparr>c_id := 1, c_ip := Some ''10.0.0.7'', c_mac := Some ''00:01'', c_token := Some ''t'',
     fw_connection_state := st\<rparr>"

definition one_world :: "int \<Rightarrow> history \<Rightarrow> world" where
  "one_world st h = \<lparr>w_config = config_init\<lparr>gw_interface := Some ''br0''\<rparr>,
     w_clients = \<lparr>heap = [Some (one_client st)], firstclient = Some 0, client_id = 2\<rparr>, w_fw_quiet = 0,
     w_last_online_time = 0, w_last_offline_time = 0, w_last_auth_online_time = 0, w_last_auth_offline_time = 0,
     w_served_this_session = 0, w_started_time = 0, w_restart_orig_pid = 0, w_authdown = False, w_history = h\<rparr>"

lemma one_client_simps [simp]:
  "c_ip (one_client st) = Some ''10.0.0.7''" "c_mac (one_client st) = Some ''00:01''" "c_token (one_client st) = Some ''t''"
  "fw_connection_state (one_client st) = st" "c_id (one_client st) = 1" "counters (one_client st) = zero_counters"
  "cdata (one_client st) = one_client st" "c_next (one_client st) = None" "valid_client (one_client st)"
  by (simp_all add: one_client_def cdata_def zero_client_def valid_client_def)

lemma one_world_simps [simp]:
  "w_config (one_world st h) = config_init\<lparr>gw_interface := Some ''br0''\<rparr>"
  "clist (w_clients (one_world st h)) [(0, one_client st)]" "w_history (one_world st h) = h"
  "load (heap (w_clients (one_world st h))) 0 = Some (one_client st)"
  by (simp_all add: one_world_def clist_def load_def)

lemma one_world_balance:
  assumes "st \<noteq> FW_MARK_NONE"
  shows "balance ''br0'' (one_world st (access_events ''br0'' FW_ACCESS_ALLOW ''10.0.0.7'' ''00:01'' st)) =
    rules_of ''br0'' [(0, one_client st)]"
  using assms by (simp add: balance_def access_events_def rules_of_def data_rules_def client_rules_def add_mset_commute)

theorem fw_allow_no_gap_witness:
  "\<exists>rc w' evs. fw_allow kind_env 0 FW_MARK_KNOWN (one_world FW_MARK_PROBATION
       (access_events ''br0'' FW_ACCESS_ALLOW ''10.0.0.7'' ''00:01'' FW_MARK_PROBATION)) = Some (rc, w') \<and>
    (\<forall>k. \<exists>tag. {#out_rule ''br0'' ''10.0.0.7'' ''00:01'' tag, in_rule ''br0'' ''10.0.0.7''#} \<subseteq>#
       fold (balance_step ''br0'') (commands (access_events ''br0'' FW_ACCESS_ALLOW ''10.0.0.7'' ''00:01'' FW_MARK_PROBATION @
         take k evs)) {#})"
  using fw_allow_no_gap [of "one_world FW_MARK_PROBATION
      (access_events ''br0'' FW_ACCESS_ALLOW ''10.0.0.7'' ''00:01'' FW_MARK_PROBATION)" "''br0''"
      "[(0, one_client FW_MARK_PROBATION)]" 0 "one_client FW_MARK_PROBATION" "''10.0.0.7''" "''00:01''" FW_MARK_KNOWN "{#}"
      kind_env] one_world_balance [of FW_MARK_PROBATION]
  by (simp add: FW_MARK_NONE_def FW_MARK_KNOWN_def FW_MARK_PROBATION_def) blast

text \<open>
  C36: \<open>fw_deny\<close> on a client that has no mark (one that has just shown up and is denied by
  the server) still deletes an accepting rule for its address from the incoming chain: if another
  client with the same address is admitted, that client loses its rule, although the
  states of all clients say that nothing has changed.
\<close>

theorem fw_deny_unmarked:
  assumes "gw_interface (w_config w) = Some intf" and "clist (w_clients w) ds" and "(a, d) \<in> set ds"
    and "c_ip d = Some ip" and "c_mac d = Some mac" and "no_percent ip" and "no_percent mac"
    and "fw_connection_state d = FW_MARK_NONE" and "in_rule intf ip \<in># balance intf w"
  shows "\<exists>rc w'. fw_deny env a w = Some (rc, w') \<and> clist (w_clients w') ds \<and>
    count (balance intf w') (in_rule intf ip) < count (balance intf w) (in_rule intf ip)"
proof -
  obtain rc w' where w': "fw_deny env a w = Some (rc, w')" "clist (w_clients w') (set_state a FW_MARK_NONE ds)"
    "balance intf w' = balance intf w - client_rules intf ip mac FW_MARK_NONE"
    using fw_deny_run [OF assms(1-7), of env] assms(8) by auto
  moreover have "set_state a FW_MARK_NONE ds = ds"
    using set_state_same [OF dseg_distinct assms(3)] assms(2,8) unfolding clist_def by metis
  ultimately show ?thesis
    using assms(9) by (auto simp: client_rules_def)
qed

theorem fw_deny_unmarked_witness:
  "\<exists>rc w'. fw_deny kind_env 0 (one_world FW_MARK_NONE
       (access_events ''br0'' FW_ACCESS_ALLOW ''10.0.0.7'' ''00:02'' FW_MARK_KNOWN)) = Some (rc, w') \<and>
    count (balance ''br0'' w') (in_rule ''br0'' ''10.0.0.7'') <
    count (balance ''br0'' (one_world FW_MARK_NONE
       (access_events ''br0'' FW_ACCESS_ALLOW ''10.0.0.7'' ''00:02'' FW_MARK_KNOWN))) (in_rule ''br0'' ''10.0.0.7'')"
proof -
  let ?w = "one_world FW_MARK_NONE (access_events ''br0'' FW_ACCESS_ALLOW ''10.0.0.7'' ''00:02'' FW_MARK_KNOWN)"
  have "in_rule ''br0'' ''10.0.0.7'' \<in># balance ''br0'' ?w"
    by (simp add: balance_def access_events_def)
  then show ?thesis
    using fw_deny_unmarked [of ?w "''br0''" "[(0, one_client FW_MARK_NONE)]" 0 "one_client FW_MARK_NONE"
        "''10.0.0.7''" "''00:01''" kind_env]
    by auto
qed

section \<open>Traffic counters\<close>

lemma word_guard:
  fixes h c t :: u64
  assumes "unat h \<le> unat t" and "unat h + unat c < 2 ^ 64"
  shows "t - h < c \<longleftrightarrow> unat t < unat h + unat c" and "unat (h + c) = unat h + unat c"
proof -
  have "unat (t - h) = unat t - unat h"
    using assms(1) by (simp add: unat_sub word_le_nat_alt)
  then show "t - h < c \<longleftrightarrow> unat t < unat h + unat c"
    using assms(1) by (auto simp: word_less_nat_alt)
  show "unat (h + c) = unat h + unat c"
    using assms(2) by (simp add: unat_word_ariths)
qed



section \<open>Start and stop\<close>

definition setup_commands :: "s_config \<Rightarrow> string \<Rightarrow> string \<Rightarrow> string \<Rightarrow> string list" where
  "setup_commands c intf addr ext = mangle_setup c intf @ nat_setup c intf addr @ filter_setup c intf ext"

lemma compile_prefix:
  "iptables_compile ''filter'' chain rule = Some cmd \<Longrightarrow> \<exists>r. cmd = ''-t filter -A '' @ r"
  "iptables_compile ''nat'' chain rule = Some cmd \<Longrightarrow> \<exists>r. cmd = ''-t nat -A '' @ r"
  by (auto simp: iptables_compile_def MAX_BUF_def split: if_splits)

lemma ruleset_no_create:
  assumes "x \<in> set (ruleset_commands table rs ch c)" and "table = ''filter'' \<or> table = ''nat''"
  shows "x \<noteq> ''-t mangle -N '' @ y" "x \<noteq> ''-t nat -N '' @ y" "x \<noteq> ''-t filter -N '' @ y"
proof -
  obtain rule where "iptables_compile table ch rule = Some x"
    using assms(1) by (auto simp: ruleset_commands_def split: option.splits)
  with assms(2) obtain r where "x = ''-t filter -A '' @ r \<or> x = ''-t nat -A '' @ r"
    using compile_prefix [of ch rule x] by auto
  then show "x \<noteq> ''-t mangle -N '' @ y" "x \<noteq> ''-t nat -N '' @ y" "x \<noteq> ''-t filter -N '' @ y"
    by auto
qed

lemma authservers_no_create:
  assumes "x \<in> set (authserver_commands c)"
  shows "x \<noteq> ''-t mangle -N '' @ y" "x \<noteq> ''-t nat -N '' @ y" "x \<noteq> ''-t filter -N '' @ y"
  using assms by (auto simp: authserver_commands_def split: option.splits if_splits)

lemma no_create:
  "''-t mangle -N '' @ y \<notin> set (ruleset_commands ''filter'' rs ch c)"
  "''-t nat -N '' @ y \<notin> set (ruleset_commands ''filter'' rs ch c)"
  "''-t filter -N '' @ y \<notin> set (ruleset_commands ''filter'' rs ch c)"
  "''-t mangle -N '' @ y \<notin> set (ruleset_commands ''nat'' rs ch c)"
  "''-t nat -N '' @ y \<notin> set (ruleset_commands ''nat'' rs ch c)"
  "''-t filter -N '' @ y \<notin> set (ruleset_commands ''nat'' rs ch c)"
  "''-t mangle -N '' @ y \<notin> set (authserver_commands c)" "''-t nat -N '' @ y \<notin> set (authserver_commands c)"
  "''-t filter -N '' @ y \<notin> set (authserver_commands c)"
proof -
  have out: "p \<notin> A" if "\<And>x. x \<in> A \<Longrightarrow> x \<noteq> p" for p :: string and A
    using that by blast
  note f = ruleset_no_create [OF _ disjI1 [OF refl]] and n = ruleset_no_create [OF _ disjI2 [OF refl]]
  show "''-t mangle -N '' @ y \<notin> set (ruleset_commands ''filter'' rs ch c)"
    "''-t nat -N '' @ y \<notin> set (ruleset_commands ''filter'' rs ch c)"
    "''-t filter -N '' @ y \<notin> set (ruleset_commands ''filter'' rs ch c)"
    by (rule out, erule f)+
  show "''-t mangle -N '' @ y \<notin> set (ruleset_commands ''nat'' rs ch c)"
    "''-t nat -N '' @ y \<notin> set (ruleset_commands ''nat'' rs ch c)"
    "''-t filter -N '' @ y \<notin> set (ruleset_commands ''nat'' rs ch c)"
    by (rule out, erule n)+
  show "''-t mangle -N '' @ y \<notin> set (authserver_commands c)" "''-t nat -N '' @ y \<notin> set (authserver_commands c)"
    "''-t filter -N '' @ y \<notin> set (authserver_commands c)"
    by (rule out, erule authservers_no_create)+
qed

text \<open>The chains that the setup creates, per table.\<close>

definition down_chain :: "s_config \<Rightarrow> string list" where
  "down_chain c = (if got_authdown_ruleset c then [CHAIN_AUTH_IS_DOWN] else [])"

lemma mangle_created:
  "(''-t mangle -N '' @ ch) \<in> set (mangle_setup c intf) \<Longrightarrow>
     ch \<in> set ([CHAIN_TRUSTED, CHAIN_OUTGOING] @ down_chain c @ [CHAIN_INCOMING])"
  "(''-t nat -N '' @ ch) \<notin> set (mangle_setup c intf)" "(''-t filter -N '' @ ch) \<notin> set (mangle_setup c intf)"
  by (auto simp: mangle_setup_def down_chain_def Let_def split: if_splits)

lemma nat_created:
  "(''-t nat -N '' @ ch) \<in> set (nat_setup c intf addr) \<Longrightarrow>
     ch \<in> set ([CHAIN_AUTHSERVERS, CHAIN_OUTGOING] @ down_chain c @
       [CHAIN_TO_ROUTER, CHAIN_TO_INTERNET, CHAIN_GLOBAL, CHAIN_UNKNOWN])"
  "(''-t mangle -N '' @ ch) \<notin> set (nat_setup c intf addr)" "(''-t filter -N '' @ ch) \<notin> set (nat_setup c intf addr)"
  by (auto simp: nat_setup_def down_chain_def Let_def split: if_splits)

lemma filter_created:
  "(''-t filter -N '' @ ch) \<in> set (filter_setup c intf ext) \<Longrightarrow>
     ch \<in> set ([CHAIN_TO_INTERNET, CHAIN_AUTHSERVERS, CHAIN_LOCKED, CHAIN_GLOBAL, CHAIN_VALIDATE, CHAIN_KNOWN,
       CHAIN_UNKNOWN] @ down_chain c)"
  "(''-t mangle -N '' @ ch) \<notin> set (filter_setup c intf ext)" "(''-t nat -N '' @ ch) \<notin> set (filter_setup c intf ext)"
  by (auto simp: no_create [simplified] filter_setup_def down_chain_def Let_def split: if_splits)

text \<open>
  What is relied on of iptables when rules are removed by number: a deletion that was
  found necessary in a listing leaves less to delete, by some measure of the history.
\<close>

definition listing :: "string \<Rightarrow> string \<Rightarrow> string \<Rightarrow> string" where
  "listing intf table chain = replace_id (take CHAIN_NAME_MAX_LEN intf)
     (''iptables -t '' @ table @ '' -L '' @ chain @ '' -n --line-numbers -v'')"

definition deletes_work :: "env \<Rightarrow> string \<Rightarrow> (history \<Rightarrow> nat) \<Rightarrow> bool" where
  "deletes_work env intf left \<longleftrightarrow> (\<forall>h table chain victim out num q.
     e_popen env h (listing intf table chain) = Some out \<longrightarrow>
     find_victim victim (skip_line (skip_line out)) = Some num \<longrightarrow>
     left (h @ [Popen (listing intf table chain),
       Exec (shell_of intf (''-t '' @ table @ '' -D '' @ chain @ '' '' @ num)) q]) < left h)"

lemma find_victim_digits: "find_victim victim out = Some num \<Longrightarrow> no_percent num"
proof (induction victim out rule: find_victim.induct)
  case (1 victim out)
  then show ?case
    by (subst (asm) (2) find_victim.simps)
      (auto simp: rule_number_def Let_def no_percent_def char_class_defs split: option.splits if_splits prod.splits
        dest: set_takeWhileD)
qed

lemma destroy_mention_returns:
  assumes "deletes_work env intf left" and "gw_interface (w_config w) = Some intf"
    and "no_percent table" and "no_percent chain" and "no_percent mention"
  shows "\<exists>r evs. iptables_fw_destroy_mention env table chain mention w = Some (r, did_all evs w)"
  using assms(2)
proof (induction "left (w_history w)" arbitrary: w rule: less_induct)
  case less
  let ?id = "replace_id (take CHAIN_NAME_MAX_LEN intf)"
  let ?w1 = "did (Popen (listing intf table chain)) w"
  have ids: "iptables_insert_gateway_id (w_config w) mention = Some (?id mention)"
    "iptables_insert_gateway_id (w_config w) (''iptables -t '' @ table @ '' -L '' @ chain @ '' -n --line-numbers -v'') =
       Some (listing intf table chain)"
    using insert_gateway_id_eq [OF less.prems] assms(3-5) by (simp_all add: no_percent_def listing_def)
  note step = iptables_fw_destroy_mention.simps [of env table chain mention w]
  show ?case
  proof (cases "e_popen env (w_history w) (listing intf table chain)")
    case None
    then show ?thesis
      using ids by (subst step) (simp add: popen_def did_did_all, blast)
  next
    case (Some out)
    show ?thesis
    proof (cases "find_victim (?id mention) (skip_line (skip_line out))")
      case None
      with Some show ?thesis
        using ids by (subst step) (simp add: popen_def did_did_all, blast)
    next
      case num: (Some num)
      let ?del = "Exec (shell_of intf (''-t '' @ table @ '' -D '' @ chain @ '' '' @ num)) (w_fw_quiet w)"
      let ?w2 = "did ?del ?w1"
      have "iptables_do_command env (''-t '' @ table @ '' -D '' @ chain @ '' '' @ num) ?w1 =
          Some (e_exec env (w_history ?w1) (shell_of intf (''-t '' @ table @ '' -D '' @ chain @ '' '' @ num)), ?w2)"
        using do_command_eq [of ?w1 intf "''-t '' @ table @ '' -D '' @ chain @ '' '' @ num" env] less.prems
          assms(3,4) find_victim_digits [OF num] by (simp add: execute_def)
      moreover have "left (w_history ?w2) < left (w_history w)"
        using assms(1) Some num unfolding deletes_work_def by simp
      then obtain r evs where "iptables_fw_destroy_mention env table chain mention ?w2 = Some (r, did_all evs ?w2)"
        using less.hyps [of ?w2] less.prems by auto
      ultimately show ?thesis
        using ids Some num by (subst step) (simp add: popen_def, blast)
    qed
  qed
qed

lemma destroy_mentions_return:
  assumes "deletes_work env intf left" and "gw_interface (w_config w) = Some intf"
    and "list_all (\<lambda>(t, ch, m). no_percent t \<and> no_percent ch \<and> no_percent m) ms"
  shows "\<exists>evs. destroy_mentions env ms w = Some (did_all evs w)"
  using assms(2,3)
proof (induction ms arbitrary: w)
  case Nil
  then show ?case
    by (intro exI [of _ "[]"]) simp
next
  case (Cons x ms)
  obtain t ch m where x: "x = (t, ch, m)" by (cases x)
  then obtain r evs where "iptables_fw_destroy_mention env t ch m w = Some (r, did_all evs w)"
    using destroy_mention_returns [OF assms(1) Cons.prems(1), of t ch m] Cons.prems(2) by auto
  moreover obtain evs2 where "destroy_mentions env ms (did_all evs w) = Some (did_all evs2 (did_all evs w))"
    using Cons.IH [of "did_all evs w"] Cons.prems by auto
  ultimately show ?case
    using x by simp blast
qed

lemma chains_no_percent [simp]:
  "no_percent CHAIN_OUTGOING" "no_percent CHAIN_TO_INTERNET" "no_percent CHAIN_TO_ROUTER" "no_percent CHAIN_INCOMING"
  "no_percent CHAIN_AUTHSERVERS" "no_percent CHAIN_GLOBAL" "no_percent CHAIN_VALIDATE" "no_percent CHAIN_KNOWN"
  "no_percent CHAIN_UNKNOWN" "no_percent CHAIN_LOCKED" "no_percent CHAIN_TRUSTED" "no_percent CHAIN_AUTH_IS_DOWN"
  by (simp_all add: chain_defs)

definition flushed :: "string \<Rightarrow> string \<Rightarrow> string list \<Rightarrow> event list" where
  "flushed intf table chs = map (\<lambda>s. Exec (shell_of intf s) 1) (flush_delete table chs)"

lemma flush_delete_eq:
  assumes "gw_interface (w_config w) = Some intf" and "w_fw_quiet w = 1" and "list_all no_percent (table # chs)"
  shows "do_commands env (flush_delete table chs) w = Some (did_all (flushed intf table chs) w)"
proof -
  have "list_all no_percent (flush_delete table chs)"
    using assms(3) by (auto simp: flush_delete_def list_all_iff)
  then show ?thesis
    using do_commands_eq [OF assms(1)] assms(2) by (simp add: flushed_def)
qed

text \<open>The chains that the clean-up removes, per table.\<close>

definition removed_chains :: "s_config \<Rightarrow> string \<Rightarrow> string list" where
  "removed_chains c table =
     (if table = ''mangle'' then [CHAIN_TRUSTED, CHAIN_OUTGOING] @ down_chain c @ [CHAIN_INCOMING]
      else if table = ''nat'' then [CHAIN_AUTHSERVERS, CHAIN_OUTGOING] @ down_chain c @
        [CHAIN_TO_ROUTER, CHAIN_TO_INTERNET, CHAIN_GLOBAL, CHAIN_UNKNOWN]
      else [CHAIN_TO_INTERNET, CHAIN_AUTHSERVERS, CHAIN_LOCKED, CHAIN_GLOBAL, CHAIN_VALIDATE, CHAIN_KNOWN,
        CHAIN_UNKNOWN] @ down_chain c)"

lemma removed_chains_ok: "list_all no_percent (removed_chains c table)"
  by (simp add: removed_chains_def down_chain_def)

lemma created_removed:
  assumes "table \<in> {''mangle'', ''nat'', ''filter''}"
    and "(''-t '' @ table @ '' -N '' @ ch) \<in> set (setup_commands c intf addr ext)"
  shows "ch \<in> set (removed_chains c table)"
proof -
  consider "table = ''mangle''" | "table = ''nat''" | "table = ''filter''"
    using assms(1) by auto
  then show ?thesis
  proof cases
    case 1
    then show ?thesis
      using assms(2) mangle_created(1) [of ch c intf] nat_created(2) [of ch c intf addr] filter_created(2) [of ch c intf ext]
      by (simp add: setup_commands_def removed_chains_def)
  next
    case 2
    then show ?thesis
      using assms(2) mangle_created(2) [of ch c intf] nat_created(1) [of ch c intf addr] filter_created(3) [of ch c intf ext]
      by (simp add: setup_commands_def removed_chains_def)
  next
    case 3
    then show ?thesis
      using assms(2) mangle_created(3) [of ch c intf] nat_created(3) [of ch c intf addr] filter_created(1) [of ch c intf ext]
      by (simp add: setup_commands_def removed_chains_def)
  qed
qed

lemma fw_destroy_events:
  assumes "deletes_work env intf left" and "gw_interface (w_config w) = Some intf"
  shows "\<exists>e1 e2 e3. iptables_fw_destroy env w = Some (1, did_all
    (e1 @ flushed intf ''mangle'' (removed_chains (w_config w) ''mangle'') @
     e2 @ flushed intf ''nat'' (removed_chains (w_config w) ''nat'') @
     e3 @ flushed intf ''filter'' (removed_chains (w_config w) ''filter'')) (w\<lparr>w_fw_quiet := 1\<rparr>))"
proof -
  let ?w = "w\<lparr>w_fw_quiet := 1\<rparr>" and ?c = "w_config w"
  have g: "gw_interface (w_config (did_all evs ?w)) = Some intf" "w_fw_quiet (did_all evs ?w) = 1" for evs
    using assms(2) by simp_all
  have fl: "do_commands env (flush_delete table (removed_chains ?c table)) (did_all evs ?w) =
      Some (did_all (evs @ flushed intf table (removed_chains ?c table)) ?w)" if "no_percent table" for table evs
    using flush_delete_eq [OF g, of table "removed_chains ?c table"] that removed_chains_ok by simp
  have ms: "\<exists>e. destroy_mentions env l (did_all evs ?w) = Some (did_all (evs @ e) ?w)"
    if "list_all (\<lambda>(t, ch, m). no_percent t \<and> no_percent ch \<and> no_percent m) l" for l evs
    using destroy_mentions_return [OF assms(1) g(1) that] by auto
  let ?m1 = "[(''mangle'', ''PREROUTING'', CHAIN_TRUSTED), (''mangle'', ''PREROUTING'', CHAIN_OUTGOING)] @
    map (\<lambda>ch. (''mangle'', ''PREROUTING'', ch)) (down_chain ?c) @ [(''mangle'', ''POSTROUTING'', CHAIN_INCOMING)]"
  obtain e1 where e1: "destroy_mentions env ?m1 ?w = Some (did_all e1 ?w)"
  proof -
    have "list_all (\<lambda>(t, ch, m). no_percent t \<and> no_percent ch \<and> no_percent m) ?m1"
      by (simp add: down_chain_def)
    from ms [OF this, of "[]"] show ?thesis
      using that by (auto simp del: destroy_mentions.simps)
  qed
  let ?f1 = "e1 @ flushed intf ''mangle'' (removed_chains ?c ''mangle'')"
  obtain e2 where e2: "destroy_mentions env [(''nat'', ''PREROUTING'', CHAIN_OUTGOING)] (did_all ?f1 ?w) =
      Some (did_all (?f1 @ e2) ?w)"
    using ms [of "[(''nat'', ''PREROUTING'', CHAIN_OUTGOING)]" ?f1] by (auto simp del: destroy_mentions.simps)
  let ?f2 = "(?f1 @ e2) @ flushed intf ''nat'' (removed_chains ?c ''nat'')"
  obtain e3 where e3: "destroy_mentions env [(''filter'', ''FORWARD'', CHAIN_TO_INTERNET)] (did_all ?f2 ?w) =
      Some (did_all (?f2 @ e3) ?w)"
    using ms [of "[(''filter'', ''FORWARD'', CHAIN_TO_INTERNET)]" ?f2] by (auto simp del: destroy_mentions.simps)
  note d = down_chain_def [of ?c, symmetric]
  have "iptables_fw_destroy env w = Some (1, did_all ((?f2 @ e3) @ flushed intf ''filter'' (removed_chains ?c ''filter'')) ?w)"
    using e1 e2 e3 fl [of "''mangle''" e1] fl [of "''nat''" "?f1 @ e2"] fl [of "''filter''" "?f2 @ e3"]
    unfolding iptables_fw_destroy_def Let_def removed_chains_def
    by (simp add: d del: append_assoc destroy_mentions.simps)
  then show ?thesis by auto
qed

text \<open>
  C11: Provided that deleting rules by number makes progress, \<open>fw_destroy\<close> returns, and it has
  then flushed and deleted every chain that \<open>iptables_fw_init\<close> creates with the same
  configuration, in each of the three tables: stopping the gateway leaves no chain behind.
\<close>

theorem fw_destroy_removes_chains:
  assumes "deletes_work env intf left" and "gw_interface (w_config w) = Some intf"
  shows "\<exists>w'. fw_destroy env w = Some (1, w') \<and>
    (\<forall>table ch i addr ext. table \<in> {''mangle'', ''nat'', ''filter''} \<longrightarrow>
       (''-t '' @ table @ '' -N '' @ ch) \<in> set (setup_commands (w_config w) i addr ext) \<longrightarrow>
       Exec (shell_of intf (''-t '' @ table @ '' -F '' @ ch)) 1 \<in> set (w_history w') \<and>
       Exec (shell_of intf (''-t '' @ table @ '' -X '' @ ch)) 1 \<in> set (w_history w'))"
proof -
  obtain e1 e2 e3 where d: "iptables_fw_destroy env w = Some (1, did_all
    (e1 @ flushed intf ''mangle'' (removed_chains (w_config w) ''mangle'') @
     e2 @ flushed intf ''nat'' (removed_chains (w_config w) ''nat'') @
     e3 @ flushed intf ''filter'' (removed_chains (w_config w) ''filter'')) (w\<lparr>w_fw_quiet := 1\<rparr>))" (is "_ = Some (1, ?w')")
    using fw_destroy_events [OF assms] by blast
  have sub: "set (flushed intf table (removed_chains (w_config w) table)) \<subseteq> set (w_history ?w')"
    if "table \<in> {''mangle'', ''nat'', ''filter''}" for table
    using that by auto
  have "Exec (shell_of intf (''-t '' @ table @ '' -F '' @ ch)) 1 \<in> set (flushed intf table chs) \<and>
      Exec (shell_of intf (''-t '' @ table @ '' -X '' @ ch)) 1 \<in> set (flushed intf table chs)"
    if "ch \<in> set chs" for table ch chs
    using that by (auto simp: flushed_def flush_delete_def image_iff)
  then show ?thesis
    using d created_removed sub unfolding fw_destroy_def by blast
qed

text \<open>An outside whose listings show a rule to delete until something has happened.\<close>

definition busy_env :: env where
  "busy_env = kind_env\<lparr>e_popen := (\<lambda>h cmd. if length h < 4 then Some (''Chain'' @ [NL] @ ''num'' @ [NL] @ ''1 WD_br0_Trusted'' @ [NL])
     else None)\<rparr>"

theorem fw_destroy_removes_chains_witness:
  "\<exists>w'. fw_destroy busy_env (one_world FW_MARK_NONE []) = Some (1, w') \<and>
     Exec (shell_of ''br0'' (''-t '' @ ''mangle'' @ '' -F '' @ CHAIN_TRUSTED)) 1 \<in> set (w_history w') \<and>
     Exec (shell_of ''br0'' (''-t '' @ ''mangle'' @ '' -X '' @ CHAIN_TRUSTED)) 1 \<in> set (w_history w')"
proof -
  have "deletes_work busy_env ''br0'' (\<lambda>h. 4 - length h)"
    by (auto simp: deletes_work_def busy_env_def split: if_splits)
  moreover have "(''-t '' @ ''mangle'' @ '' -N '' @ CHAIN_TRUSTED) \<in>
      set (setup_commands (w_config (one_world FW_MARK_NONE [])) [] [] [])"
    by (simp add: setup_commands_def mangle_setup_def Let_def)
  ultimately show ?thesis
    using fw_destroy_removes_chains [of busy_env "''br0''" "\<lambda>h. 4 - length h" "one_world FW_MARK_NONE []"]
    by (simp del: append_Cons append_Nil) blast
qed

end
