(* ===== verification/Centralserver.thy ===== *)
theory Centralserver
  imports Wd_Util Httpd_Url
begin

text \<open>
  Talking to the authentication servers (\<^verbatim>\<open>src/centralserver.c\<close>, \<^verbatim>\<open>src/simple_http.c\<close>,
  \<^verbatim>\<open>src/ping_thread.c\<close>): finding a server that answers, the HTTP exchange, the
  authentication request and the heartbeat. The build without SSL is modelled.
\<close>

section \<open>Finding a server\<close>

definition wd_gethostbyname :: "env \<Rightarrow> string \<Rightarrow> world \<Rightarrow> string option \<times> world" where
  "wd_gethostbyname env name w = (e_resolve env (w_history w) name, did (Resolve name) w)"

text \<open>The popular servers are resolved in order until one answers.\<close>

fun resolve_popular :: "env \<Rightarrow> string list \<Rightarrow> world \<Rightarrow> bool \<times> world" where
  "resolve_popular env [] w = (False, w)"
| "resolve_popular env (h # hs) w =
     (case wd_gethostbyname env h w of
        (Some ip, w1) \<Rightarrow> (True, w1)
      | (None, w1) \<Rightarrow> resolve_popular env hs w1)"

definition set_last_ip :: "string option \<Rightarrow> world \<Rightarrow> world" where
  "set_last_ip ip w =
     (case auth_servers (w_config w) of
        [] \<Rightarrow> w
      | a # rest \<Rightarrow> w\<lparr>w_config := (w_config w)\<lparr>auth_servers := a\<lparr>last_ip := ip\<rparr> # rest\<rparr>\<rparr>)"

definition mark_bad :: "nat \<Rightarrow> world \<Rightarrow> world" where
  "mark_bad p w = w\<lparr>w_config := mark_auth_server_bad p (w_config w)\<rparr>"

text \<open>The current server has resolved to \<open>ip\<close>: remember it and update the firewall.\<close>

definition note_ip :: "env \<Rightarrow> string \<Rightarrow> t_auth_serv \<Rightarrow> world \<Rightarrow> world option" where
  "note_ip env ip server w =
     (if last_ip server \<noteq> Some ip then do {
        w1 \<leftarrow> fw_clear_authservers env (set_last_ip (Some ip) w);
        fw_set_authservers env w1
      }
      else Some w)"

definition num_servers :: "world \<Rightarrow> nat" where
  "num_servers w = length (auth_servers (w_config w))"

text \<open>
  \<open>fuel\<close> bounds the recursion; \<open>connect_auth_server\<close> starts it with one more than there are
  servers, which is enough, since the level stops it there.
\<close>

fun connect_auth_server_level :: "nat \<Rightarrow> env \<Rightarrow> nat \<Rightarrow> world \<Rightarrow> (int \<times> world) option" where
  "connect_auth_server_level 0 env level w = None"
| "connect_auth_server_level (Suc fuel) env level w =
     (case auth_servers (w_config w) of
        [] \<Rightarrow> Some (-1, w)
      | server # rest \<Rightarrow>
          if level + 1 > num_servers w then Some (-1, w)
          else (case wd_gethostbyname env (authserv_hostname server) w of
            (None, w1) \<Rightarrow>
              (case resolve_popular env (popular_servers (w_config w1)) w1 of
                 (True, w2) \<Rightarrow> connect_auth_server_level fuel env (level + 1) (mark_bad (as_ptr server) (set_last_ip None w2))
               | (False, w2) \<Rightarrow> Some (-1, mark_offline env w2))
          | (Some ip, w1) \<Rightarrow> do {
              w2 \<leftarrow> note_ip env ip server (mark_online env w1);
              let port = authserv_http_port server mod 65536;
              let w3 = did (Connect ip port) w2;
              (case e_connect env (w_history w2) ip port of
                 No_Socket \<Rightarrow> Some (-1, w3)
               | Refused \<Rightarrow> connect_auth_server_level fuel env (level + 1) (mark_bad (as_ptr server) w3)
               | Connected sockfd \<Rightarrow> Some (sockfd, w3))
            }))"

definition connect_auth_server :: "env \<Rightarrow> world \<Rightarrow> (int \<times> world) option" where
  "connect_auth_server env w = do {
     (sockfd, w1) \<leftarrow> connect_auth_server_level (num_servers w + 1) env 0 w;
     Some (sockfd, if sockfd = -1 then mark_auth_offline env w1 else mark_auth_online env w1)
   }"

section \<open>The HTTP exchange\<close>

text \<open>
  The reading loop: NULL on a failure or a time-out, the collected text at the end of the
  stream. At most \<open>MAX_BUF - 1\<close> bytes are read at a time.
\<close>

fun http_read :: "(nat \<Rightarrow> char) \<Rightarrow> sock_event list \<Rightarrow> pstr \<Rightarrow> string option option" where
  "http_read junk [] response = Some (Some (pstr_to_string response))"
| "http_read junk (ev # evs) response =
     (case ev of
        Select_Failed \<Rightarrow> Some None
      | Timed_Out \<Rightarrow> Some None
      | Read_Failed \<Rightarrow> Some None
      | End_Of_File \<Rightarrow> Some (Some (pstr_to_string response))
      | Received s \<Rightarrow>
          (case pstr_cat junk response (cstr (take (MAX_BUF - 1) s)) of
             None \<Rightarrow> None
           | Some response' \<Rightarrow> http_read junk evs response'))"

definition http_get :: "env \<Rightarrow> int \<Rightarrow> string \<Rightarrow> world \<Rightarrow> (string option \<times> world) option" where
  "http_get env sockfd req w =
     (if sockfd = -1 then Some (None, w)
      else (let numbytes = e_send env (w_history w) req; w1 = did (Exchange req) w
            in if numbytes \<noteq> int (length req) \<or> numbytes \<le> 0 then Some (None, w1)
               else do {
                 res \<leftarrow> http_read (e_junk env) (e_recv env (w_history w1)) pstr_new;
                 Some (res, w1)
               }))"

section \<open>Authentication requests\<close>

definition AUTH_ERROR :: int where "AUTH_ERROR = -1"
definition AUTH_DENIED :: int where "AUTH_DENIED = 0"
definition AUTH_ALLOWED :: int where "AUTH_ALLOWED = 1"
definition AUTH_VALIDATION :: int where "AUTH_VALIDATION = 5"
definition AUTH_VALIDATION_FAILED :: int where "AUTH_VALIDATION_FAILED = 6"
definition AUTH_LOCKED :: int where "AUTH_LOCKED = 254"

lemmas auth_code_defs = AUTH_ERROR_def AUTH_DENIED_def AUTH_ALLOWED_def AUTH_VALIDATION_def
  AUTH_VALIDATION_FAILED_def AUTH_LOCKED_def

definition REQUEST_TYPE_LOGIN :: string where "REQUEST_TYPE_LOGIN = ''login''"
definition REQUEST_TYPE_LOGOUT :: string where "REQUEST_TYPE_LOGOUT = ''logout''"
definition REQUEST_TYPE_COUNTERS :: string where "REQUEST_TYPE_COUNTERS = ''counters''"

text \<open>\<open>VERSION\<close> comes from the build.\<close>

definition CRLF :: string where
  "CRLF = [CR, NL]"

definition auth_request_text ::
  "string \<Rightarrow> s_config \<Rightarrow> t_auth_serv \<Rightarrow> string \<Rightarrow> string \<Rightarrow> string \<Rightarrow> string \<Rightarrow> t_counters \<Rightarrow> string" where
  "auth_request_text version c server request_type ip mac token k =
     snprintf (MAX_BUF - 1)
       (''GET '' @ authserv_path server @ authserv_auth_script_path_fragment server @
        ''stage='' @ request_type @ ''&ip='' @ ip @ ''&mac='' @ mac @ ''&token='' @ httpdUrlEncode token @
        ''&incoming='' @ show_u64 (incoming k) @ ''&outgoing='' @ show_u64 (outgoing k) @
        (if deltatraffic c \<noteq> 0
         then ''&incomingdelta='' @ show_u64 (incoming_delta k) @ ''&outgoingdelta='' @ show_u64 (outgoing_delta k)
         else []) @
        ''&gw_id='' @ show_str (gw_id c) @ '' HTTP/1.0'' @ CRLF @
        ''User-Agent: WiFiDog '' @ version @ CRLF @ ''Host: '' @ authserv_hostname server @ CRLF @ CRLF)"

text \<open>The answer: the number behind the first \<open>Auth: \<close>, or an error.\<close>

definition parse_auth_response :: "string option \<Rightarrow> int" where
  "parse_auth_response res =
     (case res of
        None \<Rightarrow> AUTH_ERROR
      | Some s \<Rightarrow>
          (case strstr s ''Auth: '' of
             None \<Rightarrow> AUTH_ERROR
           | Some tmp \<Rightarrow>
               (case sscanf_d (drop 6 tmp) of None \<Rightarrow> AUTH_ERROR | Some authcode \<Rightarrow> authcode)))"

text \<open>
  The server is taken before the connection is made: a pointer, whose struct is read after
  it. The struct is found again by its identity.
\<close>

definition server_at :: "nat \<Rightarrow> s_config \<Rightarrow> t_auth_serv option" where
  "server_at p c = List.find (\<lambda>a. as_ptr a = p) (auth_servers c)"

definition auth_server_request ::
  "env \<Rightarrow> string \<Rightarrow> string \<Rightarrow> string \<Rightarrow> string \<Rightarrow> string \<Rightarrow> t_counters \<Rightarrow> world \<Rightarrow> (int \<times> world) option" where
  "auth_server_request env version request_type ip mac token k w = do {
     (sockfd, w1) \<leftarrow> connect_auth_server env w;
     server0 \<leftarrow> get_auth_server (w_config w);
     server \<leftarrow> server_at (as_ptr server0) (w_config w1);
     (res, w2) \<leftarrow> http_get env sockfd (auth_request_text version (w_config w1) server request_type ip mac token k) w1;
     Some (parse_auth_response res, w2)
   }"

section \<open>The heartbeat\<close>

text \<open>
  What is read from \<open>/proc\<close>. The load is a floating point number: \<open>avg\<close>, an argument of the
  heartbeat, turns the text of \<open>/proc/loadavg\<close> into what \<open>%.2f\<close> prints of it.
\<close>

record sys_info =
  sys_uptime :: u64
  sys_memfree :: u32
  sys_load :: string

text \<open>
  Literal characters of a \<open>fscanf\<close> format: \<^term>\<open>None\<close> at the end of the text, otherwise
  whether all of them were there, and the text left.
\<close>

fun match_literal :: "string \<Rightarrow> string \<Rightarrow> (bool \<times> string) option" where
  "match_literal [] s = Some (True, s)"
| "match_literal (c # cs) [] = None"
| "match_literal (c # cs) (d # s) = (if c = d then match_literal cs s else Some (False, d # s))"

text \<open>\<open>MemFree: %u\<close>: the end of the file, no match, or the number, cut to 32 bits.\<close>

datatype memfree_scan = Scan_End | Scan_Stop string | Scan_Value u32

definition scan_memfree :: "string \<Rightarrow> memfree_scan" where
  "scan_memfree s =
     (case match_literal ''MemFree:'' s of
        None \<Rightarrow> Scan_End
      | Some (ok, r) \<Rightarrow>
          if \<not> ok then Scan_Stop r
          else if dropWhile isspace r = [] then Scan_End
          else (case scan_llu r of
                  None \<Rightarrow> Scan_Stop (dropWhile isspace r)
                | Some (v, r') \<Rightarrow> Scan_Value (ucast v)))"

lemma match_literal_shorter: "match_literal cs s = Some (ok, r) \<Longrightarrow> length r \<le> length s"
  by (induction cs s rule: match_literal.induct) (auto split: if_splits)

lemma scan_memfree_shorter: "scan_memfree s = Scan_Stop r \<Longrightarrow> length r \<le> length s"
  using le_trans [OF length_dropWhile_le [of isspace]] match_literal_shorter [of "''MemFree:''" s]
  by (auto simp: scan_memfree_def simp del: match_literal.simps split: option.splits if_splits)

function read_memfree :: "string \<Rightarrow> u32" where
  "read_memfree s =
     (case scan_memfree s of
        Scan_End \<Rightarrow> 0
      | Scan_Value v \<Rightarrow> v
      | Scan_Stop r \<Rightarrow> (case dropWhile (\<lambda>c. c \<noteq> NL) r of [] \<Rightarrow> 0 | c # r' \<Rightarrow> read_memfree r'))"
  by pat_completeness auto
termination
proof (relation "measure length", goal_cases)
  case (2 s r c r')
  have "length r \<le> length s"
    using 2(1) by (rule scan_memfree_shorter)
  moreover have "length (c # r') \<le> length r"
    unfolding 2(2) [symmetric] by (rule length_dropWhile_le)
  ultimately show ?case
    by simp
qed simp

declare read_memfree.simps [simp del]

definition read_uptime :: "string \<Rightarrow> u64" where
  "read_uptime s = (case scan_llu s of None \<Rightarrow> 0 | Some (v, r) \<Rightarrow> v)"

definition read_sys_info :: "env \<Rightarrow> (string option \<Rightarrow> string) \<Rightarrow> world \<Rightarrow> sys_info \<times> world" where
  "read_sys_info env avg w =
     (let w1 = did (Read_File ''/proc/uptime'') w;
          w2 = did (Read_File ''/proc/meminfo'') w1;
          w3 = did (Read_File ''/proc/loadavg'') w2
      in (\<lparr>sys_uptime = (case e_file env (w_history w) ''/proc/uptime'' of None \<Rightarrow> 0 | Some s \<Rightarrow> read_uptime s),
           sys_memfree = (case e_file env (w_history w1) ''/proc/meminfo'' of None \<Rightarrow> 0 | Some s \<Rightarrow> read_memfree s),
           sys_load = avg (e_file env (w_history w2) ''/proc/loadavg'')\<rparr>, w3))"

definition ping_request :: "string \<Rightarrow> sys_info \<Rightarrow> int \<Rightarrow> s_config \<Rightarrow> t_auth_serv \<Rightarrow> string" where
  "ping_request version info uptime c server =
     snprintf (MAX_BUF - 1)
       (''GET '' @ authserv_path server @ authserv_ping_script_path_fragment server @ ''gw_id='' @ show_str (gw_id c) @
        ''&sys_uptime='' @ show_u64 (sys_uptime info) @ ''&sys_memfree='' @ show_nat (unat (sys_memfree info)) @ ''&sys_load='' @ sys_load info @
        ''&wifidog_uptime='' @ show_nat (nat (uptime mod 2 ^ 64)) @ '' HTTP/1.0'' @ CRLF @
        ''User-Agent: WiFiDog '' @ version @ CRLF @ ''Host: '' @ authserv_hostname server @ CRLF @ CRLF)"

definition set_authdown :: "env \<Rightarrow> world \<Rightarrow> world option" where
  "set_authdown env w =
     (if w_authdown w then Some w
      else do { (rc, w1) \<leftarrow> fw_set_authdown env w; Some (w1\<lparr>w_authdown := True\<rparr>) })"

definition ping :: "env \<Rightarrow> string \<Rightarrow> (string option \<Rightarrow> string) \<Rightarrow> world \<Rightarrow> world option" where
  "ping env version avg w = do {
     (sockfd, w1) \<leftarrow> connect_auth_server env w;
     if sockfd = -1 then set_authdown env w1
     else do {
       server0 \<leftarrow> get_auth_server (w_config w);
       server \<leftarrow> server_at (as_ptr server0) (w_config w1);
       let (info, w1') = read_sys_info env avg w1;
       let (now, w2) = get_time env w1';
       (res, w3) \<leftarrow> http_get env sockfd
          (ping_request version info (now - w_started_time w2) (w_config w2) server) w2;
       (case res of
          None \<Rightarrow> set_authdown env w3
        | Some s \<Rightarrow>
            if strstr s ''Pong'' = None then set_authdown env w3
            else if w_authdown w3 then do {
              (rc, w4) \<leftarrow> fw_set_authup env w3;
              Some (w4\<lparr>w_authdown := False\<rparr>)
            }
            else Some w3)
     }
   }"

text \<open>
  The thread after \<open>n\<close> rounds of its endless loop; while it sleeps, other threads act.
\<close>

fun thread_ping :: "env \<Rightarrow> string \<Rightarrow> (string option \<Rightarrow> string) \<Rightarrow> nat \<Rightarrow> world \<Rightarrow> world option" where
  "thread_ping env version avg 0 w = Some w"
| "thread_ping env version avg (Suc n) w = do {
     w1 \<leftarrow> ping env version avg w;
     let (now, w2) = get_time env w1;
     thread_ping env version avg n (yield_clients env w2)
   }"

end
