(* ===== verification/Auth.thy ===== *)
theory Auth
  imports Centralserver Httpd_Serve
begin

text \<open>
  Logging clients in and out (\<^verbatim>\<open>src/auth.c\<close>), the periodic synchronisation with the
  authentication server (\<open>fw_sync_with_authserver\<close> of \<^verbatim>\<open>src/firewall.c\<close>), and the pages and
  redirects of \<^verbatim>\<open>src/http.c\<close> that both use.

  The client list lock is held by the callers where the C code says so. Between an unlock and
  the next lock the list may be changed by other threads: \<^const>\<open>yield_clients\<close>.
\<close>

section \<open>Pages and redirects\<close>

text \<open>
  \<open>send_http_page\<close>: a message file that cannot be opened, examined or read ends it
  without an answer. \<open>strdup\<close> of a gateway id that is NULL is undefined.
\<close>

definition send_http_page ::
  "env \<Rightarrow> io \<Rightarrow> 'f request \<Rightarrow> string \<Rightarrow> string \<Rightarrow> world \<Rightarrow> ('f request \<times> world) option" where
  "send_http_page env io r title message w =
     (let path = htmlmsgfile (w_config w); w1 = did (Read_File path) w
      in case e_file env (w_history w) path of
           None \<Rightarrow> Some (r, w1)
         | Some buffer \<Rightarrow> do {
             node \<leftarrow> gw_id (w_config w);
             r1 \<leftarrow> httpdOutput io (cstr buffer)
                    (httpdAddVariable ''nodeID'' node
                      (httpdAddVariable ''message'' message (httpdAddVariable ''title'' title r)));
             Some (r1, w1)
           })"

definition http_send_redirect ::
  "env \<Rightarrow> io \<Rightarrow> 'f request \<Rightarrow> string \<Rightarrow> string option \<Rightarrow> world \<Rightarrow> ('f request \<times> world) option" where
  "http_send_redirect env io r url text w = do {
     r1 \<leftarrow> httpdAddHeader (''Location: '' @ url)
            (httpdSetResponse (''302 '' @ (case text of Some t \<Rightarrow> t | None \<Rightarrow> ''Redirecting'') @ [NL]) r);
     send_http_page env io r1 (case text of Some t \<Rightarrow> t | None \<Rightarrow> ''Redirection to message'')
       (''Please <a href='' @ [chr 39] @ url @ [chr 39] @ ''>click here</a>.'') w
   }"

definition http_send_redirect_to_auth ::
  "env \<Rightarrow> io \<Rightarrow> 'f request \<Rightarrow> string \<Rightarrow> string option \<Rightarrow> world \<Rightarrow> ('f request \<times> world) option" where
  "http_send_redirect_to_auth env io r urlFragment text w = do {
     auth_server \<leftarrow> get_auth_server (w_config w);
     let (protocol, port) = (if authserv_use_ssl auth_server \<noteq> 0
                             then (''https'', authserv_ssl_port auth_server)
                             else (''http'', authserv_http_port auth_server));
     http_send_redirect env io r
       (protocol @ ''://'' @ authserv_hostname auth_server @ '':'' @ show_int port @ authserv_path auth_server @
        urlFragment) text w
   }"

section \<open>Logging out\<close>

text \<open>Telling the server, with the lock given up; the client is off the list already.\<close>

definition report_logout :: "env \<Rightarrow> string \<Rightarrow> nat \<Rightarrow> world \<Rightarrow> world option" where
  "report_logout env version client w =
     (if auth_servers (w_config w) \<noteq> [] then do {
        c \<leftarrow> load (heap (w_clients w)) client;
        ip \<leftarrow> c_ip c;
        mac \<leftarrow> c_mac c;
        token \<leftarrow> c_token c;
        (authcode, w1) \<leftarrow> auth_server_request env version REQUEST_TYPE_LOGOUT ip mac token (counters c) w;
        Some (yield_clients env w1)
      }
      else Some w)"

definition logout_client :: "env \<Rightarrow> string \<Rightarrow> nat \<Rightarrow> world \<Rightarrow> world option" where
  "logout_client env version client w = do {
     (rc, w1) \<leftarrow> fw_deny env client w;
     s \<leftarrow> client_list_remove client (w_clients w1);
     w3 \<leftarrow> report_logout env version client (with_clients s w1);
     s3 \<leftarrow> client_free_node client (w_clients w3);
     Some (with_clients s3 w3)
   }"

section \<open>Logging in\<close>

definition GATEWAY_MESSAGE_DENIED :: string where "GATEWAY_MESSAGE_DENIED = ''denied''"
definition GATEWAY_MESSAGE_ACTIVATE_ACCOUNT :: string where "GATEWAY_MESSAGE_ACTIVATE_ACCOUNT = ''activate''"
definition GATEWAY_MESSAGE_ACCOUNT_VALIDATION_FAILED :: string where
  "GATEWAY_MESSAGE_ACCOUNT_VALIDATION_FAILED = ''failed_validation''"

definition message_fragment :: "t_auth_serv \<Rightarrow> string \<Rightarrow> string \<Rightarrow> string" where
  "message_fragment auth_server msg token =
     authserv_msg_script_path_fragment auth_server @ ''message='' @ msg @ ''&token='' @ token"

text \<open>The switch over the answer of the server, for the client at \<open>a\<close> with its new token.\<close>

definition auth_verdict ::
  "env \<Rightarrow> io \<Rightarrow> int \<Rightarrow> nat \<Rightarrow> string \<Rightarrow> 'f request \<Rightarrow> world \<Rightarrow> ('f request \<times> world) option" where
  "auth_verdict env io authcode a token r w =
     (if authcode = AUTH_ERROR then
        send_http_page env io r ''Error!'' ''Error: We did not get a valid answer from the central server'' w
      else if authcode = AUTH_DENIED then do {
        (rc, w1) \<leftarrow> fw_deny env a w;
        auth_server \<leftarrow> get_auth_server (w_config w);
        http_send_redirect_to_auth env io r (message_fragment auth_server GATEWAY_MESSAGE_DENIED token)
          (Some ''Redirect to denied message'') w1
      }
      else if authcode = AUTH_VALIDATION then do {
        (rc, w1) \<leftarrow> fw_allow env a FW_MARK_PROBATION w;
        auth_server \<leftarrow> get_auth_server (w_config w);
        http_send_redirect_to_auth env io r (message_fragment auth_server GATEWAY_MESSAGE_ACTIVATE_ACCOUNT token)
          (Some ''Redirect to activate message'') w1
      }
      else if authcode = AUTH_ALLOWED then do {
        (rc, w1) \<leftarrow> fw_allow env a FW_MARK_KNOWN w;
        auth_server \<leftarrow> get_auth_server (w_config w);
        http_send_redirect_to_auth env io r
          (authserv_portal_script_path_fragment auth_server @ ''gw_id='' @ show_str (gw_id (w_config w)) @
           ''&token='' @ token) (Some ''Redirect to portal'')
          (w1\<lparr>w_served_this_session := w_served_this_session w1 + 1\<rparr>)
      }
      else if authcode = AUTH_VALIDATION_FAILED then do {
        auth_server \<leftarrow> get_auth_server (w_config w);
        http_send_redirect_to_auth env io r
          (message_fragment auth_server GATEWAY_MESSAGE_ACCOUNT_VALIDATION_FAILED token)
          (Some ''Redirect to failed validation message'') w
      }
      else send_http_page env io r ''Internal Error'' ''We can not validate your request at this time'' w)"

definition authenticate_client ::
  "env \<Rightarrow> io \<Rightarrow> string \<Rightarrow> 'f request \<Rightarrow> world \<Rightarrow> ('f request \<times> world) option" where
  "authenticate_client env io version r w = do {
     p \<leftarrow> client_list_find_by_ip (clientAddr r) (w_clients w);
     (q, s) \<leftarrow> client_dup p (w_clients w);
     (case q of
        None \<Rightarrow> Some (r, with_clients s w)
      | Some b \<Rightarrow> do {
          let w1 = with_clients s w;
          c \<leftarrow> load (heap s) b;
          ip \<leftarrow> c_ip c;
          mac \<leftarrow> c_mac c;
          token \<leftarrow> (case httpdGetVariableByName r ''token'' of
                      Some var \<Rightarrow> Some (v_value var)
                    | None \<Rightarrow> c_token c);
          (authcode, w2) \<leftarrow> auth_server_request env version REQUEST_TYPE_LOGIN ip mac token zero_counters w1;
          let w3 = yield_clients env w2;
          tmp \<leftarrow> client_list_find_by_client b (w_clients w3);
          s4 \<leftarrow> client_list_destroy (Some b) (w_clients w3);
          let w4 = with_clients s4 w3;
          (case tmp of
             None \<Rightarrow> Some (r, w4)
           | Some a \<Rightarrow> do {
               d \<leftarrow> load (heap s4) a;
               old \<leftarrow> c_token d;
               s5 \<leftarrow> (if token \<noteq> old then modify a (\<lambda>d. d\<lparr>c_token := Some token\<rparr>) s4 else Some s4);
               auth_verdict env io authcode a token r (with_clients s5 w4)
             })
        })
   }"

section \<open>Synchronisation\<close>

definition clear_counters :: "t_client \<Rightarrow> t_client" where
  "clear_counters c = c\<lparr>counters := (counters c)\<lparr>incoming_delta := 0, outgoing_delta := 0, incoming := 0,
     outgoing := 0\<rparr>\<rparr>"

text \<open>What the answer of the server changes for the client at \<open>a\<close>.\<close>

definition sync_verdict :: "env \<Rightarrow> int \<Rightarrow> nat \<Rightarrow> world \<Rightarrow> world option" where
  "sync_verdict env authcode a w =
     (if authcode = AUTH_DENIED \<or> authcode = AUTH_VALIDATION_FAILED then do {
        (rc, w1) \<leftarrow> fw_deny env a w;
        s \<leftarrow> client_list_delete a (w_clients w1);
        Some (with_clients s w1)
      }
      else if authcode = AUTH_ALLOWED then do {
        c \<leftarrow> load (heap (w_clients w)) a;
        if fw_connection_state c \<noteq> FW_MARK_KNOWN then do {
          s \<leftarrow> (if fw_connection_state c \<noteq> FW_MARK_PROBATION then modify a clear_counters (w_clients w)
                else Some (w_clients w));
          (rc, w1) \<leftarrow> fw_allow env a FW_MARK_KNOWN (with_clients s w);
          Some w1
        }
        else Some w
      }
      else Some w)"

text \<open>
  One round of the loop, for the copy at \<open>p1\<close>. The sum of time and time-out is taken over
  the integers.
\<close>

definition sync_client :: "env \<Rightarrow> string \<Rightarrow> nat \<Rightarrow> world \<Rightarrow> world option" where
  "sync_client env version p1 w = do {
     c \<leftarrow> load (heap (w_clients w)) p1;
     ip \<leftarrow> c_ip c;
     mac \<leftarrow> c_mac c;
     token \<leftarrow> c_token c;
     let w1 = did (Icmp ip) w;
     (authcode, w2) \<leftarrow> (if auth_servers (w_config w1) \<noteq> []
                        then auth_server_request env version REQUEST_TYPE_COUNTERS ip mac token (counters c) w1
                        else Some (AUTH_ERROR, w1));
     let (current_time, w3) = get_time env w2;
     let w4 = yield_clients env w3;
     tmp \<leftarrow> client_list_find_by_client p1 (w_clients w4);
     (case tmp of
        None \<Rightarrow> Some w4
      | Some a \<Rightarrow>
          if last_updated (counters c) + checkinterval (w_config w4) * clienttimeout (w_config w4) \<le> current_time
          then logout_client env version a w4
          else if auth_servers (w_config w4) \<noteq> [] then sync_verdict env authcode a w4
          else Some w4)
   }"

partial_function (option) sync_loop :: "env \<Rightarrow> string \<Rightarrow> ptr \<Rightarrow> world \<Rightarrow> world option" where
  "sync_loop env version p1 w =
     (case p1 of
        None \<Rightarrow> Some w
      | Some a \<Rightarrow> Option.bind (load (heap (w_clients w)) a) (\<lambda>c.
          Option.bind (sync_client env version a w) (\<lambda>w1. sync_loop env version (c_next c) w1)))"

definition fw_sync_with_authserver :: "env \<Rightarrow> string \<Rightarrow> world \<Rightarrow> world option" where
  "fw_sync_with_authserver env version w = do {
     (rc, w1) \<leftarrow> iptables_fw_counters_update env w;
     if rc = -1 then Some w1
     else do {
       (worklist, n, s) \<leftarrow> client_list_dup (w_clients w1);
       w2 \<leftarrow> sync_loop env version worklist (with_clients s w1);
       s2 \<leftarrow> client_list_destroy worklist (w_clients w2);
       Some (with_clients s2 w2)
     }
   }"

text \<open>
  The thread after \<open>n\<close> rounds of its endless loop; while it sleeps, other threads act.
\<close>

fun thread_client_timeout_check :: "env \<Rightarrow> string \<Rightarrow> nat \<Rightarrow> world \<Rightarrow> world option" where
  "thread_client_timeout_check env version 0 w = Some w"
| "thread_client_timeout_check env version (Suc n) w = do {
     let (now, w1) = get_time env w;
     w2 \<leftarrow> fw_sync_with_authserver env version (yield_clients env w1);
     thread_client_timeout_check env version n w2
   }"

end
