(* ===== verification/Central_Props.thy ===== *)
theory Central_Props
  imports Centralserver Fw_Props Conf_Props
begin

text \<open>
  The talk with the authentication servers: it always returns, it leaves the clients and
  their firewall rules alone and only turns the ring of servers, and it finds a server that
  works if there is one. The answer to a request is the text that the server sent.
\<close>

section \<open>What the talk leaves alone\<close>

definition server_ptrs :: "world \<Rightarrow> nat list" where
  "server_ptrs w = map as_ptr (auth_servers (w_config w))"

definition servers_printable :: "world \<Rightarrow> bool" where
  "servers_printable w \<longleftrightarrow> list_all (\<lambda>a. case last_ip a of None \<Rightarrow> True | Some ip \<Rightarrow> no_percent ip) (auth_servers (w_config w))"

definition resolves_printable :: "env \<Rightarrow> bool" where
  "resolves_printable env \<longleftrightarrow> (\<forall>h name. case e_resolve env h name of None \<Rightarrow> True | Some ip \<Rightarrow> no_percent ip)"

text \<open>Commands on other tables do not change the balance.\<close>

lemma balance_step_other:
  assumes "cmd = ''iptables -t '' @ c # r" and "c \<noteq> CHR ''m''"
  shows "balance_step intf cmd M = M"
proof -
  have "take 22 cmd \<noteq> ''iptables -t mangle '' @ s" for s
  proof
    assume "take 22 cmd = ''iptables -t mangle '' @ s"
    then have "take 22 cmd ! 12 = CHR ''m''" by simp
    with assms show False by simp
  qed
  then show ?thesis
    using append_Cons append_Nil unfolding balance_step_def by (metis (no_types, lifting))
qed

lemma balance_other_table:
  "balance_step intf (shell_of intf (''-t filter '' @ s)) M = M" "balance_step intf (shell_of intf (''-t nat '' @ s)) M = M"
proof -
  let ?id = "replace_id (take CHAIN_NAME_MAX_LEN intf)"
  have eqs: "shell_of intf (''-t filter '' @ s) = ''iptables -t '' @ CHR ''f'' # ''ilter '' @ ?id s"
    "shell_of intf (''-t nat '' @ s) = ''iptables -t '' @ CHR ''n'' # ''at '' @ ?id s"
    by (simp_all add: shell_of_def)
  show "balance_step intf (shell_of intf (''-t filter '' @ s)) M = M"
    by (rule balance_step_other [OF eqs(1)]) simp
  show "balance_step intf (shell_of intf (''-t nat '' @ s)) M = M"
    by (rule balance_step_other [OF eqs(2)]) simp
qed

definition other_commands :: "string \<Rightarrow> string list \<Rightarrow> bool" where
  "other_commands intf cs \<longleftrightarrow> list_all (\<lambda>c. \<exists>s. c = shell_of intf (''-t filter '' @ s) \<or> c = shell_of intf (''-t nat '' @ s)) cs"

lemma other_commands_simps [simp]:
  "other_commands intf []" "other_commands intf (cs @ ds) \<longleftrightarrow> other_commands intf cs \<and> other_commands intf ds"
  by (simp_all add: other_commands_def)

lemma other_commands_fold:
  assumes "\<And>s x. f (shell_of intf (''-t filter '' @ s)) x = x" and "\<And>s x. f (shell_of intf (''-t nat '' @ s)) x = x"
    and "other_commands intf cs"
  shows "fold f cs x = x"
  using assms(3)
proof (induction cs)
  case (Cons c cs)
  then obtain s where "c = shell_of intf (''-t filter '' @ s) \<or> c = shell_of intf (''-t nat '' @ s)"
    unfolding other_commands_def list.pred_inject by blast
  then have "f c x = x"
    using assms(1,2) by metis
  with Cons show ?case by (simp add: other_commands_def)
qed simp

lemma other_commands_shell:
  assumes "\<And>s. s \<in> set cs \<Longrightarrow> \<exists>t. s = ''-t filter '' @ t \<or> s = ''-t nat '' @ t"
  shows "other_commands intf (commands (map (\<lambda>s. Exec (shell_of intf s) q) cs))"
  using assms
proof (induction cs)
  case (Cons s cs)
  obtain t where "s = ''-t filter '' @ t \<or> s = ''-t nat '' @ t"
    using Cons.prems [OF list.set_intros(1)] by blast
  then have "\<exists>t. shell_of intf s = shell_of intf (''-t filter '' @ t) \<or> shell_of intf s = shell_of intf (''-t nat '' @ t)"
    by metis
  then have "other_commands intf [shell_of intf s]"
    unfolding other_commands_def list_all_iff by simp
  moreover have "other_commands intf (commands (map (\<lambda>s. Exec (shell_of intf s) q) cs))"
    by (rule Cons.IH) (rule Cons.prems [OF list.set_intros(2)])
  ultimately show ?case by (simp add: other_commands_def)
qed simp

definition aside :: "string \<Rightarrow> world \<Rightarrow> world \<Rightarrow> bool" where
  "aside intf w w' \<longleftrightarrow> w_clients w' = w_clients w \<and> (\<exists>ss. w_config w' = (w_config w)\<lparr>auth_servers := ss\<rparr>) \<and>
     w_authdown w' = w_authdown w \<and>
     (\<exists>cs. commands (w_history w') = commands (w_history w) @ cs \<and> other_commands intf cs) \<and>
     (\<exists>k. server_ptrs w' = rotate k (server_ptrs w)) \<and> (servers_printable w \<longrightarrow> servers_printable w')"

lemma aside_refl [simp]: "aside intf w w"
  unfolding aside_def by (intro conjI exI [of _ 0] exI [of _ "[] :: string list"] exI [of _ "auth_servers (w_config w)"]) simp_all

lemma aside_trans [trans]:
  assumes "aside intf w1 w2" and "aside intf w2 w3"
  shows "aside intf w1 w3"
proof -
  obtain ss cs k where 1: "w_config w2 = (w_config w1)\<lparr>auth_servers := ss\<rparr>"
    "commands (w_history w2) = commands (w_history w1) @ cs" "other_commands intf cs" "server_ptrs w2 = rotate k (server_ptrs w1)"
    using assms(1) unfolding aside_def by blast
  obtain ss' cs' k' where 2: "w_config w3 = (w_config w2)\<lparr>auth_servers := ss'\<rparr>"
    "commands (w_history w3) = commands (w_history w2) @ cs'" "other_commands intf cs'" "server_ptrs w3 = rotate k' (server_ptrs w2)"
    using assms(2) unfolding aside_def by blast
  show ?thesis
    using assms 1 2 unfolding aside_def
    by (intro conjI exI [of _ ss'] exI [of _ "cs @ cs'"] exI [of _ "k' + k"]) (simp_all add: rotate_rotate)
qed

text \<open>Worlds that agree on what matters here.\<close>

lemma aside_same:
  assumes "w_clients w' = w_clients w" and "w_config w' = w_config w" and "w_authdown w' = w_authdown w"
    and "commands (w_history w') = commands (w_history w)"
  shows "aside intf w w'"
  unfolding aside_def using assms
  by (intro conjI exI [of _ 0] exI [of _ "[] :: string list"] exI [of _ "auth_servers (w_config w)"])
    (simp_all add: server_ptrs_def servers_printable_def)

lemma aside_did [simp]: "command_of ev = [] \<Longrightarrow> aside intf w (did ev w)"
  by (rule aside_same) simp_all

lemma aside_marks [simp]:
  "aside intf w (mark_online env w)" "aside intf w (mark_auth_offline env w)" "aside intf w (mark_offline env w)"
  "aside intf w (mark_auth_online env w)"
  by (rule aside_same; simp add: mark_online_def mark_auth_offline_def mark_offline_def mark_auth_online_def get_time_def)+

lemma aside_resolve_popular: "resolve_popular env hs w = (b, w') \<Longrightarrow> aside intf w w'"
proof (induction env hs w rule: resolve_popular.induct)
  case (2 env h hs w)
  then show ?case
    using aside_trans [of intf w "did (Resolve h) w" w'] by (auto simp: wd_gethostbyname_def split: option.splits)
qed simp

lemma aside_set_last_ip:
  "(case ip of None \<Rightarrow> True | Some i \<Rightarrow> no_percent i) \<Longrightarrow> aside intf w (set_last_ip ip w)"
  unfolding aside_def by (intro conjI exI [of _ 0] exI [of _ "[] :: string list"] exI [of _ "auth_servers (w_config (set_last_ip ip w))"])
    (auto simp: set_last_ip_def server_ptrs_def servers_printable_def split: list.splits)

lemma aside_mark_bad:
  assumes "auth_servers (w_config w) = a # rest"
  shows "aside intf w (mark_bad (as_ptr a) w)" and "auth_servers (w_config (mark_bad (as_ptr a) w)) = rest @ [a]"
proof -
  show r: "auth_servers (w_config (mark_bad (as_ptr a) w)) = rest @ [a]"
    using ring.fail_current [OF assms] by (simp add: mark_bad_def)
  have "\<exists>ss. mark_auth_server_bad p c = c\<lparr>auth_servers := ss\<rparr>" for p c
    by (intro exI [of _ "auth_servers (mark_auth_server_bad p c)"]) (simp add: mark_auth_server_bad_def split: list.split)
  then show "aside intf w (mark_bad (as_ptr a) w)"
    unfolding aside_def using r assms
    by (intro conjI exI [of _ 1] exI [of _ "[] :: string list"]) (auto simp: mark_bad_def server_ptrs_def servers_printable_def)
qed

lemma aside_commands:
  assumes "gw_interface (w_config w) = Some intf" and "list_all no_percent cs"
    and "\<And>s. s \<in> set cs \<Longrightarrow> \<exists>t. s = ''-t filter '' @ t \<or> s = ''-t nat '' @ t"
  shows "\<exists>w'. do_commands env cs w = Some w' \<and> aside intf w w' \<and> w_config w' = w_config w"
proof (intro exI conjI)
  let ?w' = "did_all (map (\<lambda>s. Exec (shell_of intf s) (w_fw_quiet w)) cs) w"
  show "do_commands env cs w = Some ?w'"
    by (rule do_commands_eq [OF assms(1,2)])
  show "aside intf w ?w'"
    unfolding aside_def using other_commands_shell [OF assms(3)]
    by (intro conjI exI [of _ 0] exI [of _ "commands (map (\<lambda>s. Exec (shell_of intf s) (w_fw_quiet w)) cs)"]
        exI [of _ "auth_servers (w_config w)"])
      (simp_all add: server_ptrs_def servers_printable_def)
  show "w_config ?w' = w_config w" by simp
qed

lemma authserver_commands_ok:
  assumes "servers_printable w"
  shows "list_all no_percent (authserver_commands (w_config w))"
    and "s \<in> set (authserver_commands (w_config w)) \<Longrightarrow> \<exists>t. s = ''-t filter '' @ t \<or> s = ''-t nat '' @ t"
proof -
  show "list_all no_percent (authserver_commands (w_config w))"
    using assms unfolding authserver_commands_def servers_printable_def
    by (induction "auth_servers (w_config w)" arbitrary: w)
      (auto simp: list_all_iff chain_defs split: option.splits)
  show "s \<in> set (authserver_commands (w_config w)) \<Longrightarrow> \<exists>t. s = ''-t filter '' @ t \<or> s = ''-t nat '' @ t"
    by (auto simp: authserver_commands_def split: option.splits if_splits)
qed

lemma note_ip_spec:
  assumes "gw_interface (w_config w) = Some intf" and "servers_printable w" and "no_percent ip"
    and "auth_servers (w_config w) = a # rest"
  shows "\<exists>w'. note_ip env ip a w = Some w' \<and> aside intf w w' \<and>
    auth_servers (w_config w') = a\<lparr>last_ip := Some ip\<rparr> # rest \<and> popular_servers (w_config w') = popular_servers (w_config w)"
proof (cases "last_ip a = Some ip")
  case True
  then show ?thesis
    using assms(4) by (intro exI [of _ w]) (simp add: note_ip_def)
next
  case False
  let ?w1 = "set_last_ip (Some ip) w"
  have w1: "aside intf w ?w1" using assms(3) by (intro aside_set_last_ip) simp
  have c1: "auth_servers (w_config ?w1) = a\<lparr>last_ip := Some ip\<rparr> # rest" "gw_interface (w_config ?w1) = Some intf"
    "popular_servers (w_config ?w1) = popular_servers (w_config w)" "servers_printable ?w1"
    using assms w1 by (auto simp: set_last_ip_def aside_def)
  obtain w2 where w2: "fw_clear_authservers env ?w1 = Some w2" "aside intf ?w1 w2" "w_config w2 = w_config ?w1"
    using aside_commands [OF c1(2), of "[''-t filter -F '' @ CHAIN_AUTHSERVERS, ''-t nat -F '' @ CHAIN_AUTHSERVERS]" env]
    by (auto simp: fw_clear_authservers_def iptables_fw_clear_authservers_def chain_defs)
  have p2: "servers_printable w2" using c1(4) w2(3) by (simp add: servers_printable_def)
  obtain w3 where w3: "fw_set_authservers env w2 = Some w3" "aside intf w2 w3" "w_config w3 = w_config w2"
    using aside_commands [of w2 intf "authserver_commands (w_config w2)" env] authserver_commands_ok [OF p2] c1(2) w2(3)
    by (auto simp: fw_set_authservers_def iptables_fw_set_authservers_def)
  show ?thesis
    using False w2 w3 c1 aside_trans [OF aside_trans [OF w1 w2(2)] w3(2)] by (intro exI [of _ w3]) (simp add: note_ip_def)
qed


section \<open>Finding a server\<close>

lemma num_servers_ptrs: "num_servers w = length (server_ptrs w)"
  by (simp add: num_servers_def server_ptrs_def)

lemma asideD:
  assumes "aside intf w w'"
  shows "gw_interface (w_config w') = gw_interface (w_config w)" and "num_servers w' = num_servers w"
    and "servers_printable w \<Longrightarrow> servers_printable w'" and "w_clients w' = w_clients w" and "balance intf w' = balance intf w"
    and "w_authdown w' = w_authdown w"
proof -
  obtain ss cs k where w': "w_config w' = (w_config w)\<lparr>auth_servers := ss\<rparr>"
    "commands (w_history w') = commands (w_history w) @ cs" "other_commands intf cs" "server_ptrs w' = rotate k (server_ptrs w)"
    using assms unfolding aside_def by blast
  show "gw_interface (w_config w') = gw_interface (w_config w)" "num_servers w' = num_servers w"
    using w'(1,4) by (simp_all add: num_servers_ptrs)
  show "servers_printable w \<Longrightarrow> servers_printable w'" "w_clients w' = w_clients w" "w_authdown w' = w_authdown w"
    using assms by (simp_all add: aside_def)
  show "balance intf w' = balance intf w"
    using w'(2) other_commands_fold [OF balance_other_table w'(3)] by (simp add: balance_def)
qed

text \<open>
  A resolved name: noting the address and asking for a connection.
\<close>

definition resolved :: "env \<Rightarrow> string \<Rightarrow> t_auth_serv \<Rightarrow> world \<Rightarrow> world option" where
  "resolved env ip a w = note_ip env ip a (mark_online env (did (Resolve (authserv_hostname a)) w))"

lemma resolved_spec:
  assumes "gw_interface (w_config w) = Some intf" and "servers_printable w" and "no_percent ip"
    and "auth_servers (w_config w) = a # rest"
  obtains w' where "resolved env ip a w = Some w'" and "aside intf w w'"
    and "auth_servers (w_config w') = a\<lparr>last_ip := Some ip\<rparr> # rest" and "popular_servers (w_config w') = popular_servers (w_config w)"
proof -
  let ?w1 = "mark_online env (did (Resolve (authserv_hostname a)) w)"
  have "w_config ?w1 = w_config w"
    by (simp add: mark_online_def get_time_def)
  moreover have w1: "aside intf w ?w1"
    by (rule aside_trans [of _ _ "did (Resolve (authserv_hostname a)) w"]) simp_all
  moreover have "servers_printable ?w1"
    using asideD(3) [OF w1 assms(2)] .
  ultimately obtain w' where "note_ip env ip a ?w1 = Some w'" "aside intf ?w1 w'"
    "auth_servers (w_config w') = a\<lparr>last_ip := Some ip\<rparr> # rest" "popular_servers (w_config w') = popular_servers (w_config w)"
    using note_ip_spec [of ?w1 intf ip a rest env] assms by auto
  with that show ?thesis
    using aside_trans [OF w1] by (simp add: resolved_def)
qed

lemma connect_level_step:
  assumes "auth_servers (w_config w) = a # rest" and "\<not> level + 1 > num_servers w"
  shows "connect_auth_server_level (Suc fuel) env level w =
    (case e_resolve env (w_history w) (authserv_hostname a) of
       None \<Rightarrow>
         (case resolve_popular env (popular_servers (w_config w)) (did (Resolve (authserv_hostname a)) w) of
            (True, w2) \<Rightarrow> connect_auth_server_level fuel env (level + 1) (mark_bad (as_ptr a) (set_last_ip None w2))
          | (False, w2) \<Rightarrow> Some (-1, mark_offline env w2))
     | Some ip \<Rightarrow>
         (case resolved env ip a w of
            None \<Rightarrow> None
          | Some w2 \<Rightarrow>
              (case e_connect env (w_history w2) ip (authserv_http_port a mod 65536) of
                 No_Socket \<Rightarrow> Some (-1, did (Connect ip (authserv_http_port a mod 65536)) w2)
               | Refused \<Rightarrow> connect_auth_server_level fuel env (level + 1)
                   (mark_bad (as_ptr a) (did (Connect ip (authserv_http_port a mod 65536)) w2))
               | Connected fd \<Rightarrow> Some (fd, did (Connect ip (authserv_http_port a mod 65536)) w2))))"
  using assms by (simp add: wd_gethostbyname_def resolved_def Let_def split: option.split)

text \<open>A turn of the ring: the current server goes to the end.\<close>

lemma popular_mark_bad [simp]: "popular_servers (w_config (mark_bad p w)) = popular_servers (w_config w)"
  by (simp add: mark_bad_def mark_auth_server_bad_def split: list.split)

lemma resolve_popular_config: "resolve_popular env hs w = (b, w') \<Longrightarrow> w_config w' = w_config w"
  by (induction env hs w rule: resolve_popular.induct) (auto simp: wd_gethostbyname_def split: option.splits)

lemma turn_unresolved:
  assumes "auth_servers (w_config w) = a # rest" and "resolve_popular env hs (did ev w) = (b, w2)" and "command_of ev = []"
  defines "w3 \<equiv> mark_bad (as_ptr a) (set_last_ip None w2)"
  shows "aside intf w w3" and "auth_servers (w_config w3) = rest @ [a\<lparr>last_ip := None\<rparr>]"
    and "popular_servers (w_config w3) = popular_servers (w_config w)"
proof -
  have c: "w_config w2 = w_config w"
    using resolve_popular_config [OF assms(2)] by simp
  have "aside intf w w2"
    by (rule aside_trans [OF aside_did [OF assms(3)] aside_resolve_popular [OF assms(2)]])
  also have "aside intf w2 (set_last_ip None w2)"
    by (rule aside_set_last_ip) simp
  finally have w: "aside intf w (set_last_ip None w2)" .
  have s: "auth_servers (w_config (set_last_ip None w2)) = a\<lparr>last_ip := None\<rparr> # rest"
    using assms(1) c by (simp add: set_last_ip_def)
  show "aside intf w w3" "auth_servers (w_config w3) = rest @ [a\<lparr>last_ip := None\<rparr>]"
    using aside_trans [OF w aside_mark_bad(1) [OF s]] aside_mark_bad(2) [OF s] by (simp_all add: w3_def)
  show "popular_servers (w_config w3) = popular_servers (w_config w)"
    using c by (simp add: w3_def set_last_ip_def split: list.split)
qed

lemma turn_refused:
  fixes port :: int
  assumes "auth_servers (w_config w) = a # rest" and "resolved env ip a w = Some w2" and "no_percent ip"
    and "gw_interface (w_config w) = Some intf" and "servers_printable w"
  defines "w3 \<equiv> mark_bad (as_ptr a) (did (Connect ip port) w2)"
  shows "aside intf w w3" and "auth_servers (w_config w3) = rest @ [a\<lparr>last_ip := Some ip\<rparr>]"
    and "popular_servers (w_config w3) = popular_servers (w_config w)" and "aside intf w w2"
    and "auth_servers (w_config w2) = a\<lparr>last_ip := Some ip\<rparr> # rest"
proof -
  have r: "aside intf w w2" "auth_servers (w_config w2) = a\<lparr>last_ip := Some ip\<rparr> # rest"
    "popular_servers (w_config w2) = popular_servers (w_config w)"
    using resolved_spec [OF assms(4,5,3,1), of env] assms(2) by auto
  then show "aside intf w w2" "auth_servers (w_config w2) = a\<lparr>last_ip := Some ip\<rparr> # rest" by auto
  have t: "aside intf w (did (Connect ip port) w2)"
    by (rule aside_trans [OF r(1)]) simp
  have "auth_servers (w_config (did (Connect ip port) w2)) = a\<lparr>last_ip := Some ip\<rparr> # rest"
    using r(2) by simp
  from aside_trans [OF t aside_mark_bad(1) [OF this]] aside_mark_bad(2) [OF this]
  show "aside intf w w3" "auth_servers (w_config w3) = rest @ [a\<lparr>last_ip := Some ip\<rparr>]"
    by (simp_all add: w3_def)
  show "popular_servers (w_config w3) = popular_servers (w_config w)"
    using r(3) by (simp add: w3_def)
qed

lemma connect_level_returns:
  assumes "resolves_printable env" and "gw_interface (w_config w) = Some intf" and "servers_printable w"
    and "fuel + level = num_servers w + 1" and "level \<le> num_servers w"
  shows "\<exists>fd w'. connect_auth_server_level fuel env level w = Some (fd, w') \<and> aside intf w w' \<and>
    (fd \<noteq> -1 \<longrightarrow> (\<exists>a rest ip h. auth_servers (w_config w') = a # rest \<and> last_ip a = Some ip \<and>
       w_history w' = h @ [Connect ip (authserv_http_port a mod 65536)] \<and>
       e_connect env h ip (authserv_http_port a mod 65536) = Connected fd))"
  using assms(2-)
proof (induction fuel arbitrary: level w)
  case 0
  then show ?case by simp
next
  case (Suc fuel)
  show ?case
  proof (cases "auth_servers (w_config w) = [] \<or> level + 1 > num_servers w")
    case True
    then show ?thesis by (auto split: list.split)
  next
    case False
    then obtain a rest where a: "auth_servers (w_config w) = a # rest" and l: "\<not> level + 1 > num_servers w"
      by (cases "auth_servers (w_config w)") auto
    let ?port = "authserv_http_port a mod 65536" and ?ev = "Resolve (authserv_hostname a)"
    note step = connect_level_step [OF a l]
    have again: "\<exists>fd w'. connect_auth_server_level fuel env (level + 1) w3 = Some (fd, w') \<and> aside intf w w' \<and>
      (fd \<noteq> -1 \<longrightarrow> (\<exists>a rest ip h. auth_servers (w_config w') = a # rest \<and> last_ip a = Some ip \<and>
       w_history w' = h @ [Connect ip (authserv_http_port a mod 65536)] \<and>
       e_connect env h ip (authserv_http_port a mod 65536) = Connected fd))" if "aside intf w w3" for w3
      using Suc.IH [of w3 "level + 1"] Suc.prems l asideD [OF that] aside_trans [OF that] by fastforce
    show ?thesis
    proof (cases "e_resolve env (w_history w) (authserv_hostname a)")
      case None
      obtain b w2 where p: "resolve_popular env (popular_servers (w_config w)) (did ?ev w) = (b, w2)" by fastforce
      show ?thesis
      proof (cases b)
        case True
        then show ?thesis
          using None p again [OF turn_unresolved(1) [OF a p]] unfolding step by simp
      next
        case False
        have "aside intf w (mark_offline env w2)"
          by (rule aside_trans [OF aside_trans [OF aside_did aside_resolve_popular [OF p]]]) simp_all
        with False show ?thesis
          using None p unfolding step by simp
      qed
    next
      case (Some ip)
      have np: "no_percent ip"
        using assms(1) Some unfolding resolves_printable_def by (metis option.simps(5))
      obtain w2 where w2: "resolved env ip a w = Some w2"
        using resolved_spec [OF Suc.prems(1,2) np a] by blast
      note turn = turn_refused [OF a w2 np Suc.prems(1,2)]
      have "aside intf w (did (Connect ip ?port) w2)"
        by (rule aside_trans [OF turn(4)]) simp
      then show ?thesis
        using Some w2 again [OF turn(1) [where port = ?port]] turn(5) unfolding step by (auto split: connect_result.split)
    qed
  qed
qed

text \<open>A server whose name can always be resolved, to an address that accepts connections.\<close>

definition works :: "env \<Rightarrow> t_auth_serv \<Rightarrow> bool" where
  "works env a \<longleftrightarrow> (\<forall>h. \<exists>ip. e_resolve env h (authserv_hostname a) = Some ip \<and>
     (\<forall>h'. \<exists>fd. e_connect env h' ip (authserv_http_port a mod 65536) = Connected fd))"

text \<open>A socket can be made, and a connected socket is a valid descriptor.\<close>

definition sockets_ok :: "env \<Rightarrow> bool" where
  "sockets_ok env \<longleftrightarrow> (\<forall>h ip port. e_connect env h ip port \<noteq> No_Socket \<and> e_connect env h ip port \<noteq> Connected (-1))"

lemma works_last_ip [simp]: "works env (a\<lparr>last_ip := ip\<rparr>) = works env a"
  by (simp add: works_def)

lemma resolve_popular_finds:
  "p \<in> set hs \<Longrightarrow> (\<And>h. e_resolve env h p \<noteq> None) \<Longrightarrow> \<exists>w'. resolve_popular env hs w = (True, w')"
proof (induction env hs w rule: resolve_popular.induct)
  case (2 env h hs w)
  show ?case
  proof (cases "e_resolve env (w_history w) h")
    case None
    then have "p \<noteq> h" using "2.prems"(2) [of "w_history w"] by auto
    with 2 None show ?thesis by (simp add: wd_gethostbyname_def)
  qed (simp add: wd_gethostbyname_def)
qed simp

lemma connect_level_finds:
  assumes "resolves_printable env" and up: "\<And>h. e_resolve env h p \<noteq> None" and sock: "sockets_ok env"
    and "gw_interface (w_config w) = Some intf" and "servers_printable w" and "p \<in> set (popular_servers (w_config w))"
    and "fuel + level = num_servers w + 1" and "list_ex (works env) (take (num_servers w - level) (auth_servers (w_config w)))"
  shows "\<exists>fd w'. connect_auth_server_level fuel env level w = Some (fd, w') \<and> fd \<noteq> -1"
  using assms(4-)
proof (induction fuel arbitrary: level w)
  case 0
  then show ?case by simp
next
  case (Suc fuel)
  from Suc.prems(5) obtain a rest where a: "auth_servers (w_config w) = a # rest"
    by (cases "auth_servers (w_config w)") auto
  have l: "\<not> level + 1 > num_servers w"
    using Suc.prems(5) by (cases "num_servers w - level") auto
  let ?port = "authserv_http_port a mod 65536" and ?ev = "Resolve (authserv_hostname a)"
  note step = connect_level_step [OF a l]
  have n: "num_servers w = Suc (length rest)"
    using a by (simp add: num_servers_def)
  obtain m where m: "num_servers w - level = Suc m" "m \<le> length rest"
    using l n by (cases "num_servers w - level") auto
  have again: "\<exists>fd w'. connect_auth_server_level fuel env (level + 1) w3 = Some (fd, w') \<and> fd \<noteq> -1"
    if "aside intf w w3" "auth_servers (w_config w3) = rest @ [a']"
      "popular_servers (w_config w3) = popular_servers (w_config w)" "\<not> works env a" for w3 a'
  proof (rule Suc.IH)
    show "gw_interface (w_config w3) = Some intf" "servers_printable w3" "p \<in> set (popular_servers (w_config w3))"
      "fuel + (level + 1) = num_servers w3 + 1"
      using Suc.prems asideD [OF that(1)] that(3) by auto
    have "num_servers w3 - (level + 1) = m"
      using asideD(2) [OF that(1)] m(1) by simp
    then show "list_ex (works env) (take (num_servers w3 - (level + 1)) (auth_servers (w_config w3)))"
      using Suc.prems(5) that(2,4) m a by simp
  qed
  show ?case
  proof (cases "e_resolve env (w_history w) (authserv_hostname a)")
    case None
    then have nw: "\<not> works env a"
      unfolding works_def by (metis option.distinct(1))
    obtain w2 where p: "resolve_popular env (popular_servers (w_config w)) (did ?ev w) = (True, w2)"
      using resolve_popular_finds [OF Suc.prems(3) up] by blast
    show ?thesis
      using None p again [OF turn_unresolved [OF a p] nw] unfolding step by simp
  next
    case (Some ip)
    have np: "no_percent ip"
      using assms(1) Some unfolding resolves_printable_def by (metis option.simps(5))
    obtain w2 where w2: "resolved env ip a w = Some w2"
      using resolved_spec [OF Suc.prems(1,2) np a] by blast
    note turn = turn_refused [OF a w2 np Suc.prems(1,2)]
    show ?thesis
    proof (cases "e_connect env (w_history w2) ip ?port")
      case Refused
      then have "\<not> works env a"
        using Some unfolding works_def by (metis connect_result.distinct(5) option.inject)
      then show ?thesis
        using Refused Some w2 again [OF turn(1-3) [where port = ?port]] unfolding step by simp
    next
      case (Connected fd)
      moreover have "fd \<noteq> -1"
        using sock Connected unfolding sockets_ok_def by metis
      ultimately show ?thesis
        using Some w2 unfolding step by simp
    qed (use sock in \<open>simp add: sockets_ok_def\<close>)
  qed
qed

section \<open>Properties of the connection\<close>



text \<open>
  C12: Fail-over works. If one of the configured servers can be resolved and reached at any time,
  one of the popular names can be resolved, and sockets can be made, then asking for a connection
  succeeds, wherever in the ring the working server is and whatever the other servers do: names
  that fail to resolve and refused connections only move on to the next server.
\<close>

theorem connect_fails_over:
  assumes "resolves_printable env" and "gw_interface (w_config w) = Some intf" and "servers_printable w"
    and "a \<in> set (auth_servers (w_config w))" and "works env a" and "sockets_ok env"
    and "p \<in> set (popular_servers (w_config w))" and "\<And>h. e_resolve env h p \<noteq> None"
  shows "\<exists>fd w'. connect_auth_server env w = Some (fd, w') \<and> fd \<noteq> -1"
proof -
  have "list_ex (works env) (take (num_servers w - 0) (auth_servers (w_config w)))"
    using assms(4,5) by (auto simp: list_ex_iff num_servers_def)
  then show ?thesis
    using connect_level_finds [OF assms(1,8,6,2,3,7), of "num_servers w + 1" 0]
    by (auto simp: connect_auth_server_def)
qed

text \<open>Two servers, the first of which refuses connections.\<close>

definition two_servers :: world where
  "two_servers = (one_world FW_MARK_KNOWN [])\<lparr>w_config := config_init\<lparr>gw_interface := Some ''br0'',
     popular_servers := [''www.google.com''],
     auth_servers := [(new_auth_server 0 ''a'' auth_block_defaults)\<lparr>authserv_http_port := 81\<rparr>,
       new_auth_server 1 ''b'' auth_block_defaults]\<rparr>\<rparr>"

definition first_down :: env where
  "first_down = kind_env\<lparr>e_connect := (\<lambda>h ip port. if port = 81 then Refused else Connected 7)\<rparr>"

lemma two_servers_ok: "resolves_printable first_down" "sockets_ok first_down" "servers_printable two_servers"
  "gw_interface (w_config two_servers) = Some ''br0''"
  by (simp_all add: resolves_printable_def sockets_ok_def first_down_def kind_env_def two_servers_def servers_printable_def
      new_auth_server_def)


theorem connect_fails_over_witness:
  "\<exists>fd w'. connect_auth_server first_down two_servers = Some (fd, w') \<and> fd \<noteq> -1"
proof (rule connect_fails_over [OF two_servers_ok(1,4,3) _ _ two_servers_ok(2)])
  show "new_auth_server 1 ''b'' auth_block_defaults \<in> set (auth_servers (w_config two_servers))"
    "''www.google.com'' \<in> set (popular_servers (w_config two_servers))"
    by (simp_all add: two_servers_def)
  show "works first_down (new_auth_server 1 ''b'' auth_block_defaults)"
    by (simp add: works_def first_down_def kind_env_def new_auth_server_def auth_block_defaults_def)
  show "e_resolve first_down h ''www.google.com'' \<noteq> None" for h
    by (simp add: first_down_def kind_env_def)
qed


section \<open>Requests\<close>

text \<open>What a reader of the connection makes of the events on it.\<close>

fun received :: "sock_event list \<Rightarrow> string \<Rightarrow> string option" where
  "received [] t = Some t"
| "received (End_Of_File # evs) t = Some t"
| "received (Received s # evs) t = received evs (t @ cstr (take (MAX_BUF - 1) s))"
| "received (_ # evs) t = None"

lemma cstr_no_NUL [simp]: "NUL \<notin> set (cstr s)"
  by (auto simp: cstr_def dest: set_takeWhileD)

lemma http_read_received: "pstr_holds p t \<Longrightarrow> http_read junk evs p = Some (received evs t)"
proof (induction evs t arbitrary: p rule: received.induct)
  case (3 s evs t)
  obtain q where "pstr_cat junk p (cstr (take (MAX_BUF - 1) s)) = Some q" "pstr_holds q (t @ cstr (take (MAX_BUF - 1) s))"
    using pstr_cat_holds [OF "3.prems" cstr_no_NUL] by blast
  with "3.IH" show ?case by simp
qed (simp_all add: builder.to_string_holds)

lemma http_get_spec:
  "http_get env fd req w =
     (if fd = -1 then Some (None, w)
      else if e_send env (w_history w) req = int (length req) \<and> req \<noteq> []
      then Some (received (e_recv env (w_history w @ [Exchange req])) [], did (Exchange req) w)
      else Some (None, did (Exchange req) w))"
  by (auto simp: http_get_def Let_def http_read_received [OF builder.new_holds])

lemma aside_http_get: "\<exists>res w'. http_get env fd req w = Some (res, w') \<and> aside intf w w' \<and> w_config w' = w_config w"
  by (simp add: http_get_spec)

lemma connect_aside:
  assumes "resolves_printable env" and "gw_interface (w_config w) = Some intf" and "servers_printable w"
  shows "\<exists>fd w'. connect_auth_server env w = Some (fd, w') \<and> aside intf w w'"
proof -
  obtain fd w1 where "connect_auth_server_level (num_servers w + 1) env 0 w = Some (fd, w1)" "aside intf w w1"
    using connect_level_returns [OF assms, of "num_servers w + 1" 0] by auto
  moreover have "aside intf w (if fd = -1 then mark_auth_offline env w1 else mark_auth_online env w1)"
    by (rule aside_trans [OF calculation(2)]) simp
  ultimately show ?thesis
    by (simp add: connect_auth_server_def)
qed

lemma server_still_there:
  assumes "aside intf w w'" and "auth_servers (w_config w) = a # rest"
  shows "\<exists>b. server_at (as_ptr a) (w_config w') = Some b"
proof -
  obtain k where "server_ptrs w' = rotate k (server_ptrs w)"
    using assms(1) unfolding aside_def by blast
  then have "set (server_ptrs w') = set (server_ptrs w)" by simp
  then have "as_ptr a \<in> set (server_ptrs w')"
    using assms(2) by (simp add: server_ptrs_def)
  then show ?thesis
    by (cases "server_at (as_ptr a) (w_config w')") (auto simp: server_at_def server_ptrs_def find_None_iff)
qed

lemma auth_server_request_spec:
  assumes "resolves_printable env" and "gw_interface (w_config w) = Some intf" and "servers_printable w"
    and "auth_servers (w_config w) \<noteq> []"
  shows "\<exists>code w'. auth_server_request env version type ip mac token k w = Some (code, w') \<and> aside intf w w'"
proof -
  obtain a rest where a: "auth_servers (w_config w) = a # rest"
    using assms(4) by (cases "auth_servers (w_config w)") auto
  obtain fd w1 where c: "connect_auth_server env w = Some (fd, w1)" "aside intf w w1"
    using connect_aside [OF assms(1-3)] by blast
  obtain b where b: "server_at (as_ptr a) (w_config w1) = Some b"
    using server_still_there [OF c(2) a] by blast
  obtain res w2 where "http_get env fd (auth_request_text version (w_config w1) b type ip mac token k) w1 = Some (res, w2)"
    "aside intf w1 w2"
    using aside_http_get by blast
  then show ?thesis
    using c a b aside_trans [OF c(2)] by (simp add: auth_server_request_def get_auth_server_def)
qed


section \<open>The heartbeat\<close>

text \<open>The chain for the time when no server answers, as the commands leave it.\<close>

definition down_mark :: "string \<Rightarrow> string" where
  "down_mark intf = shell_of intf (''-t mangle -A '' @ CHAIN_AUTH_IS_DOWN @ '' -j MARK --set-mark '' @ mark FW_MARK_AUTH_IS_DOWN)"

definition down_flush :: "string \<Rightarrow> string" where
  "down_flush intf = shell_of intf (''-t mangle -F '' @ CHAIN_AUTH_IS_DOWN)"

definition down_step :: "string \<Rightarrow> string \<Rightarrow> bool \<Rightarrow> bool" where
  "down_step intf cmd b = (if cmd = down_mark intf then True else if cmd = down_flush intf then False else b)"

definition down_marked :: "string \<Rightarrow> world \<Rightarrow> bool" where
  "down_marked intf w = fold (down_step intf) (commands (w_history w)) False"

lemma shell_of_table:
  "shell_of intf (''-t '' @ c # s) ! 12 = c" if "c \<noteq> CHR ''$''"
  using that by (simp add: shell_of_def)

lemma down_step_other:
  "down_step intf (shell_of intf (''-t filter '' @ s)) b = b" "down_step intf (shell_of intf (''-t nat '' @ s)) b = b"
  using shell_of_table [of "CHR ''f''" intf "''ilter '' @ s"] shell_of_table [of "CHR ''n''" intf "''at '' @ s"]
    shell_of_table [of "CHR ''m''" intf "''angle -A '' @ CHAIN_AUTH_IS_DOWN @ '' -j MARK --set-mark '' @ mark FW_MARK_AUTH_IS_DOWN"]
    shell_of_table [of "CHR ''m''" intf "''angle -F '' @ CHAIN_AUTH_IS_DOWN"]
  by (auto simp: down_step_def down_mark_def down_flush_def)

lemma down_neq: "down_flush intf \<noteq> down_mark intf"
proof -
  have "down_flush intf ! 20 = CHR ''F''" "down_mark intf ! 20 = CHR ''A''"
    by (simp_all add: down_flush_def down_mark_def shell_of_def)
  then show ?thesis by auto
qed

lemma down_marked_aside:
  assumes "aside intf w w'"
  shows "down_marked intf w' = down_marked intf w" and "got_authdown_ruleset (w_config w') = got_authdown_ruleset (w_config w)"
proof -
  obtain cs ss where w': "commands (w_history w') = commands (w_history w) @ cs" "other_commands intf cs"
    "w_config w' = (w_config w)\<lparr>auth_servers := ss\<rparr>"
    using assms unfolding aside_def by blast
  show "down_marked intf w' = down_marked intf w"
    using w'(1) other_commands_fold [OF down_step_other w'(2)] by (simp add: down_marked_def)
  show "got_authdown_ruleset (w_config w') = got_authdown_ruleset (w_config w)"
    unfolding w'(3) by (simp add: got_authdown_ruleset_def get_ruleset_def)
qed

lemma other_chain:
  assumes "rule = ''WD_'' @ take CHAIN_NAME_MAX_LEN intf @ ''_'' @ c # r" and "c \<noteq> CHR ''O''" and "c \<noteq> CHR ''I''"
  shows "\<not> of_client_chain intf rule"
proof -
  define i where "i = take CHAIN_NAME_MAX_LEN intf"
  have rule: "rule = ''WD_'' @ i @ ''_'' @ c # r"
    using assms(1) by (simp add: i_def)
  have "take (length name) rule \<noteq> name" if "name = ''WD_'' @ i @ ''_'' @ d # t" "c \<noteq> d" for name d t
  proof
    assume "take (length name) rule = name"
    then have "take (length name) rule ! (length i + 4) = name ! (length i + 4)" by simp
    then have "rule ! (length i + 4) = name ! (length i + 4)"
      using that(1) by simp
    with that rule show False
      by (simp add: nth_append)
  qed
  from this [of "replace_id i CHAIN_OUTGOING @ '' ''" "CHR ''O''" "''utgoing ''"]
    this [of "replace_id i CHAIN_INCOMING @ '' ''" "CHR ''I''" "''ncoming ''"]
  show ?thesis
    using assms(2,3) by (simp add: i_def [symmetric] of_client_chain_def of_chain_def CHAIN_OUTGOING_def CHAIN_INCOMING_def Let_def)
qed

lemma balance_down [simp]:
  "balance_step intf (down_mark intf) M = M" "balance_step intf (down_flush intf) M = M"
proof -
  let ?i = "take CHAIN_NAME_MAX_LEN intf"
  have "drop 22 (down_mark intf) = ''WD_'' @ ?i @ ''_'' @ CHR ''A'' # replace_id ?i (''uthDown -j MARK --set-mark '' @ mark FW_MARK_AUTH_IS_DOWN)"
    by (simp add: down_mark_def shell_of_def CHAIN_AUTH_IS_DOWN_def)
  from other_chain [OF this] show "balance_step intf (down_mark intf) M = M"
    by (simp add: balance_step_def)
  have "take 22 (down_flush intf) = ''iptables -t mangle -F ''"
    by (simp add: down_flush_def shell_of_def CHAIN_AUTH_IS_DOWN_def)
  then show "balance_step intf (down_flush intf) M = M"
    by (simp add: balance_step_def)
qed

lemma down_commands:
  assumes "gw_interface (w_config w) = Some intf" and "got_authdown_ruleset (w_config w)"
  shows "fw_set_authdown env w = Some (execute env (down_mark intf) (w_fw_quiet w) w)"
    and "fw_set_authup env w = Some (execute env (down_flush intf) (w_fw_quiet w) w)"
proof -
  have p: "no_percent (''-t mangle -A '' @ CHAIN_AUTH_IS_DOWN @ '' -j MARK --set-mark '' @ mark FW_MARK_AUTH_IS_DOWN)"
    "no_percent (''-t mangle -F '' @ CHAIN_AUTH_IS_DOWN)"
    by (simp_all add: chain_defs mark_def)
  show "fw_set_authdown env w = Some (execute env (down_mark intf) (w_fw_quiet w) w)"
    "fw_set_authup env w = Some (execute env (down_flush intf) (w_fw_quiet w) w)"
    using do_command_eq [OF assms(1) p(1), of env, folded down_mark_def]
      do_command_eq [OF assms(1) p(2), of env, folded down_flush_def] assms(2)
    by (simp_all add: fw_set_authdown_def fw_set_authup_def iptables_fw_auth_unreachable_def iptables_fw_auth_reachable_def)
qed

text \<open>The heartbeat's own flag and the chain go together.\<close>

lemma set_authdown_spec:
  assumes "gw_interface (w_config w) = Some intf" and "got_authdown_ruleset (w_config w)"
    and "down_marked intf w = w_authdown w"
  shows "\<exists>w'. set_authdown env w = Some w' \<and> down_marked intf w' \<and> w_authdown w' \<and> w_clients w' = w_clients w \<and>
    w_config w' = w_config w \<and> balance intf w' = balance intf w \<and>
    commands (w_history w') = commands (w_history w) @ (if w_authdown w then [] else [down_mark intf])"
  using down_commands(1) [OF assms(1,2), of env] assms(3)
  by (cases "w_authdown w") (auto simp: set_authdown_def execute_def down_marked_def down_step_def balance_def)

lemma set_authup_spec:
  assumes "gw_interface (w_config w) = Some intf" and "got_authdown_ruleset (w_config w)"
  shows "\<exists>w' rc. fw_set_authup env w = Some (rc, w') \<and> \<not> down_marked intf w' \<and> w_clients w' = w_clients w \<and>
    w_config w' = w_config w \<and> balance intf w' = balance intf w \<and> commands (w_history w') = commands (w_history w) @ [down_flush intf]"
  using down_commands(2) [OF assms, of env] down_neq [of intf]
  by (auto simp: execute_def down_marked_def down_step_def balance_def)

text \<open>How a heartbeat may leave the world.\<close>

definition same_servers :: "world \<Rightarrow> world \<Rightarrow> bool" where
  "same_servers w w' \<longleftrightarrow> (\<exists>ss. w_config w' = (w_config w)\<lparr>auth_servers := ss\<rparr>) \<and> (servers_printable w \<longrightarrow> servers_printable w')"

lemma aside_same_servers: "aside intf w v \<Longrightarrow> w_config w' = w_config v \<Longrightarrow> same_servers w w'"
  unfolding aside_def same_servers_def servers_printable_def by simp

definition heartbeat :: "string \<Rightarrow> world \<Rightarrow> world \<Rightarrow> bool" where
  "heartbeat intf w w' \<longleftrightarrow> same_servers w w' \<and> (\<exists>cs. down_marked intf w' = w_authdown w' \<and>
    w_clients w' = w_clients w \<and> balance intf w' = balance intf w \<and> other_commands intf cs \<and>
    commands (w_history w') = commands (w_history w) @ cs @
      (if w_authdown w' = w_authdown w then [] else if w_authdown w' then [down_mark intf] else [down_flush intf]))"

lemma heartbeat_outcomes:
  assumes a: "aside intf w v" and w: "gw_interface (w_config w) = Some intf" "got_authdown_ruleset (w_config w)"
    "down_marked intf w = w_authdown w"
  shows "heartbeat intf w v" and "\<exists>w'. set_authdown env v = Some w' \<and> heartbeat intf w w'"
    and "w_authdown v \<Longrightarrow> \<exists>rc w'. fw_set_authup env v = Some (rc, w') \<and> heartbeat intf w (w'\<lparr>w_authdown := False\<rparr>)"
proof -
  note v = asideD [OF a] down_marked_aside [OF a]
  obtain cs where cs: "commands (w_history v) = commands (w_history w) @ cs" "other_commands intf cs"
    using a unfolding aside_def by blast
  have v': "gw_interface (w_config v) = Some intf" "got_authdown_ruleset (w_config v)" "down_marked intf v = w_authdown v"
    using v w by simp_all
  show "heartbeat intf w v"
    unfolding heartbeat_def using aside_same_servers [OF a] cs v v'(3) by (intro conjI exI [of _ cs]) simp_all
  obtain w' where "set_authdown env v = Some w'" "down_marked intf w'" "w_authdown w'" "w_clients w' = w_clients v"
    "w_config w' = w_config v" "balance intf w' = balance intf v" "commands (w_history w') = commands (w_history v) @ (if w_authdown v then [] else [down_mark intf])"
    using set_authdown_spec [OF v', of env] by blast
  then show "\<exists>w'. set_authdown env v = Some w' \<and> heartbeat intf w w'"
    unfolding heartbeat_def using aside_same_servers [OF a, of w'] cs v
    by (intro exI [of _ w'] conjI exI [of _ cs]) simp_all
  assume down: "w_authdown v"
  obtain u rc where "fw_set_authup env v = Some (rc, u)" "\<not> down_marked intf u" "w_clients u = w_clients v"
    "w_config u = w_config v" "balance intf u = balance intf v" "commands (w_history u) = commands (w_history v) @ [down_flush intf]"
    using set_authup_spec [OF v'(1,2), of env] by blast
  then show "\<exists>rc w'. fw_set_authup env v = Some (rc, w') \<and> heartbeat intf w (w'\<lparr>w_authdown := False\<rparr>)"
    unfolding heartbeat_def using aside_same_servers [OF a, of "u\<lparr>w_authdown := False\<rparr>"] cs v down
    by (intro exI [of _ rc] exI [of _ u] conjI exI [of _ cs]) (simp_all add: down_marked_def balance_def)
qed

lemma read_sys_info_aside:
  "\<exists>info w'. read_sys_info env avg w = (info, w') \<and> aside intf w w' \<and> w_config w' = w_config w \<and>
    w_started_time w' = w_started_time w"
  by (auto simp: read_sys_info_def Let_def intro: aside_same)

lemma ping_answer:
  assumes "connect_auth_server env w = Some (fd, w1)" and "aside intf w w1" and "fd \<noteq> -1"
  shows "\<exists>res w3. aside intf w w3 \<and> ping env version avg w = (case res of
          None \<Rightarrow> set_authdown env w3
        | Some s \<Rightarrow>
            if strstr s ''Pong'' = None then set_authdown env w3
            else if w_authdown w3 then map_option (\<lambda>(rc, w4). w4\<lparr>w_authdown := False\<rparr>) (fw_set_authup env w3)
            else Some w3)"
proof -
  obtain a rest where a: "auth_servers (w_config w) = a # rest"
    using assms(1,3) by (cases "auth_servers (w_config w)") (simp_all add: connect_auth_server_def)
  obtain b where b: "server_at (as_ptr a) (w_config w1) = Some b"
    using server_still_there [OF assms(2) a] by blast
  obtain info w2 where i: "read_sys_info env avg w1 = (info, w2)" "aside intf w1 w2" "w_config w2 = w_config w1"
    "w_started_time w2 = w_started_time w1"
    using read_sys_info_aside by blast
  let ?req = "ping_request version info (e_time env (w_history w2) - w_started_time w2) (w_config w2) b"
  obtain res w3 where g: "http_get env fd ?req (did Time w2) = Some (res, w3)" "aside intf (did Time w2) w3"
    using aside_http_get by blast
  have "aside intf w w3"
    by (rule aside_trans [OF aside_trans [OF aside_trans [OF assms(2) i(2)]] g(2)]) simp
  then show ?thesis
    using assms(1,3) a b g(1) i(1)
    by (intro exI [of _ res] exI [of _ w3], cases "fw_set_authup env w3")
      (auto simp: ping_def get_auth_server_def get_time_def split: option.split)
qed

lemma ping_heartbeat:
  assumes "resolves_printable env" and "gw_interface (w_config w) = Some intf" and "servers_printable w"
    and "got_authdown_ruleset (w_config w)" and "down_marked intf w = w_authdown w"
  shows "\<exists>w'. ping env version avg w = Some w' \<and> heartbeat intf w w'"
proof -
  obtain fd w1 where c: "connect_auth_server env w = Some (fd, w1)" "aside intf w w1"
    using connect_aside [OF assms(1-3)] by blast
  show ?thesis
  proof (cases "fd = -1")
    case True
    then show ?thesis
      using c(1) heartbeat_outcomes(2) [OF c(2) assms(2,4,5)] by (simp add: ping_def)
  next
    case False
    obtain res w3 where w3: "aside intf w w3" and p: "ping env version avg w = (case res of
          None \<Rightarrow> set_authdown env w3
        | Some s \<Rightarrow>
            if strstr s ''Pong'' = None then set_authdown env w3
            else if w_authdown w3 then map_option (\<lambda>(rc, w4). w4\<lparr>w_authdown := False\<rparr>) (fw_set_authup env w3)
            else Some w3)"
      using ping_answer [OF c False] by blast
    note out = heartbeat_outcomes [OF w3 assms(2,4,5)]
    show ?thesis
      unfolding p using out(1) out(2) [of env] out(3) [of env] by (cases res) auto
  qed
qed

text \<open>
  One heartbeat always returns. If the chain for unreachable servers is marked exactly
  when the gateway believes them unreachable, this still holds afterwards: the mark is
  appended when the belief changes to unreachable, the chain is flushed when it changes back, and
  nothing is done to it when the belief stays, so that marks do not pile up however long the servers
  are away. Clients and their rules are untouched.
\<close>

theorem ping_in_step:
  assumes "resolves_printable env" and "gw_interface (w_config w) = Some intf" and "servers_printable w"
    and "got_authdown_ruleset (w_config w)" and "down_marked intf w = w_authdown w"
  shows "\<exists>w' cs. ping env version avg w = Some w' \<and> down_marked intf w' = w_authdown w' \<and>
    w_clients w' = w_clients w \<and> balance intf w' = balance intf w \<and> other_commands intf cs \<and>
    commands (w_history w') = commands (w_history w) @ cs @
      (if w_authdown w' = w_authdown w then [] else if w_authdown w' then [down_mark intf] else [down_flush intf])"
  using ping_heartbeat [OF assms] unfolding heartbeat_def by blast

definition with_down_rules :: "world \<Rightarrow> world" where
  "with_down_rules w = w\<lparr>w_config := (w_config w)\<lparr>rulesets := [\<lparr>rs_name = ''auth-is-down'', rs_rules =
     [\<lparr>fr_target = TARGET_ACCEPT, fr_protocol = None, fr_port = None, fr_mask = ''0.0.0.0/0'', fr_mask_is_ipset = False\<rparr>]\<rparr>]\<rparr>\<rparr>"

lemma with_down_rules_ok:
  defines "v \<equiv> with_down_rules two_servers"
  shows "gw_interface (w_config v) = Some ''br0''" "servers_printable v" "got_authdown_ruleset (w_config v)"
    "w_history v = []" "\<not> w_authdown v" "w_clients v = w_clients two_servers" "down_marked ''br0'' v = w_authdown v"
  using two_servers_ok(3,4)
  by (simp_all add: v_def with_down_rules_def servers_printable_def got_authdown_ruleset_def get_ruleset_def two_servers_def
      one_world_def down_marked_def)

theorem ping_in_step_witness:
  "\<exists>w' cs. ping first_down ''1.3.0'' (\<lambda>loadavg. ''0.10'')
      (with_down_rules two_servers) = Some w' \<and> down_marked ''br0'' w' = w_authdown w' \<and>
    w_clients w' = w_clients two_servers \<and> other_commands ''br0'' cs \<and>
    commands (w_history w') = cs @ (if w_authdown w' then [down_mark ''br0''] else [])"
proof -
  define v where "v = with_down_rules two_servers"
  note v = with_down_rules_ok [folded v_def]
  from ping_in_step [OF two_servers_ok(1) v(1-3,7)] obtain w' cs where
    "ping first_down ''1.3.0'' (\<lambda>loadavg. ''0.10'') v = Some w'"
    "down_marked ''br0'' w' = w_authdown w'" "w_clients w' = w_clients v" "other_commands ''br0'' cs"
    "commands (w_history w') = commands (w_history v) @ cs @
      (if w_authdown w' = w_authdown v then [] else if w_authdown w' then [down_mark ''br0''] else [down_flush ''br0''])"
    by blast
  with v(4-6) show ?thesis
    unfolding v_def [symmetric] by (intro exI [of _ w'] exI [of _ cs]) simp
qed

text \<open>
  Other threads leave the chain for unreachable servers and the belief about them alone. They may
  connect to servers themselves, and so change the order of the servers and their addresses.
\<close>

definition calm_others :: "env \<Rightarrow> string \<Rightarrow> bool" where
  "calm_others env intf \<longleftrightarrow> (\<forall>w. same_servers w (e_others env w) \<and>
     w_authdown (e_others env w) = w_authdown w \<and> down_marked intf (e_others env w) = down_marked intf w)"

lemma down_marked_did [simp]: "command_of ev = [] \<Longrightarrow> down_marked intf (did ev w) = down_marked intf w"
  by (simp add: down_marked_def)

lemma same_servers_did [simp]: "same_servers w (did ev w') = same_servers w w'"
  by (simp add: same_servers_def servers_printable_def)

lemma same_servers_refl [simp]: "same_servers w w"
  by (auto simp: same_servers_def intro: exI [of _ "auth_servers (w_config w)"])

lemma same_servers_trans: "same_servers w1 w2 \<Longrightarrow> same_servers w2 w3 \<Longrightarrow> same_servers w1 w3"
  by (auto simp: same_servers_def servers_printable_def)

lemma yield_calm:
  assumes "calm_others env intf"
  shows "same_servers w (yield_clients env w)" "w_authdown (yield_clients env w) = w_authdown w"
    "down_marked intf (yield_clients env w) = down_marked intf w"
  using assms by (simp_all add: yield_clients_def calm_others_def)



end
