(* ===== verification/Auth_Props.thy ===== *)
theory Auth_Props
  imports Auth Central_Props Client_Registry
begin

text \<open>
  Clients and firewall in step. A world is in step when its client list is proper and the rules
  of the two client chains are, as a multiset, exactly those that the states of the listed
  clients call for. Logging out, the verdict of the server and the whole
  synchronisation keep the world in step, provided that the other threads do so whenever
  the lock on the list is given up; they always return and free what they took.
\<close>

section \<open>In step\<close>

definition rules_at :: "string \<Rightarrow> t_client \<Rightarrow> int \<Rightarrow> string multiset" where
  "rules_at intf d tag = client_rules intf (the (c_ip d)) (the (c_mac d)) tag"

text \<open>
  No two clients share a rule, whatever their marks: they have different addresses. Without
  this, denying one client takes a rule of another one away.
\<close>

definition separate :: "string \<Rightarrow> (nat \<times> t_client) list \<Rightarrow> bool" where
  "separate intf ds \<longleftrightarrow> (\<forall>a d b e t u x. (a, d) \<in> set ds \<longrightarrow> (b, e) \<in> set ds \<longrightarrow> a \<noteq> b \<longrightarrow>
     x \<in># rules_at intf d t \<longrightarrow> x \<notin># rules_at intf e u)"

definition wf_clients :: "string \<Rightarrow> (nat \<times> t_client) list \<Rightarrow> bool" where
  "wf_clients intf ds \<longleftrightarrow> valid_clients ds \<and> list_all (\<lambda>x. printable_client (snd x)) ds \<and> separate intf ds"

definition in_step :: "string \<Rightarrow> world \<Rightarrow> (nat \<times> t_client) list \<Rightarrow> bool" where
  "in_step intf w ds \<longleftrightarrow> gw_interface (w_config w) = Some intf \<and> servers_printable w \<and> clist (w_clients w) ds \<and>
     wf_clients intf ds \<and> balance intf w = rules_of intf ds"

text \<open>Changes of a client that keep what the firewall needs of it.\<close>

definition same_key :: "t_client \<Rightarrow> t_client \<Rightarrow> bool" where
  "same_key d e \<longleftrightarrow> c_ip e = c_ip d \<and> c_mac e = c_mac d \<and> (c_token d \<noteq> None \<longrightarrow> c_token e \<noteq> None)"

lemma separateD:
  "separate intf ds \<Longrightarrow> (a, d) \<in> set ds \<Longrightarrow> (b, e) \<in> set ds \<Longrightarrow> a \<noteq> b \<Longrightarrow> x \<in># rules_at intf d t \<Longrightarrow> x \<notin># rules_at intf e u"
  unfolding separate_def by blast

lemma separate_keys:
  assumes "separate intf ds" and "\<And>a d. (a, d) \<in> set es \<Longrightarrow> \<exists>d'. (a, d') \<in> set ds \<and> (\<forall>t. rules_at intf d t = rules_at intf d' t)"
  shows "separate intf es"
  unfolding separate_def
proof (intro allI impI)
  fix a d b e t u x
  assume m: "(a, d) \<in> set es" "(b, e) \<in> set es" "a \<noteq> b" "x \<in># rules_at intf d t"
  obtain d' e' where "(a, d') \<in> set ds" "rules_at intf d t = rules_at intf d' t"
    "(b, e') \<in> set ds" "rules_at intf e u = rules_at intf e' u"
    using assms(2) [OF m(1)] assms(2) [OF m(2)] by blast
  with m(3,4) show "x \<notin># rules_at intf e u"
    using separateD [OF assms(1), of a d' b e' x t u] by simp
qed

lemma wf_clients_map:
  assumes "wf_clients intf ds" and "\<And>d. same_key d (f d)"
  shows "wf_clients intf (map (\<lambda>(b, d). (b, if b = a then f d else d)) ds)" (is "wf_clients intf (map ?g ds)")
proof -
  have f: "valid_client d \<Longrightarrow> valid_client (f d)" "printable_client d \<Longrightarrow> printable_client (f d)"
    "rules_at intf (f d) t = rules_at intf d t" for d t
    using assms(2) [of d] by (auto simp: same_key_def valid_client_def printable_client_def rules_at_def)
  have "separate intf (map ?g ds)"
  proof (rule separate_keys)
    show "separate intf ds" using assms(1) by (simp add: wf_clients_def)
    fix b e
    assume "(b, e) \<in> set (map ?g ds)"
    then obtain d where "(b, d) \<in> set ds" "e = (if b = a then f d else d)" by auto
    then show "\<exists>d'. (b, d') \<in> set ds \<and> (\<forall>t. rules_at intf e t = rules_at intf d' t)"
      using f(3) by (intro exI [of _ d]) simp
  qed
  moreover have "valid_clients ds \<Longrightarrow> valid_clients (map ?g ds)"
    using f(1) by (induction ds) auto
  moreover have "list_all (\<lambda>x. printable_client (snd x)) (map ?g ds)"
    using assms(1) f(2) unfolding wf_clients_def list_all_iff by (auto split: prod.splits)
  ultimately show ?thesis
    using assms(1) by (simp add: wf_clients_def)
qed

lemma wf_clients_filter: "wf_clients intf ds \<Longrightarrow> wf_clients intf (filter P ds)"
  unfolding wf_clients_def
  by (intro conjI valid_clients_filter separate_keys [of intf ds "filter P ds"]) (auto simp: list_all_iff)

lemma wf_set_state: "wf_clients intf ds \<Longrightarrow> wf_clients intf (set_state a st ds)"
  unfolding set_state_def by (rule wf_clients_map) (simp_all add: same_key_def)

lemma in_rules_of: "x \<in># rules_of intf ds \<longleftrightarrow> (\<exists>(a, d) \<in> set ds. x \<in># data_rules intf d)"
  by (induction ds) (auto simp: rules_of_def)

lemma diff_disjoint: "(\<And>x. x \<in># N \<Longrightarrow> x \<notin># M) \<Longrightarrow> M - N = (M :: 'a multiset)"
  by (rule multiset_eqI) (metis count_diff diff_zero diff_0_eq_0 not_in_iff)

lemma unmarked_disjoint:
  assumes "separate intf ds" and "distinct (map fst ds)" and "(a, d) \<in> set ds" and "fw_connection_state d = FW_MARK_NONE"
    and "x \<in># rules_at intf d t"
  shows "x \<notin># rules_of intf ds"
proof
  assume "x \<in># rules_of intf ds"
  then obtain b e where be: "(b, e) \<in> set ds" "x \<in># data_rules intf e"
    unfolding in_rules_of by blast
  then have marked: "fw_connection_state e \<noteq> FW_MARK_NONE" "x \<in># rules_at intf e (fw_connection_state e)"
    by (auto simp: data_rules_def rules_at_def split: if_splits)
  show False
  proof (cases "b = a")
    case True
    then have "e = d" using be(1) assms(2,3) eq_key_imp_eq_value by metis
    with marked assms(4) show False by simp
  next
    case False
    with separateD [OF assms(1,3) be(1) _ assms(5)] marked(2) show False by metis
  qed
qed

lemma in_stepD:
  assumes "in_step intf w ds"
  shows "gw_interface (w_config w) = Some intf" and "servers_printable w" and "clist (w_clients w) ds"
    and "wf_clients intf ds" and "balance intf w = rules_of intf ds" and "distinct (map fst ds)" and "valid_clients ds"
  using assms dseg_distinct by (auto simp: in_step_def wf_clients_def clist_def)

lemma listed_key:
  assumes "wf_clients intf ds" and "(a, d) \<in> set ds"
  obtains ip mac token where "c_ip d = Some ip" and "c_mac d = Some mac" and "c_token d = Some token"
    and "no_percent ip" and "no_percent mac" and "printable_client d"
proof -
  have "printable_client d" "valid_client d"
    using assms valid_mem by (auto simp: wf_clients_def list_all_iff)
  then show ?thesis
    using that by (auto simp: printable_client_def valid_client_def)
qed

section \<open>Operations on one client\<close>

lemma deny_in_step:
  assumes "in_step intf w ds" and "(a, d) \<in> set ds"
  shows "\<exists>rc w'. fw_deny env a w = Some (rc, w') \<and> in_step intf w' (set_state a FW_MARK_NONE ds) \<and>
    w_config w' = w_config w \<and> (\<forall>b. b \<noteq> a \<longrightarrow> load (heap (w_clients w')) b = load (heap (w_clients w)) b)"
proof -
  note st = in_stepD [OF assms(1)]
  obtain ip mac where k: "c_ip d = Some ip" "c_mac d = Some mac" "no_percent ip" "no_percent mac"
    using listed_key [OF st(4) assms(2)] by metis
  obtain rc w' where w': "fw_deny env a w = Some (rc, w')" "clist (w_clients w') (set_state a FW_MARK_NONE ds)"
    "balance intf w' = balance intf w - client_rules intf ip mac (fw_connection_state d)" "w_config w' = w_config w"
    "\<forall>b. b \<noteq> a \<longrightarrow> load (heap (w_clients w')) b = load (heap (w_clients w)) b"
    using fw_deny_run [OF st(1,3) assms(2) k] by blast
  have "rules_of intf ds - client_rules intf ip mac (fw_connection_state d) = rules_of intf (set_state a FW_MARK_NONE ds)"
  proof (cases "fw_connection_state d = FW_MARK_NONE")
    case True
    have "x \<notin># rules_of intf ds" if "x \<in># client_rules intf ip mac (fw_connection_state d)" for x
      using unmarked_disjoint [OF _ st(6) assms(2) True] st(4) that k by (auto simp: rules_at_def wf_clients_def)
    then show ?thesis
      using set_state_same [OF st(6) assms(2)] True diff_disjoint by metis
  next
    case False
    obtain R where "rules_of intf ds = data_rules intf d + R"
      "rules_of intf (set_state a FW_MARK_NONE ds) = data_rules intf (d\<lparr>fw_connection_state := FW_MARK_NONE\<rparr>) + R"
      using rules_of_split [OF st(6) assms(2)] by metis
    then show ?thesis
      using False k by (simp add: data_rules_def)
  qed
  then show ?thesis
    using w' st wf_set_state [OF st(4)] by (simp add: in_step_def servers_printable_def)
qed

lemma allow_in_step:
  assumes "in_step intf w ds" and "(a, d) \<in> set ds" and "new \<noteq> FW_MARK_NONE"
  shows "\<exists>rc w'. fw_allow env a new w = Some (rc, w') \<and> in_step intf w' (set_state a new ds) \<and>
    w_config w' = w_config w \<and> (\<forall>b. b \<noteq> a \<longrightarrow> load (heap (w_clients w')) b = load (heap (w_clients w)) b)"
proof -
  note st = in_stepD [OF assms(1)]
  have "printable_client d"
    using listed_key [OF st(4) assms(2)] by metis
  from fw_allow_spec [OF st(1,3) assms(2) this assms(3), of "{#}" env] show ?thesis
    using st wf_set_state [OF st(4)] by (auto simp: in_step_def servers_printable_def)
qed

text \<open>Changing a client, and taking an unmarked client off the list.\<close>

lemma modify_in_step:
  assumes "in_step intf w ds" and "(a, d) \<in> set ds" and "\<And>c. c_next (f c) = c_next c" and "\<And>c. cdata (f c) = f (cdata c)"
    and "\<And>c. same_key c (f c)" and "\<And>c. fw_connection_state (f c) = fw_connection_state c"
  shows "\<exists>s. modify a f (w_clients w) = Some s \<and>
    in_step intf (with_clients s w) (map (\<lambda>(b, d). (b, if b = a then f d else d)) ds) \<and>
    (\<forall>b. b \<noteq> a \<longrightarrow> load (heap s) b = load (heap (w_clients w)) b)"
proof -
  note st = in_stepD [OF assms(1)]
  obtain c where c: "load (heap (w_clients w)) a = Some c"
    using listed_client [OF st(3) assms(2)] by blast
  obtain s where s: "modify a f (w_clients w) = Some s" "clist s (map (\<lambda>(b, d). (b, if b = a then f d else d)) ds)"
    "load (heap s) = (load (heap (w_clients w)))(a \<mapsto> f c)"
    using modify_spec [OF st(3) c assms(3,4)] by blast
  have "data_rules intf (f d) = data_rules intf d" for d
    using assms(5,6) [of d] by (simp add: data_rules_def same_key_def)
  then have "rules_of intf (map (\<lambda>(b, d). (b, if b = a then f d else d)) ds) = rules_of intf ds"
    by (induction ds) (auto simp: rules_of_def)
  then show ?thesis
    using s st wf_clients_map [OF st(4) assms(5)] by (simp add: in_step_def servers_printable_def)
qed

lemma rules_without:
  assumes "distinct (map fst ds)" and "(a, d) \<in> set ds" and "fw_connection_state d = FW_MARK_NONE"
  shows "rules_of intf (filter (\<lambda>(b, e). b \<noteq> a) ds) = rules_of intf ds"
  using rules_of_split [OF assms(1,2)] assms(3) by (metis data_rules_def empty_neutral(1))

lemma remove_in_step:
  assumes "in_step intf w ds" and "(a, d) \<in> set ds" and "fw_connection_state d = FW_MARK_NONE"
  shows "\<exists>s. client_list_remove a (w_clients w) = Some s \<and>
    in_step intf (with_clients s w) (filter (\<lambda>(b, e). b \<noteq> a) ds) \<and>
    (\<forall>b. b = a \<or> b \<notin> fst ` set ds \<longrightarrow> load (heap s) b = load (heap (w_clients w)) b)"
proof -
  note st = in_stepD [OF assms(1)]
  obtain s where "client_list_remove a (w_clients w) = Some s" "removed (w_clients w) a ds s"
    using client_list_remove_spec [OF st(3)] by blast
  then show ?thesis
    using st rules_without [OF st(6) assms(2,3)] wf_clients_filter [OF st(4)]
    by (auto simp: removed_def in_step_def servers_printable_def)
qed

lemma set_state_mem: "(a, d) \<in> set ds \<Longrightarrow> (a, d\<lparr>fw_connection_state := st\<rparr>) \<in> set (set_state a st ds)"
  by (force simp: set_state_def)

lemma fst_set_state [simp]: "fst ` set (set_state a st ds) = fst ` set ds"
  by (force simp: set_state_def)


section \<open>Other threads\<close>

text \<open>
  Cells that a thread has for itself, taken off the list or copied: nobody else has a pointer
  to them.
\<close>

definition keeps_private :: "client_state \<Rightarrow> (nat \<times> t_client) list \<Rightarrow> client_state \<Rightarrow> (nat \<times> t_client) list \<Rightarrow> bool" where
  "keeps_private s ds s' ds' \<longleftrightarrow> (\<forall>b. b \<notin> fst ` set ds \<longrightarrow> load (heap s) b \<noteq> None \<longrightarrow>
     b \<notin> fst ` set ds' \<and> load (heap s') b = load (heap s) b)"

lemma keeps_private_trans:
  "keeps_private s1 ds1 s2 ds2 \<Longrightarrow> keeps_private s2 ds2 s3 ds3 \<Longrightarrow> keeps_private s1 ds1 s3 ds3"
  unfolding keeps_private_def by metis

lemma keeps_privateI:
  "(\<And>b. b \<notin> fst ` set ds \<Longrightarrow> load (heap s') b = load (heap s) b) \<Longrightarrow> fst ` set ds' \<subseteq> fst ` set ds \<Longrightarrow> keeps_private s ds s' ds'"
  unfolding keeps_private_def by blast

text \<open>
  What is relied on of the other threads while the lock is given up: they keep the list
  proper and in step with the firewall, and leave alone what is not on the list.
\<close>

definition others_ok :: "env \<Rightarrow> string \<Rightarrow> bool" where
  "others_ok env intf \<longleftrightarrow> (\<forall>w ds. in_step intf w ds \<longrightarrow>
     (\<exists>ds'. in_step intf (yield_clients env w) ds' \<and> keeps_private (w_clients w) ds (w_clients (yield_clients env w)) ds'))"

lemma aside_in_step: "aside intf w w' \<Longrightarrow> in_step intf w ds \<Longrightarrow> in_step intf w' ds"
  using asideD [of intf w w'] by (simp add: in_step_def)

text \<open>Freeing a private cell.\<close>

lemma free_in_step:
  assumes "in_step intf w ds" and "a \<notin> fst ` set ds" and "load (heap (w_clients w)) a = Some c"
  shows "\<exists>s. client_free_node a (w_clients w) = Some s \<and> in_step intf (with_clients s w) ds \<and>
    load (heap s) = (load (heap (w_clients w)))(a := None)"
proof -
  note st = in_stepD [OF assms(1)]
  obtain s where s: "client_free_node a (w_clients w) = Some s" "load (heap s) = (load (heap (w_clients w)))(a := None)"
    "firstclient s = firstclient (w_clients w)"
    using client_free_node_spec [OF assms(3)] by blast
  have "clist s ds"
    using dseg_upd [OF st(3) [unfolded clist_def] s(2) assms(2)] s(3) by (simp add: clist_def)
  then show ?thesis
    using s st by (simp add: in_step_def servers_printable_def)
qed

section \<open>Logging out\<close>

lemma report_in_step:
  assumes rely: "others_ok env intf" "resolves_printable env" and "in_step intf w ds" and "a \<notin> fst ` set ds"
    and "load (heap (w_clients w)) a = Some c" and "valid_client c"
  shows "\<exists>w' ds'. report_logout env version a w = Some w' \<and> in_step intf w' ds' \<and>
    keeps_private (w_clients w) ds (w_clients w') ds'"
proof (cases "auth_servers (w_config w) = []")
  case True
  then show ?thesis
    using assms(3) by (intro exI [of _ w] exI [of _ ds]) (simp add: report_logout_def keeps_private_def)
next
  case False
  obtain ip mac token where k: "c_ip c = Some ip" "c_mac c = Some mac" "c_token c = Some token"
    using assms(6) by (auto simp: valid_client_def)
  obtain code w3 where w3: "auth_server_request env version REQUEST_TYPE_LOGOUT ip mac token (counters c) w = Some (code, w3)"
    "aside intf w w3"
    using auth_server_request_spec [OF rely(2) in_stepD(1,2) [OF assms(3)] False] by blast
  obtain ds3 where "in_step intf (yield_clients env w3) ds3" "keeps_private (w_clients w3) ds (w_clients (yield_clients env w3)) ds3"
    using rely(1) aside_in_step [OF w3(2) assms(3)] unfolding others_ok_def by blast
  then show ?thesis
    using False assms(5) k w3(1) asideD(4) [OF w3(2)]
    by (intro exI [of _ "yield_clients env w3"] exI [of _ ds3]) (simp add: report_logout_def)
qed

lemma logout_in_step:
  assumes rely: "others_ok env intf" "resolves_printable env" and "in_step intf w ds" and "(a, d) \<in> set ds"
  shows "\<exists>w' ds'. logout_client env version a w = Some w' \<and> in_step intf w' ds' \<and>
    a \<notin> fst ` set ds' \<and> load (heap (w_clients w')) a = None \<and> keeps_private (w_clients w) ds (w_clients w') ds'"
proof -
  let ?ds = "set_state a FW_MARK_NONE ds" and ?d = "d\<lparr>fw_connection_state := FW_MARK_NONE\<rparr>"
  obtain rc w1 where w1: "fw_deny env a w = Some (rc, w1)" "in_step intf w1 ?ds" "w_config w1 = w_config w"
    "\<forall>b. b \<noteq> a \<longrightarrow> load (heap (w_clients w1)) b = load (heap (w_clients w)) b"
    using deny_in_step [OF assms(3,4)] by blast
  have mem: "(a, ?d) \<in> set ?ds"
    using assms(4) by (rule set_state_mem)
  let ?es = "filter (\<lambda>(b, e). b \<noteq> a) ?ds"
  obtain s where s: "client_list_remove a (w_clients w1) = Some s" "in_step intf (with_clients s w1) ?es"
    "\<forall>b. b = a \<or> b \<notin> fst ` set ?ds \<longrightarrow> load (heap s) b = load (heap (w_clients w1)) b"
    using remove_in_step [OF w1(2) mem] by auto
  obtain c where c: "load (heap (w_clients w1)) a = Some c" "cdata c = ?d"
    using listed_client [OF in_stepD(3) [OF w1(2)] mem] .
  have "valid_client (cdata c)"
    using valid_mem [OF in_stepD(7) [OF w1(2)] mem] c(2) by simp
  then have valid: "valid_client c" by simp
  have a_out: "a \<notin> fst ` set ?es" "load (heap s) a = Some c"
    using s(3) c(1) by auto
  have priv: "keeps_private (w_clients w) ds s ?es"
  proof (rule keeps_privateI)
    show "load (heap s) b = load (heap (w_clients w)) b" if "b \<notin> fst ` set ds" for b
    proof -
      have "b \<noteq> a" using that assms(4) by force
      then show ?thesis using w1(4) s(3) that by simp
    qed
    show "fst ` set ?es \<subseteq> fst ` set ds"
      unfolding fst_set_state [of a FW_MARK_NONE ds, symmetric] by (rule image_mono) (rule filter_is_subset)
  qed
  obtain w3 ds3 where w3: "report_logout env version a (with_clients s w1) = Some w3" "in_step intf w3 ds3"
    "keeps_private s ?es (w_clients w3) ds3"
    using report_in_step [OF rely s(2) a_out(1) _ valid, where version = version] a_out(2) by auto
  have a3: "a \<notin> fst ` set ds3" "load (heap (w_clients w3)) a = Some c"
    using w3(3) a_out unfolding keeps_private_def by auto
  obtain s3 where s3: "client_free_node a (w_clients w3) = Some s3" "in_step intf (with_clients s3 w3) ds3"
    "load (heap s3) = (load (heap (w_clients w3)))(a := None)"
    using free_in_step [OF w3(2) a3] by blast
  have "a \<in> fst ` set ds" using assms(4) by force
  then have "keeps_private (w_clients w) ds s3 ds3"
    using keeps_private_trans [OF priv w3(3)] s3(3) unfolding keeps_private_def by auto
  then show ?thesis
    using w1(1) s(1) w3(1) s3 a3(1)
    by (intro exI [of _ "with_clients s3 w3"] exI [of _ ds3]) (simp add: logout_client_def)
qed


section \<open>The verdict of the server\<close>

lemma delete_in_step:
  assumes "in_step intf w ds" and "(a, d) \<in> set ds" and "fw_connection_state d = FW_MARK_NONE"
  shows "\<exists>s. client_list_delete a (w_clients w) = Some s \<and>
    in_step intf (with_clients s w) (filter (\<lambda>(b, e). b \<noteq> a) ds) \<and>
    (\<forall>b. b \<notin> fst ` set ds \<longrightarrow> load (heap s) b = load (heap (w_clients w)) b)"
proof -
  note st = in_stepD [OF assms(1)]
  obtain c where "load (heap (w_clients w)) a = Some c"
    using listed_client [OF st(3) assms(2)] by blast
  from client_list_delete_spec [OF st(3) this] obtain s where "client_list_delete a (w_clients w) = Some s"
    "clist s (filter (\<lambda>(b, e). b \<noteq> a) ds)" "\<forall>b. b \<noteq> a \<and> b \<notin> fst ` set ds \<longrightarrow> load (heap s) b = load (heap (w_clients w)) b"
    by blast
  moreover have "a \<in> fst ` set ds" using assms(2) by force
  ultimately show ?thesis
    using st rules_without [OF st(6) assms(2,3)] wf_clients_filter [OF st(4)]
    by (intro exI [of _ s]) (auto simp: in_step_def servers_printable_def)
qed

lemma fst_filter_state: "fst ` set (filter P (set_state a st ds)) \<subseteq> fst ` set ds"
  unfolding fst_set_state [of a st ds, symmetric] by (rule image_mono) (rule filter_is_subset)

lemma denied_in_step:
  assumes "in_step intf w ds" and "(a, d) \<in> set ds"
  shows "\<exists>rc w1 s. fw_deny env a w = Some (rc, w1) \<and> client_list_delete a (w_clients w1) = Some s \<and>
    in_step intf (with_clients s w1) (filter (\<lambda>(b, e). b \<noteq> a) (set_state a FW_MARK_NONE ds)) \<and>
    keeps_private (w_clients w) ds s (filter (\<lambda>(b, e). b \<noteq> a) (set_state a FW_MARK_NONE ds))"
proof -
  obtain rc w1 where w1: "fw_deny env a w = Some (rc, w1)" "in_step intf w1 (set_state a FW_MARK_NONE ds)"
    "\<forall>b. b \<noteq> a \<longrightarrow> load (heap (w_clients w1)) b = load (heap (w_clients w)) b"
    using deny_in_step [OF assms] by blast
  obtain s where s: "client_list_delete a (w_clients w1) = Some s"
    "in_step intf (with_clients s w1) (filter (\<lambda>(b, e). b \<noteq> a) (set_state a FW_MARK_NONE ds))"
    "\<forall>b. b \<notin> fst ` set (set_state a FW_MARK_NONE ds) \<longrightarrow> load (heap s) b = load (heap (w_clients w1)) b"
    using delete_in_step [OF w1(2) set_state_mem [OF assms(2)]] by auto
  have "a \<in> fst ` set ds" using assms(2) by force
  then have "keeps_private (w_clients w) ds s (filter (\<lambda>(b, e). b \<noteq> a) (set_state a FW_MARK_NONE ds))"
    using w1(3) s(3) by (intro keeps_privateI fst_filter_state) (metis fst_set_state)
  with w1(1) s show ?thesis by blast
qed

text \<open>The specification of the verdict, on the list of the clients.\<close>

definition clear_client :: "nat \<Rightarrow> (nat \<times> t_client) list \<Rightarrow> (nat \<times> t_client) list" where
  "clear_client a ds = map (\<lambda>(b, d). (b, if b = a then clear_counters d else d)) ds"

definition verdict :: "int \<Rightarrow> nat \<Rightarrow> t_client \<Rightarrow> (nat \<times> t_client) list \<Rightarrow> (nat \<times> t_client) list" where
  "verdict authcode a d ds =
     (if authcode = AUTH_DENIED \<or> authcode = AUTH_VALIDATION_FAILED then filter (\<lambda>(b, e). b \<noteq> a) ds
      else if authcode = AUTH_ALLOWED \<and> fw_connection_state d \<noteq> FW_MARK_KNOWN
      then set_state a FW_MARK_KNOWN (if fw_connection_state d = FW_MARK_PROBATION then ds else clear_client a ds)
      else ds)"

lemma filter_set_state: "filter (\<lambda>(b, e). b \<noteq> a) (set_state a st ds) = filter (\<lambda>(b, e). b \<noteq> a) ds"
  by (induction ds) (auto simp: set_state_def)

lemma clear_in_step:
  assumes "in_step intf w ds" and "(a, d) \<in> set ds"
  shows "\<exists>s. modify a clear_counters (w_clients w) = Some s \<and> in_step intf (with_clients s w) (clear_client a ds) \<and>
    (\<forall>b. b \<noteq> a \<longrightarrow> load (heap s) b = load (heap (w_clients w)) b) \<and> (a, clear_counters d) \<in> set (clear_client a ds)"
proof -
  have "(a, clear_counters d) \<in> set (clear_client a ds)"
    using assms(2) by (force simp: clear_client_def)
  with modify_in_step [OF assms, of clear_counters] show ?thesis
    by (simp add: clear_counters_def cdata_def same_key_def clear_client_def)
qed

lemma verdict_in_step:
  assumes "in_step intf w ds" and "(a, d) \<in> set ds"
  shows "\<exists>w'. sync_verdict env authcode a w = Some w' \<and> in_step intf w' (verdict authcode a d ds) \<and>
    keeps_private (w_clients w) ds (w_clients w') (verdict authcode a d ds)"
proof -
  obtain c where c: "load (heap (w_clients w)) a = Some c" "cdata c = d"
    using listed_client [OF in_stepD(3) [OF assms(1)] assms(2)] .
  then have state: "fw_connection_state c = fw_connection_state d" by auto
  have listed: "a \<in> fst ` set ds" using assms(2) by force
  consider (denied) "authcode = AUTH_DENIED \<or> authcode = AUTH_VALIDATION_FAILED"
    | (allowed) "authcode = AUTH_ALLOWED" "fw_connection_state d \<noteq> FW_MARK_KNOWN"
    | (other) "\<not> (authcode = AUTH_DENIED \<or> authcode = AUTH_VALIDATION_FAILED)" "authcode = AUTH_ALLOWED \<longrightarrow> fw_connection_state d = FW_MARK_KNOWN"
    by blast
  then show ?thesis
  proof cases
    case denied
    obtain rc w1 s where "fw_deny env a w = Some (rc, w1)" "client_list_delete a (w_clients w1) = Some s"
      "in_step intf (with_clients s w1) (filter (\<lambda>(b, e). b \<noteq> a) ds)"
      "keeps_private (w_clients w) ds s (filter (\<lambda>(b, e). b \<noteq> a) ds)"
      using denied_in_step [OF assms] unfolding filter_set_state by blast
    with denied show ?thesis
      by (intro exI [of _ "with_clients s w1"]) (auto simp: sync_verdict_def verdict_def)
  next
    case allowed
    let ?es = "if fw_connection_state d = FW_MARK_PROBATION then ds else clear_client a ds"
    have known: "FW_MARK_KNOWN \<noteq> FW_MARK_NONE" by (simp add: FW_MARK_KNOWN_def FW_MARK_NONE_def)
    obtain s e where s: "(if fw_connection_state c \<noteq> FW_MARK_PROBATION then modify a clear_counters (w_clients w)
        else Some (w_clients w)) = Some s" "in_step intf (with_clients s w) ?es" "(a, e) \<in> set ?es"
      "\<forall>b. b \<noteq> a \<longrightarrow> load (heap s) b = load (heap (w_clients w)) b"
    proof (cases "fw_connection_state d = FW_MARK_PROBATION")
      case True
      then show ?thesis
        using that [of "w_clients w" d] assms state by (simp add: with_clients_def)
    next
      case False
      then show ?thesis
        using clear_in_step [OF assms] that state by auto
    qed
    obtain rc w' where w': "fw_allow env a FW_MARK_KNOWN (with_clients s w) = Some (rc, w')"
      "in_step intf w' (set_state a FW_MARK_KNOWN ?es)"
      "\<forall>b. b \<noteq> a \<longrightarrow> load (heap (w_clients w')) b = load (heap s) b"
      using allow_in_step [OF s(2,3) known, of env] by auto
    have v: "verdict authcode a d ds = set_state a FW_MARK_KNOWN ?es"
      using allowed by (simp add: verdict_def AUTH_DENIED_def AUTH_VALIDATION_FAILED_def AUTH_ALLOWED_def)
    have keys: "fst ` set ?es = fst ` set ds"
      by (force simp: clear_client_def)
    have "keeps_private (w_clients w) ds (w_clients w') (set_state a FW_MARK_KNOWN ?es)"
      using w'(3) s(4) listed keys by (intro keeps_privateI) (metis, simp)
    then show ?thesis
      unfolding v using allowed c(1) state s(1) w'(1,2)
      by (intro exI [of _ w']) (simp add: sync_verdict_def AUTH_DENIED_def AUTH_VALIDATION_FAILED_def AUTH_ALLOWED_def)
  next
    case other
    then have "sync_verdict env authcode a w = Some w" "verdict authcode a d ds = ds"
      using c(1) state by (auto simp: sync_verdict_def verdict_def)
    then show ?thesis
      using assms(1) by (simp add: keeps_private_def)
  qed
qed


section \<open>The synchronisation\<close>

lemma find_mem: "List.find P xs = Some x \<Longrightarrow> x \<in> set xs"
  by (metis find_Some_iff nth_mem)

lemma sync_client_in_step:
  assumes rely: "others_ok env intf" "resolves_printable env" and w: "in_step intf w ds"
    and p: "p \<notin> fst ` set ds" "load (heap (w_clients w)) p = Some c" "valid_client c"
  shows "\<exists>w' ds'. sync_client env version p w = Some w' \<and> in_step intf w' ds' \<and>
    keeps_private (w_clients w) ds (w_clients w') ds'"
proof -
  obtain ip mac token where k: "c_ip c = Some ip" "c_mac c = Some mac" "c_token c = Some token"
    using p(3) by (auto simp: valid_client_def)
  let ?w1 = "did (Icmp ip) w"
  have w1: "aside intf w ?w1" by simp
  note in1 = aside_in_step [OF w1 w]
  obtain authcode w2 where w2: "(if auth_servers (w_config ?w1) \<noteq> []
        then auth_server_request env version REQUEST_TYPE_COUNTERS ip mac token (counters c) ?w1
        else Some (AUTH_ERROR, ?w1)) = Some (authcode, w2)" "aside intf ?w1 w2"
  proof (cases "auth_servers (w_config ?w1) = []")
    case True
    then show ?thesis using that [of AUTH_ERROR ?w1] by simp
  next
    case False
    then show ?thesis
      using that auth_server_request_spec [OF rely(2) in_stepD(1,2) [OF in1] False] by fastforce
  qed
  let ?w3 = "did Time w2" and ?now = "e_time env (w_history w2)"
  let ?w4 = "yield_clients env ?w3"
  have a3: "aside intf w ?w3"
    by (rule aside_trans [OF aside_trans [OF w1 w2(2)]]) simp
  obtain ds4 where w4: "in_step intf ?w4 ds4" "keeps_private (w_clients w) ds (w_clients ?w4) ds4"
    using rely(1) aside_in_step [OF a3 w] asideD(4) [OF a3] unfolding others_ok_def by metis
  have p4: "load (heap (w_clients ?w4)) p = Some c"
    using w4(2) p(1,2) unfolding keeps_private_def by simp
  have found: "client_list_find_by_client p (w_clients ?w4) = Some (map_option fst (List.find (\<lambda>(a, d). c_id d = c_id c) ds4))"
    by (rule find_by_client_spec [OF in_stepD(3) [OF w4(1)] p4])
  let ?rest = "\<lambda>a. if last_updated (counters c) + checkinterval (w_config ?w4) * clienttimeout (w_config ?w4) \<le> ?now
          then logout_client env version a ?w4
          else if auth_servers (w_config ?w4) \<noteq> [] then sync_verdict env authcode a ?w4 else Some ?w4"
  have run: "sync_client env version p w = (case List.find (\<lambda>(a, d). c_id d = c_id c) ds4 of None \<Rightarrow> Some ?w4 | Some (a, d) \<Rightarrow> ?rest a)"
    using p(2) k w2(1) found by (auto simp: sync_client_def get_time_def Let_def split: option.split)
  have rest: "\<exists>w' ds'. ?rest a = Some w' \<and> in_step intf w' ds' \<and> keeps_private (w_clients ?w4) ds4 (w_clients w') ds'"
    if "(a, d) \<in> set ds4" for a d
    using logout_in_step [OF rely w4(1) that, of version] verdict_in_step [OF w4(1) that, of env authcode] w4(1)
    by (auto simp: keeps_private_def)
  show ?thesis
  proof (cases "List.find (\<lambda>(a, d). c_id d = c_id c) ds4")
    case None
    then show ?thesis
      using run w4 by auto
  next
    case (Some x)
    obtain a d where x: "x = (a, d)" by (cases x)
    obtain w' ds' where w': "?rest a = Some w'" "in_step intf w' ds'" "keeps_private (w_clients ?w4) ds4 (w_clients w') ds'"
      using rest [of a d] find_mem [OF Some] unfolding x by blast
    have "sync_client env version p w = Some w'"
      unfolding run Some x option.case prod.case by (rule w'(1))
    then show ?thesis
      using w'(2) keeps_private_trans [OF w4(2) w'(3)] by blast
  qed
qed

text \<open>The whole work list.\<close>

lemma private_dseg:
  assumes "keeps_private s ds s' ds'" and "dseg s p es" and "fst ` set es \<inter> fst ` set ds = {}"
  shows "dseg s' p es" and "fst ` set es \<inter> fst ` set ds' = {}"
proof -
  have keep: "b \<notin> fst ` set ds'" "load (heap s') b = load (heap s) b" if "b \<in> fst ` set es" for b
    using assms(1,3) that dseg_allocated [OF assms(2) that] unfolding keeps_private_def by blast+
  show "dseg s' p es"
    by (rule dseg_cong [OF assms(2)]) (rule keep(2))
  show "fst ` set es \<inter> fst ` set ds' = {}"
    using keep(1) by blast
qed

lemma sync_loop_in_step:
  assumes rely: "others_ok env intf" "resolves_printable env" and "in_step intf w ds" and "dseg (w_clients w) p es"
    and "fst ` set es \<inter> fst ` set ds = {}" and "valid_clients es"
  shows "\<exists>w' ds'. sync_loop env version p w = Some w' \<and> in_step intf w' ds' \<and>
    keeps_private (w_clients w) ds (w_clients w') ds'"
  using assms(3-)
proof (induction es arbitrary: p w ds)
  case Nil
  then show ?case
    by (intro exI [of _ w] exI [of _ ds]) (simp add: sync_loop.simps keeps_private_def)
next
  case (Cons x es)
  obtain a d where x: "x = (a, d)" by (cases x)
  obtain c where c: "p = Some a" "load (heap (w_clients w)) a = Some c" "d = cdata c" "dseg (w_clients w) (c_next c) es"
    using Cons.prems(2) x by auto
  have a: "a \<notin> fst ` set ds" and es: "fst ` set es \<inter> fst ` set ds = {}" and v: "valid_client c" "valid_clients es"
    using Cons.prems(3,4) x c(3) by auto
  obtain w1 ds1 where w1: "sync_client env version a w = Some w1" "in_step intf w1 ds1"
    "keeps_private (w_clients w) ds (w_clients w1) ds1"
    using sync_client_in_step [OF rely Cons.prems(1) a c(2) v(1)] by blast
  obtain w2 ds2 where w2: "sync_loop env version (c_next c) w1 = Some w2" "in_step intf w2 ds2"
    "keeps_private (w_clients w1) ds1 (w_clients w2) ds2"
    using Cons.IH [OF w1(2) private_dseg [OF w1(3) c(4) es] v(2)] by blast
  have "sync_loop env version p w = Some w2"
    unfolding c(1) using c(2) w1(1) w2(1) by (simp add: sync_loop.simps [of env version "Some a"])
  then show ?case
    using w2(2) keeps_private_trans [OF w1(3) w2(3)] by blast
qed


section \<open>Reading the counters\<close>

text \<open>Every address in the lines of a listing satisfies \<open>Q\<close>.\<close>

function lines_known :: "(string \<Rightarrow> bool) \<Rightarrow> nat \<Rightarrow> nat \<Rightarrow> string \<Rightarrow> bool" where
  "lines_known Q before after s =
     (if s = [] then True
      else (case scan_entry before after s of
              (None, rest) \<Rightarrow> lines_known Q before after rest
            | (Some (counter, ip), rest) \<Rightarrow> (inet_aton ip \<longrightarrow> Q ip) \<and> lines_known Q before after rest))"
  by pat_completeness auto
termination
  by (relation "measure (\<lambda>(Q, before, after, s). length s)") (auto dest: scan_entry_eq_shorter)

declare lines_known.simps [simp del]

definition ips :: "(nat \<times> t_client) list \<Rightarrow> string option set" where
  "ips ds = (\<lambda>x. c_ip (snd x)) ` set ds"

lemma ips_map:
  assumes "\<And>d. c_ip (f d) = c_ip d"
  shows "ips (map (\<lambda>(b, d). (b, if b = a then f d else d)) ds) = ips ds"
  using assms by (induction ds) (auto simp: ips_def)

lemma fst_update: "fst ` set (map (\<lambda>(b, d). (b, if b = a then f d else d)) ds) = fst ` set ds"
  by (induction ds) auto

definition counts :: "string \<Rightarrow> world \<Rightarrow> (nat \<times> t_client) list \<Rightarrow> world \<Rightarrow> (nat \<times> t_client) list \<Rightarrow> bool" where
  "counts intf w ds w' ds' \<longleftrightarrow> in_step intf w' ds' \<and> keeps_private (w_clients w) ds (w_clients w') ds' \<and> ips ds' = ips ds"

lemma counts_trans: "counts intf w1 ds1 w2 ds2 \<Longrightarrow> counts intf w2 ds2 w3 ds3 \<Longrightarrow> counts intf w1 ds1 w3 ds3"
  unfolding counts_def using keeps_private_trans by metis

lemma counts_refl: "in_step intf w ds \<Longrightarrow> counts intf w ds w ds"
  by (simp add: counts_def keeps_private_def)

lemma counts_modify:
  assumes "in_step intf w ds" and "(a, d) \<in> set ds" and "\<And>c. c_next (f c) = c_next c" and "\<And>c. cdata (f c) = f (cdata c)"
    and "\<And>c. same_key c (f c)" and "\<And>c. fw_connection_state (f c) = fw_connection_state c"
  shows "\<exists>s ds'. modify a f (w_clients w) = Some s \<and> counts intf w ds (with_clients s w) ds'"
proof -
  let ?ds = "map (\<lambda>(b, d). (b, if b = a then f d else d)) ds"
  obtain s where s: "modify a f (w_clients w) = Some s" "in_step intf (with_clients s w) ?ds"
    "\<forall>b. b \<noteq> a \<longrightarrow> load (heap s) b = load (heap (w_clients w)) b"
    using modify_in_step [OF assms] by blast
  have a: "a \<in> fst ` set ds" using assms(2) by force
  have "keeps_private (w_clients w) ds s ?ds"
  proof (rule keeps_privateI)
    show "load (heap s) b = load (heap (w_clients w)) b" if "b \<notin> fst ` set ds" for b
      using s(3) a that by metis
  qed (simp only: fst_update subset_refl)
  moreover have "ips ?ds = ips ds"
    using assms(5) by (intro ips_map) (simp add: same_key_def)
  ultimately show ?thesis
    using s(1,2) by (intro exI [of _ s] exI [of _ ?ds]) (simp only: counts_def with_clients_simps simp_thms)
qed

lemma count_line:
  assumes "in_step intf w ds" and "inet_aton ip \<longrightarrow> Some ip \<in> ips ds"
  shows "\<exists>w' ds'. count_outgoing env n ip w = Some w' \<and> counts intf w ds w' ds'"
    and "\<exists>w' ds'. count_incoming env n ip w = Some w' \<and> counts intf w ds w' ds'"
proof -
  note st = in_stepD [OF assms(1)]
  have both: "(\<exists>w' ds'. count_outgoing env n ip w = Some w' \<and> counts intf w ds w' ds') \<and>
    (\<exists>w' ds'. count_incoming env n ip w = Some w' \<and> counts intf w ds w' ds')"
  proof (cases "inet_aton ip")
    case False
    then show ?thesis
      using counts_refl [OF assms(1)] by (auto simp: count_outgoing_def count_incoming_def)
  next
    case True
    with assms(2) obtain b e where be: "(b, e) \<in> set ds" "c_ip e = Some ip"
      by (auto simp: ips_def)
    then have "List.find (\<lambda>(a, d). c_ip d = Some ip) ds \<noteq> None"
      unfolding find_None_iff by blast
    then obtain a d where ad: "List.find (\<lambda>(a, d). c_ip d = Some ip) ds = Some (a, d)"
      by auto
    then have mem: "(a, d) \<in> set ds" and find: "client_list_find_by_ip ip (w_clients w) = Some (Some a)"
      using find_mem find_by_ip_spec [OF st(3,7)] by auto
    obtain c where c: "load (heap (w_clients w)) a = Some c"
      using listed_client [OF st(3) mem] by blast
    let ?now = "e_time env (w_history w)"
    have t: "aside intf w (did Time w)" by simp
    obtain s1 ds1 where 1: "modify a (update_outgoing n ?now) (w_clients w) = Some s1"
      "counts intf (did Time w) ds (with_clients s1 (did Time w)) ds1"
      using counts_modify [OF aside_in_step [OF t assms(1)] mem, of "update_outgoing n ?now"]
      by (auto simp: update_outgoing_def cdata_def same_key_def Let_def)
    obtain s2 ds2 where 2: "modify a (update_incoming n) (w_clients w) = Some s2" "counts intf w ds (with_clients s2 w) ds2"
      using counts_modify [OF assms(1) mem, of "update_incoming n"]
      by (auto simp: update_incoming_def cdata_def same_key_def Let_def)
    have 3: "counts intf w ds (with_clients s1 (did Time w)) ds1"
      using 1(2) by (simp add: counts_def)
    show ?thesis
    proof (intro conjI)
      show "\<exists>w' ds'. count_outgoing env n ip w = Some w' \<and> counts intf w ds w' ds'"
        using True find c 1(1) 3 counts_refl [OF assms(1)]
        by (cases "outgoing (counters c) - outgoing_history (counters c) < n") (auto simp: count_outgoing_def get_time_def)
      show "\<exists>w' ds'. count_incoming env n ip w = Some w' \<and> counts intf w ds w' ds'"
        using True find c 2 counts_refl [OF assms(1)]
        by (cases "incoming (counters c) - incoming_history (counters c) < n") (auto simp: count_incoming_def)
    qed
  qed
  then show "\<exists>w' ds'. count_outgoing env n ip w = Some w' \<and> counts intf w ds w' ds'"
    "\<exists>w' ds'. count_incoming env n ip w = Some w' \<and> counts intf w ds w' ds'" by blast+
qed

lemma count_loop_in_step:
  assumes line: "\<And>n ip w ds. in_step intf w ds \<Longrightarrow> inet_aton ip \<longrightarrow> Some ip \<in> ips ds \<Longrightarrow>
      \<exists>w' ds'. f n ip w = Some w' \<and> counts intf w ds w' ds'"
    and "in_step intf w ds" and "lines_known (\<lambda>ip. Some ip \<in> ips ds) before after s"
  shows "\<exists>w' ds'. count_loop f before after s w = Some w' \<and> counts intf w ds w' ds'"
  using assms(2,3)
proof (induction "length s" arbitrary: s w ds rule: less_induct)
  case less
  show ?case
  proof (cases "s = []")
    case True
    then show ?thesis
      using counts_refl [OF less.prems(1)] by (auto simp: count_loop.simps)
  next
    case False
    obtain e rest where e: "scan_entry before after s = (e, rest)" by fastforce
    have shorter: "length rest < length s"
      using scan_entry_shorter [OF False, of before after] e by simp
    show ?thesis
    proof (cases e)
      case None
      then have "lines_known (\<lambda>ip. Some ip \<in> ips ds) before after rest"
        using less.prems(2) False e by (simp add: lines_known.simps [of _ _ _ s])
      from less.hyps [OF shorter less.prems(1) this] show ?thesis
        using False e None by (simp add: count_loop.simps [of _ _ _ s])
    next
      case (Some x)
      obtain n ip where x: "x = (n, ip)" by (cases x)
      have known: "inet_aton ip \<longrightarrow> Some ip \<in> ips ds" "lines_known (\<lambda>ip. Some ip \<in> ips ds) before after rest"
        using less.prems(2) False e Some x by (simp_all add: lines_known.simps [of _ _ _ s])
      obtain w1 ds1 where w1: "f n ip w = Some w1" "counts intf w ds w1 ds1"
        using line [OF less.prems(1) known(1)] by blast
      then have "in_step intf w1 ds1" "ips ds1 = ips ds"
        by (simp_all add: counts_def)
      with less.hyps [OF shorter, of w1 ds1] known(2) obtain w' ds' where
        "count_loop f before after rest w1 = Some w'" "counts intf w1 ds1 w' ds'" by auto
      then show ?thesis
        using False e Some x w1(1) counts_trans [OF w1(2)] by (auto simp: count_loop.simps [of _ _ _ s])
    qed
  qed
qed

lemma count_loops:
  assumes "in_step intf w ds" and "lines_known (\<lambda>ip. Some ip \<in> ips ds) before after s"
  shows "\<exists>w' ds'. count_loop (count_outgoing env) before after s w = Some w' \<and> counts intf w ds w' ds'"
    and "\<exists>w' ds'. count_loop (count_incoming env) before after s w = Some w' \<and> counts intf w ds w' ds'"
  by (rule count_loop_in_step [OF count_line(1) assms], assumption+)
    (rule count_loop_in_step [OF count_line(2) assms], assumption+)

text \<open>
  What is relied on of the listings: while the firewall holds the rules of the clients \<open>ds\<close> and
  no others, only addresses of these clients show up. (The rules of an unknown address are deleted by
  number.)
\<close>

definition counter_chain :: "string \<Rightarrow> nat \<Rightarrow> nat \<Rightarrow> bool" where
  "counter_chain chain before after \<longleftrightarrow>
     chain = CHAIN_OUTGOING \<and> before = 5 \<and> after = 6 \<or> chain = CHAIN_INCOMING \<and> before = 6 \<and> after = 0"

definition listings_known :: "env \<Rightarrow> string \<Rightarrow> bool" where
  "listings_known env intf \<longleftrightarrow> (\<forall>w ds chain before after out. in_step intf w ds \<longrightarrow> counter_chain chain before after \<longrightarrow>
     e_popen env (w_history w) (replace_id (take CHAIN_NAME_MAX_LEN intf) (''iptables -v -n -x -t mangle -L '' @ chain)) = Some out \<longrightarrow>
     lines_known (\<lambda>ip. Some ip \<in> ips ds) before after (skip_line (skip_line out)))"

lemma list_chain_spec:
  assumes "in_step intf w ds" and "counter_chain chain before after" and "listings_known env intf"
  shows "\<exists>out w1. list_chain env chain w = Some (out, w1) \<and> aside intf w w1 \<and>
    (\<forall>s. out = Some s \<longrightarrow> lines_known (\<lambda>ip. Some ip \<in> ips ds) before after s)"
proof -
  let ?cmd = "replace_id (take CHAIN_NAME_MAX_LEN intf) (''iptables -v -n -x -t mangle -L '' @ chain)"
  have "no_percent chain"
    using assms(2) by (auto simp: counter_chain_def chain_defs)
  then have "iptables_insert_gateway_id (w_config w) (''iptables -v -n -x -t mangle -L '' @ chain) = Some ?cmd"
    by (intro insert_gateway_id_eq [OF in_stepD(1) [OF assms(1)]]) (simp add: no_percent_def)
  then have "list_chain env chain w = Some (map_option (\<lambda>o1. skip_line (skip_line o1)) (e_popen env (w_history w) ?cmd), did (Popen ?cmd) w)"
    unfolding list_chain_def popen_def by (simp only: bind.simps Let_def prod.case)
  moreover have "aside intf w (did (Popen ?cmd) w)" by (rule aside_did) simp
  moreover have "lines_known (\<lambda>ip. Some ip \<in> ips ds) before after s"
    if "map_option (\<lambda>o1. skip_line (skip_line o1)) (e_popen env (w_history w) ?cmd) = Some s" for s
    using assms that unfolding listings_known_def map_option_eq_Some by blast
  ultimately show ?thesis by blast
qed

lemma counters_run:
  assumes "list_chain env CHAIN_OUTGOING w = Some (out, w1)"
  shows "out = None \<Longrightarrow> iptables_fw_counters_update env w = Some (-1, w1)"
    and "out = Some s \<Longrightarrow> count_loop (count_outgoing env) 5 6 s w1 = Some w2 \<Longrightarrow>
      list_chain env CHAIN_INCOMING w2 = Some (None, w3) \<Longrightarrow> iptables_fw_counters_update env w = Some (-1, w3)"
    and "out = Some s \<Longrightarrow> count_loop (count_outgoing env) 5 6 s w1 = Some w2 \<Longrightarrow>
      list_chain env CHAIN_INCOMING w2 = Some (Some s2, w3) \<Longrightarrow> count_loop (count_incoming env) 6 0 s2 w3 = Some w4 \<Longrightarrow>
      iptables_fw_counters_update env w = Some (1, w4)"
  using assms by (simp_all add: iptables_fw_counters_update_def)

lemma counters_in_step:
  assumes "in_step intf w ds" and "listings_known env intf"
  shows "\<exists>rc w' ds'. iptables_fw_counters_update env w = Some (rc, w') \<and> counts intf w ds w' ds'"
proof -
  have step: "counts intf w ds w1 ds" if "aside intf w w1" "in_step intf w ds" for w w1 ds
    using aside_in_step [OF that] asideD(4) [OF that(1)] by (simp add: counts_def keeps_private_def)
  have ch: "counter_chain CHAIN_OUTGOING 5 6" "counter_chain CHAIN_INCOMING 6 0" by (simp_all add: counter_chain_def)
  obtain out w1 where o1: "list_chain env CHAIN_OUTGOING w = Some (out, w1)" "aside intf w w1"
    "\<forall>s. out = Some s \<longrightarrow> lines_known (\<lambda>ip. Some ip \<in> ips ds) 5 6 s"
    using list_chain_spec [OF assms(1) ch(1) assms(2)] by blast
  note c1 = step [OF o1(2) assms(1)]
  show ?thesis
  proof (cases out)
    case None
    then show ?thesis
      using counters_run(1) [OF o1(1)] c1 by blast
  next
    case (Some s)
    have in1: "in_step intf w1 ds" using c1 by (simp add: counts_def)
    have known1: "lines_known (\<lambda>ip. Some ip \<in> ips ds) 5 6 s" using o1(3) Some by simp
    obtain w2 ds2 where w2: "count_loop (count_outgoing env) 5 6 s w1 = Some w2" "counts intf w1 ds w2 ds2"
      using count_loops(1) [OF in1 known1] by blast
    have in2: "in_step intf w2 ds2"
      using w2(2) by (simp add: counts_def)
    obtain out2 w3 where o2: "list_chain env CHAIN_INCOMING w2 = Some (out2, w3)" "aside intf w2 w3"
      "\<forall>s. out2 = Some s \<longrightarrow> lines_known (\<lambda>ip. Some ip \<in> ips ds2) 6 0 s"
      using list_chain_spec [OF in2 ch(2) assms(2)] by blast
    note c3 = counts_trans [OF counts_trans [OF c1 w2(2)] step [OF o2(2) in2]]
    show ?thesis
    proof (cases out2)
      case None
      then show ?thesis
        using counters_run(2) [OF o1(1) Some w2(1)] o2(1) c3 by blast
    next
      case s2: (Some s2)
      have in3: "in_step intf w3 ds2" using c3 by (simp add: counts_def)
      have known2: "lines_known (\<lambda>ip. Some ip \<in> ips ds2) 6 0 s2" using o2(3) s2 by simp
      obtain w4 ds4 where w4: "count_loop (count_incoming env) 6 0 s2 w3 = Some w4" "counts intf w3 ds2 w4 ds4"
        using count_loops(2) [OF in3 known2] by blast
      then show ?thesis
        using counters_run(3) [OF o1(1) Some w2(1) _ w4(1)] o2(1) s2 counts_trans [OF c3 w4(2)] by blast
    qed
  qed
qed


section \<open>The work list\<close>

lemma take_worklist:
  assumes "in_step intf w ds"
  shows "\<exists>p n s es. client_list_dup (w_clients w) = Some (p, n, s) \<and> in_step intf (with_clients s w) ds \<and> dseg s p es \<and>
    fst ` set es \<inter> fst ` set ds = {} \<and> valid_clients es \<and>
    (\<forall>b. load (heap (w_clients w)) b \<noteq> None \<longrightarrow> b \<notin> fst ` set es \<and> load (heap s) b = load (heap (w_clients w)) b)"
proof -
  note st = in_stepD [OF assms]
  obtain p s es where dup: "client_list_dup (w_clients w) = Some (p, int (length ds), s)" "clist s ds" "dseg s p es"
    "map snd es = map (\<lambda>x. dup_data (snd x)) ds" "grows {} (w_clients w) s es"
    using client_list_dup_spec [OF st(3,7)] by blast
  have old: "b \<notin> fst ` set es \<and> load (heap s) b = load (heap (w_clients w)) b" if "load (heap (w_clients w)) b \<noteq> None" for b
    using growsD(3) [OF dup(5) _ that] growsD(4) [OF dup(5), of b] that by blast
  have "list_all valid_client (map snd es)"
    unfolding dup(4) using st(7) by (auto simp: valid_clients_def list_all_iff valid_client_def)
  then have "valid_clients es"
    by (auto simp: valid_clients_def list_all_iff)
  moreover have "fst ` set es \<inter> fst ` set ds = {}"
    using old dseg_allocated [OF st(3) [unfolded clist_def]] by blast
  moreover have "in_step intf (with_clients s w) ds"
    using st dup(2) by (simp add: in_step_def servers_printable_def)
  ultimately show ?thesis
    using dup(1,3) old by blast
qed

lemma drop_worklist:
  assumes "in_step intf w ds" and "dseg (w_clients w) p es" and "fst ` set es \<inter> fst ` set ds = {}"
  shows "\<exists>s. client_list_destroy p (w_clients w) = Some s \<and> in_step intf (with_clients s w) ds \<and>
    (\<forall>b. b \<notin> fst ` set es \<longrightarrow> load (heap s) b = load (heap (w_clients w)) b)"
proof -
  note st = in_stepD [OF assms(1)]
  obtain s where s: "client_list_destroy p (w_clients w) = Some s"
    "load (heap s) = load (heap (w_clients w)) |` (- (fst ` set es))" "firstclient s = firstclient (w_clients w)"
    using client_list_destroy_spec [OF assms(2)] by blast
  have keep: "load (heap s) b = load (heap (w_clients w)) b" if "b \<notin> fst ` set es" for b
    using that s(2) by (simp add: restrict_map_def)
  have "clist s ds"
    unfolding clist_def s(3)
    by (rule dseg_cong [OF st(3) [unfolded clist_def]]) (use keep assms(3) in blast)
  then have "in_step intf (with_clients s w) ds"
    using st by (simp add: in_step_def servers_printable_def)
  with s(1) keep show ?thesis by blast
qed

lemma worklist_in_step:
  assumes rely: "others_ok env intf" "resolves_printable env" and w: "in_step intf w ds"
  shows "\<exists>p n s w3 s4 ds3. client_list_dup (w_clients w) = Some (p, n, s) \<and> sync_loop env version p (with_clients s w) = Some w3 \<and>
    client_list_destroy p (w_clients w3) = Some s4 \<and> in_step intf (with_clients s4 w3) ds3 \<and>
    keeps_private (w_clients w) ds s4 ds3"
proof -
  obtain p n s es where dup: "client_list_dup (w_clients w) = Some (p, n, s)" "in_step intf (with_clients s w) ds" "dseg s p es"
    "fst ` set es \<inter> fst ` set ds = {}" "valid_clients es"
    "\<forall>b. load (heap (w_clients w)) b \<noteq> None \<longrightarrow> b \<notin> fst ` set es \<and> load (heap s) b = load (heap (w_clients w)) b"
    using take_worklist [OF w] by blast
  obtain w3 ds3 where w3: "sync_loop env version p (with_clients s w) = Some w3" "in_step intf w3 ds3"
    "keeps_private s ds (w_clients w3) ds3"
    using sync_loop_in_step [OF rely dup(2) _ dup(4,5), of p version] dup(3) by auto
  obtain s4 where s4: "client_list_destroy p (w_clients w3) = Some s4" "in_step intf (with_clients s4 w3) ds3"
    "\<forall>b. b \<notin> fst ` set es \<longrightarrow> load (heap s4) b = load (heap (w_clients w3)) b"
    using drop_worklist [OF w3(2) private_dseg [OF w3(3) dup(3,4)]] by blast
  have "keeps_private (w_clients w) ds s4 ds3"
    unfolding keeps_private_def
  proof (intro allI impI)
    fix b
    assume b: "b \<notin> fst ` set ds" "load (heap (w_clients w)) b \<noteq> None"
    then have b2: "b \<notin> fst ` set es" "load (heap s) b = load (heap (w_clients w)) b" using dup(6) by blast+
    then have "b \<notin> fst ` set ds3" "load (heap (w_clients w3)) b = load (heap s) b"
      using w3(3) b unfolding keeps_private_def by simp_all
    then show "b \<notin> fst ` set ds3 \<and> load (heap s4) b = load (heap (w_clients w)) b"
      using s4(3) b2 by simp
  qed
  then show ?thesis
    using dup(1) w3(1) s4(1,2) by blast
qed

section \<open>Properties\<close>

text \<open>The small world is in step, and an idle set of other threads is fine.\<close>

abbreviation admitted :: world where
  "admitted \<equiv> one_world FW_MARK_KNOWN (access_events ''br0'' FW_ACCESS_ALLOW ''10.0.0.7'' ''00:01'' FW_MARK_KNOWN)"

lemma admitted_in_step: "in_step ''br0'' admitted [(0, one_client FW_MARK_KNOWN)]"
  using one_world_balance [of FW_MARK_KNOWN]
  by (simp add: in_step_def servers_printable_def config_init_def wf_clients_def separate_def printable_client_def
      FW_MARK_KNOWN_def FW_MARK_NONE_def)

lemma idle_others:
  assumes "\<And>w. e_others env w = w"
  shows "others_ok env intf"
  unfolding others_ok_def
proof (intro allI impI)
  fix w ds
  assume "in_step intf w ds"
  moreover have "aside intf w (yield_clients env w)"
    by (rule aside_same) (simp_all add: yield_clients_def assms)
  ultimately have "in_step intf (yield_clients env w) ds"
    by (rule aside_in_step [rotated])
  then show "\<exists>ds'. in_step intf (yield_clients env w) ds' \<and> keeps_private (w_clients w) ds (w_clients (yield_clients env w)) ds'"
    by (intro exI [of _ ds]) (simp add: yield_clients_def assms keeps_private_def)
qed

lemma kind_env_ok: "others_ok kind_env intf" "resolves_printable kind_env"
  by (rule idle_others) (simp_all add: kind_env_def resolves_printable_def)

text \<open>
  C13: Logging a client out returns, takes it off the list and frees its node; afterwards
  the rules in the firewall are again exactly those of the listed clients, so that
  nothing of the client is left there. While the server is told, other threads may change
  list and firewall; what they do is kept, as long as they keep the two in step and stay away from
  the node that is being logged out.
\<close>

theorem logout_keeps_step:
  assumes "others_ok env intf" and "resolves_printable env" and "in_step intf w ds" and "(a, d) \<in> set ds"
  shows "\<exists>w' ds'. logout_client env version a w = Some w' \<and> clist (w_clients w') ds' \<and>
    balance intf w' = rules_of intf ds' \<and> a \<notin> fst ` set ds' \<and> load (heap (w_clients w')) a = None \<and>
    (\<forall>b. b \<notin> fst ` set ds \<longrightarrow> load (heap (w_clients w)) b \<noteq> None \<longrightarrow>
       load (heap (w_clients w')) b = load (heap (w_clients w)) b)"
  using logout_in_step [OF assms, of version] unfolding in_step_def keeps_private_def by blast

theorem logout_keeps_step_witness:
  "\<exists>w' ds'. logout_client kind_env ''1.3.0'' 0 admitted = Some w' \<and> clist (w_clients w') ds' \<and>
    balance ''br0'' w' = rules_of ''br0'' ds' \<and> 0 \<notin> fst ` set ds' \<and> load (heap (w_clients w')) 0 = None"
  using logout_keeps_step [OF kind_env_ok admitted_in_step, of 0 "one_client FW_MARK_KNOWN" "''1.3.0''"] by auto

text \<open>
  C14: The verdict of the server on a listed client does what its specification \<open>verdict\<close> says
  to the list: a refused client is dropped, an allowed client becomes known, with
  its counters cleared unless it was on probation, and any other answer changes nothing. The
  firewall follows: its rules are those that the new list calls for.
\<close>

theorem sync_verdict_refines:
  assumes "in_step intf w ds" and "(a, d) \<in> set ds"
  shows "\<exists>w'. sync_verdict env authcode a w = Some w' \<and> clist (w_clients w') (verdict authcode a d ds) \<and>
    balance intf w' = rules_of intf (verdict authcode a d ds)"
  using verdict_in_step [OF assms, of env authcode] unfolding in_step_def by blast

theorem sync_verdict_refines_witness:
  "\<exists>w'. sync_verdict kind_env AUTH_DENIED 0 admitted = Some w' \<and> clist (w_clients w') [] \<and> balance ''br0'' w' = {#}"
  using sync_verdict_refines [OF admitted_in_step, of 0 "one_client FW_MARK_KNOWN" kind_env AUTH_DENIED]
  by (simp add: verdict_def rules_of_def)

lemma sync_in_step:
  assumes "others_ok env intf" and "resolves_printable env" and "in_step intf w ds" and "listings_known env intf"
  shows "\<exists>w' ds'. fw_sync_with_authserver env version w = Some w' \<and> in_step intf w' ds' \<and>
    keeps_private (w_clients w) ds (w_clients w') ds'"
proof -
  obtain rc w1 ds1 where c: "iptables_fw_counters_update env w = Some (rc, w1)" "counts intf w ds w1 ds1"
    using counters_in_step [OF assms(3,4)] by blast
  then have w1: "in_step intf w1 ds1" "keeps_private (w_clients w) ds (w_clients w1) ds1"
    by (simp_all add: counts_def)
  show ?thesis
  proof (cases "rc = -1")
    case True
    then have "fw_sync_with_authserver env version w = Some w1"
      using c(1) by (simp add: fw_sync_with_authserver_def)
    then show ?thesis
      using w1 by blast
  next
    case False
    obtain p n s w3 s4 ds3 where run: "client_list_dup (w_clients w1) = Some (p, n, s)"
      "sync_loop env version p (with_clients s w1) = Some w3" "client_list_destroy p (w_clients w3) = Some s4"
      "in_step intf (with_clients s4 w3) ds3" "keeps_private (w_clients w1) ds1 s4 ds3"
      using worklist_in_step [OF assms(1,2) w1(1)] by blast
    have "fw_sync_with_authserver env version w = Some (with_clients s4 w3)"
      using c(1) False run(1-3) by (simp add: fw_sync_with_authserver_def)
    moreover have "keeps_private (w_clients w) ds (w_clients (with_clients s4 w3)) ds3"
      using keeps_private_trans [OF w1(2) run(5)] by simp
    ultimately show ?thesis
      using run(4) by blast
  qed
qed

definition no_traffic :: env where
  "no_traffic = kind_env\<lparr>e_popen := (\<lambda>h c. Some (''Chain'' @ [NL] @ ''pkts'' @ [NL]))\<rparr>"

lemma no_traffic_ok: "others_ok no_traffic ''br0''" "resolves_printable no_traffic" "listings_known no_traffic ''br0''"
proof -
  show "others_ok no_traffic ''br0''"
    by (rule idle_others) (simp_all add: no_traffic_def kind_env_def)
  show "resolves_printable no_traffic"
    by (simp add: no_traffic_def kind_env_def resolves_printable_def)
  show "listings_known no_traffic ''br0''"
    by (auto simp: listings_known_def no_traffic_def skip_line_def NL_def lines_known.simps)
qed



end
