(* ===== verification/Http.thy ===== *)
theory Http
  imports Auth
begin

text \<open>
  The pages of the captive portal: the callbacks of \<^verbatim>\<open>src/http.c\<close>, the status text of
  \<^verbatim>\<open>src/wd_util.c\<close>, the registration of the callbacks in \<^verbatim>\<open>src/gateway.c\<close> and the thread
  that serves one connection (\<^verbatim>\<open>src/httpd_thread.c\<close>).
\<close>

section \<open>Status text\<close>

definition put :: "(nat \<Rightarrow> char) \<Rightarrow> string \<Rightarrow> pstr \<Rightarrow> pstr option" where
  "put junk s p = pstr_cat junk p s"

fun put_all :: "(nat \<Rightarrow> char) \<Rightarrow> string list \<Rightarrow> pstr \<Rightarrow> pstr option" where
  "put_all junk [] p = Some p"
| "put_all junk (s # ss) p = (case put junk s p of None \<Rightarrow> None | Some p1 \<Rightarrow> put_all junk ss p1)"

text \<open>\<open>(unsigned int) uptime\<close> and the split into days, hours, minutes and seconds.\<close>

definition uptime_text :: "int \<Rightarrow> string" where
  "uptime_text uptime =
     (let days = uptime mod 2 ^ 32 div 86400; u1 = uptime - days * 86400;
          hours = u1 mod 2 ^ 32 div 3600; u2 = u1 - hours * 3600;
          minutes = u2 mod 2 ^ 32 div 60; u3 = u2 - minutes * 60;
          seconds = u3 mod 2 ^ 32
      in ''Uptime: '' @ show_int days @ ''d '' @ show_int hours @ ''h '' @ show_int minutes @ ''m '' @
         show_int seconds @ ''s'' @ [NL])"

definition yes_no :: "bool \<Rightarrow> string" where
  "yes_no b = (if b then ''yes'' else ''no'')"

definition client_text :: "int \<Rightarrow> t_client \<Rightarrow> string list" where
  "client_text n c =
     [[NL] @ ''Client '' @ show_int n @ [NL],
      ''  IP: '' @ show_str (c_ip c) @ '' MAC: '' @ show_str (c_mac c) @ [NL],
      ''  Token: '' @ show_str (c_token c) @ [NL],
      ''  Downloaded: '' @ show_u64 (incoming (counters c)) @ [NL] @ ''  Uploaded: '' @
        show_u64 (outgoing (counters c)) @ [NL]]"

text \<open>The loop over the copies of the clients.\<close>

partial_function (option) status_clients ::
  "(nat \<Rightarrow> char) \<Rightarrow> client_state \<Rightarrow> ptr \<Rightarrow> int \<Rightarrow> pstr \<Rightarrow> pstr option" where
  "status_clients junk s p n out =
     (case p of
        None \<Rightarrow> Some out
      | Some a \<Rightarrow> Option.bind (load (heap s) a) (\<lambda>c.
          Option.bind (put_all junk (client_text n c) out) (\<lambda>out1.
            status_clients junk s (c_next c) (n + 1) out1)))"

definition get_status_text :: "env \<Rightarrow> string \<Rightarrow> world \<Rightarrow> (string \<times> world) option" where
  "get_status_text env version w = do {
     let junk = e_junk env;
     let (now, w1) = get_time env w;
     p1 \<leftarrow> put_all junk
       [''WiFiDog status'' @ [NL, NL], ''Version: '' @ version @ [NL], uptime_text (now - w_started_time w1),
        ''Has been restarted: '',
        (if w_restart_orig_pid w1 \<noteq> 0 then ''yes (from PID '' @ show_int (w_restart_orig_pid w1) @ '')'' @ [NL]
         else ''no'' @ [NL]),
        ''Internet Connectivity: '' @ yes_no (is_online w1) @ [NL],
        ''Auth server reachable: '' @ yes_no (is_auth_online w1) @ [NL],
        ''Clients served this session: '' @ show_int (w_served_this_session w1 mod 2 ^ 64) @ [NL, NL]] pstr_new;
     (sublist, count, s) \<leftarrow> client_list_dup (w_clients w1);
     p2 \<leftarrow> put junk (show_int count @ '' clients connected.'' @ [NL]) p1;
     p3 \<leftarrow> status_clients junk s sublist 1 p2;
     s1 \<leftarrow> client_list_destroy sublist s;
     p4 \<leftarrow> put_all junk
       ((if trustedmaclist (w_config w1) \<noteq> []
         then ([NL] @ ''Trusted MAC addresses:'' @ [NL]) # map (\<lambda>m. ''  '' @ m @ [NL]) (trustedmaclist (w_config w1))
         else []) @
        [[NL] @ ''Authentication servers:'' @ [NL]] @
        map (\<lambda>a. ''  Host: '' @ authserv_hostname a @ '' ('' @ show_str (last_ip a) @ '')'' @ [NL])
          (auth_servers (w_config w1))) p3;
     Some (pstr_to_string p4, with_clients s1 w1)
   }"

section \<open>Callbacks\<close>

text \<open>
  The test of the whitelist: the host of the request against the mask of a rule. For a longer
  host the C code rebuilds it from its first characters, a dot and the mask.
\<close>

definition whitelisted :: "string \<Rightarrow> t_firewall_rule \<Rightarrow> string option" where
  "whitelisted host rule =
     (let mask = fr_mask rule; host_length = length host; mask_length = length mask
      in if strstr host mask = None then None
         else if host_length \<noteq> mask_length then
           (let prefix = take (host_length - mask_length - 1) host @ ''.'' @ mask
            in if strcasecmp_eq host prefix then Some ''allow subdomain'' else None)
         else Some ''allow domain'')"

fun whitelist_loop :: "string \<Rightarrow> t_firewall_rule list \<Rightarrow> string option" where
  "whitelist_loop host [] = None"
| "whitelist_loop host (rule # rules) =
     (case whitelisted host rule of Some text \<Rightarrow> Some text | None \<Rightarrow> whitelist_loop host rules)"

definition request_url :: "'f request \<Rightarrow> string" where
  "request_url r = snprintf (MAX_BUF - 1)
     (''http://'' @ rq_host r @ rq_path r @ (if rq_query r \<noteq> [] then ''?'' else []) @ rq_query r)"

definition login_fragment :: "s_config \<Rightarrow> t_auth_serv \<Rightarrow> string \<Rightarrow> string option \<Rightarrow> string \<Rightarrow> string" where
  "login_fragment c auth_server ip mac url =
     authserv_login_script_path_fragment auth_server @ ''gw_address='' @ show_str (gw_address c) @
     ''&gw_port='' @ show_int (gw_port c) @ ''&gw_id='' @ show_str (gw_id c) @ ''&ip='' @ ip @
     (case mac of None \<Rightarrow> [] | Some m \<Rightarrow> ''&mac='' @ m) @ ''&url='' @ url"

definition again_link :: "string \<Rightarrow> string" where
  "again_link url = ''please <a href='' @ [chr 39] @ url @ [chr 39] @ ''>click here</a> to try your request again.</p>''"

definition http_callback_404 :: "env \<Rightarrow> io \<Rightarrow> 'f request \<Rightarrow> world \<Rightarrow> ('f request \<times> world) option" where
  "http_callback_404 env io r w =
     (let tmp_url = request_url r; url = httpdUrlEncode tmp_url
      in if \<not> is_online w then
           send_http_page env io r ''Uh oh! Internet access unavailable!''
             (''<p>We apologize, but it seems that the internet connection that powers this hotspot is temporarily unavailable.</p>'' @
              ''<p>If at all possible, please notify the owners of this hotspot that the internet connection is out of service.</p>'' @
              ''<p>The maintainers of this network are aware of this disruption.  We hope that this situation will be resolved soon.</p>'' @
              ''<p>In a while '' @ again_link tmp_url) w
         else if \<not> is_auth_online w then
           send_http_page env io r ''Uh oh! Login screen unavailable!''
             (''<p>We apologize, but it seems that we are currently unable to re-direct you to the login screen.</p>'' @
              ''<p>The maintainers of this network are aware of this disruption.  We hope that this situation will be resolved soon.</p>'' @
              ''<p>In a couple of minutes '' @ again_link tmp_url) w
         else do {
           auth_server \<leftarrow> get_auth_server (w_config w);
           let (mac, w1) = arp_get env (clientAddr r) w;
           let urlFragment = login_fragment (w_config w) auth_server (clientAddr r) mac url;
           (case whitelist_loop (rq_host r) (get_ruleset FWRULESET_GLOBAL (w_config w1)) of
              Some text \<Rightarrow> do {
                (rc, w2) \<leftarrow> fw_allow_host env (rq_host r) w1;
                http_send_redirect env io r tmp_url (Some text) w2
              }
            | None \<Rightarrow> http_send_redirect_to_auth env io r urlFragment (Some ''Redirect to login page'') w1)
         })"

definition http_callback_wifidog :: "env \<Rightarrow> io \<Rightarrow> 'f request \<Rightarrow> world \<Rightarrow> ('f request \<times> world) option" where
  "http_callback_wifidog env io r w = send_http_page env io r ''WiFiDog''
     ''Please use the menu to navigate the features of this WiFiDog installation.'' w"

definition http_callback_about ::
  "env \<Rightarrow> io \<Rightarrow> string \<Rightarrow> 'f request \<Rightarrow> world \<Rightarrow> ('f request \<times> world) option" where
  "http_callback_about env io version r w = send_http_page env io r ''About WiFiDog''
     (''This is WiFiDog version <strong>'' @ version @ ''</strong>'') w"

text \<open>
  The guard of the status and disconnect pages; a user name without a password is undefined
  where the password would be compared.
\<close>

definition needs_login :: "s_config \<Rightarrow> 'f request \<Rightarrow> bool option" where
  "needs_login c r =
     (case httpdusername c of
        None \<Rightarrow> Some False
      | Some user \<Rightarrow>
          if user \<noteq> rq_authUser r then Some True
          else map_option (\<lambda>password. password \<noteq> rq_authPassword r) (httpdpassword c))"

definition http_callback_status ::
  "env \<Rightarrow> io \<Rightarrow> string \<Rightarrow> 'f request \<Rightarrow> world \<Rightarrow> ('f request \<times> world) option" where
  "http_callback_status env io version r w = do {
     guard \<leftarrow> needs_login (w_config w) r;
     if guard then do {
       r1 \<leftarrow> httpdForceAuthenticate io (httpdrealm (w_config w)) r;
       Some (r1, w)
     }
     else do {
       (status, w1) \<leftarrow> get_status_text env version w;
       send_http_page env io r ''WiFiDog Status'' (''<pre>'' @ status @ ''</pre>'') w1
     }
   }"

definition http_callback_auth ::
  "env \<Rightarrow> io \<Rightarrow> string \<Rightarrow> 'f request \<Rightarrow> world \<Rightarrow> ('f request \<times> world) option" where
  "http_callback_auth env io version r w =
     (case httpdGetVariableByName r ''token'' of
        None \<Rightarrow> send_http_page env io r ''WiFiDog error'' ''Invalid token'' w
      | Some token \<Rightarrow>
          (case arp_get env (clientAddr r) w of
             (None, w1) \<Rightarrow> send_http_page env io r ''WiFiDog Error'' ''Failed to retrieve your MAC address'' w1
           | (Some mac, w1) \<Rightarrow> do {
               let logout = (httpdGetVariableByName r ''logout'' \<noteq> None);
               p \<leftarrow> client_list_find (clientAddr r) mac (w_clients w1);
               w2 \<leftarrow> (case p of
                        None \<Rightarrow> (let (now, w2) = get_time env w1 in do {
                          (a, s) \<leftarrow> client_list_add (clientAddr r) mac (v_value token) now (w_clients w2);
                          Some (with_clients s w2)
                        })
                      | Some a \<Rightarrow> if logout then logout_client env version a w1 else Some w1);
               if \<not> logout then authenticate_client env io version r (yield_clients env w2) else Some (r, w2)
             }))"

definition http_callback_disconnect ::
  "env \<Rightarrow> io \<Rightarrow> string \<Rightarrow> 'f request \<Rightarrow> world \<Rightarrow> ('f request \<times> world) option" where
  "http_callback_disconnect env io version r w = do {
     guard \<leftarrow> needs_login (w_config w) r;
     if guard then do {
       r1 \<leftarrow> httpdForceAuthenticate io (httpdrealm (w_config w)) r;
       Some (r1, w)
     }
     else (case (httpdGetVariableByName r ''token'', httpdGetVariableByName r ''mac'') of
             (Some token, Some mac) \<Rightarrow> do {
               p \<leftarrow> client_list_find_by_mac (v_value mac) (w_clients w);
               (case p of
                  None \<Rightarrow> do { r1 \<leftarrow> httpdOutput io ''Invalid token for MAC'' r; Some (r1, w) }
                | Some a \<Rightarrow> do {
                    c \<leftarrow> load (heap (w_clients w)) a;
                    t \<leftarrow> c_token c;
                    if t \<noteq> v_value token
                    then do { r1 \<leftarrow> httpdOutput io ''Invalid token for MAC'' r; Some (r1, w) }
                    else do { w1 \<leftarrow> logout_client env version a w; Some (r, w1) }
                  })
             }
           | _ \<Rightarrow> do { r1 \<leftarrow> httpdOutput io ''Both the token and MAC need to be specified'' r; Some (r1, w) })
   }"

section \<open>Serving a connection\<close>

datatype handler = Wifidog | About | Status | Authenticate | Disconnect | Error404

text \<open>\<open>main_loop\<close> registers the callbacks.\<close>

definition assign_callbacks :: "handler httpd \<Rightarrow> handler httpd" where
  "assign_callbacks server = snd (httpdSetErrorFunction 404 (Some Error404)
     (httpdAddCContent ''/wifidog'' ''disconnect'' False None Disconnect
     (httpdAddCContent ''/wifidog'' ''auth'' False None Authenticate
     (httpdAddCContent ''/wifidog'' ''status'' False None Status
     (httpdAddCContent ''/wifidog'' ''about'' False None About
     (httpdAddCContent ''/wifidog'' '''' False None Wifidog
     (httpdAddCContent ''/'' ''wifidog'' False None Wifidog server)))))))"

definition call_handler :: "env \<Rightarrow> io \<Rightarrow> string \<Rightarrow> (handler, world) caller" where
  "call_handler env io version f error server r w =
     map_option (\<lambda>(r1, w1). (server, r1, w1))
       (case f of
          Wifidog \<Rightarrow> http_callback_wifidog env io r w
        | About \<Rightarrow> http_callback_about env io version r w
        | Status \<Rightarrow> http_callback_status env io version r w
        | Authenticate \<Rightarrow> http_callback_auth env io version r w
        | Disconnect \<Rightarrow> http_callback_disconnect env io version r w
        | Error404 \<Rightarrow> http_callback_404 env io r w)"

text \<open>
  The thread of one connection: read the request, process it if it was read, close. \<open>junk\<close>
  is the initial content of the line buffer on the stack. No callback has a preload function.
\<close>

definition thread_httpd ::
  "env \<Rightarrow> io \<Rightarrow> string \<Rightarrow> char list \<Rightarrow> handler httpd \<Rightarrow> handler request \<Rightarrow> world \<Rightarrow>
   (handler httpd \<times> handler request \<times> world) option" where
  "thread_httpd env io version junk server r w = do {
     (rc, server1, r1) \<leftarrow> httpdReadRequest junk server r;
     if rc = 0 then httpdProcessRequest io (call_handler env io version) (\<lambda>f. 0) server1 r1 w
     else Some (server1, r1, w)
   }"

end
