(* ===== verification/Wdctl.thy ===== *)
theory Wdctl
  imports Http
begin

text \<open>
  The control socket (\<^verbatim>\<open>src/wdctl_thread.c\<close>): reading a request, the commands \<open>status\<close>,
  \<open>stop\<close>, \<open>reset\<close> and \<open>restart\<close>, and the side of the parent in a restart, which sends the
  clients to its successor. System calls are given by their results.
\<close>

section \<open>Sockets\<close>

text \<open>\<open>sun_path\<close> has 108 bytes; \<open>answer\<close> is the outcome of \<open>socket\<close>, \<open>bind\<close> and \<open>listen\<close>.\<close>

definition create_unix_socket :: "int \<Rightarrow> string \<Rightarrow> int" where
  "create_unix_socket answer sock_name = (if length sock_name > 107 then -1 else answer)"

text \<open>
  \<open>write_to_socket\<close>: \<open>ws\<close> are the results of the calls of \<open>write\<close>, \<open>out\<close> is what has been
  sent. When the outside answers no more, the thread hangs.
\<close>

fun write_to_socket :: "int list \<Rightarrow> string \<Rightarrow> string \<Rightarrow> (int \<times> int list \<times> string) option" where
  "write_to_socket ws [] out = Some (1, ws, out)"
| "write_to_socket [] text out = None"
| "write_to_socket (r # ws) text out =
     (if r = -1 then Some (0, ws, out)
      else write_to_socket ws (drop (nat r) text) (out @ take (nat r) text))"

section \<open>Reading a request\<close>

text \<open>
  The bytes between \<open>read_bytes\<close> and the end of what was read, with line ends replaced by
  NULs.
\<close>

definition is_eol :: "char \<Rightarrow> bool" where
  "is_eol c \<longleftrightarrow> c = CR \<or> c = NL"

definition end_lines :: "string \<Rightarrow> string" where
  "end_lines s = map (\<lambda>c. if is_eol c then NUL else c) s"

text \<open>
  The loop of \<open>thread_wdctl_handler\<close> on the whole buffer of \<open>MAX_BUF\<close> bytes. A failed
  \<open>read\<close> at the start makes the inner loop run through all of memory, and later ones step the
  position back; after the peer has closed the connection \<open>read\<close> returns 0 for ever.
\<close>

fun wdctl_read :: "net_result list \<Rightarrow> char list \<Rightarrow> nat \<Rightarrow> (bool \<times> char list) option" where
  "wdctl_read input request read_bytes =
     (if \<not> read_bytes < MAX_BUF - 1 then Some (False, request)
      else case input of
             [] \<Rightarrow> None
           | Ret n # rest \<Rightarrow>
               if n = 0 then wdctl_read rest request read_bytes
               else if read_bytes = 0 then None
               else wdctl_read rest request (read_bytes - 1)
           | Bytes b # rest \<Rightarrow>
               (let chunk = take (MAX_BUF - read_bytes) b; n = read_bytes + length chunk;
                    request' = take read_bytes request @ end_lines chunk @ drop n request
                in if list_ex is_eol chunk then Some (True, request') else wdctl_read rest request' n))"

declare wdctl_read.simps [simp del]

section \<open>Commands\<close>

text \<open>The line that describes a client.\<close>

definition client_line :: "t_client \<Rightarrow> string" where
  "client_line c = ''CLIENT|ip='' @ show_str (c_ip c) @ ''|mac='' @ show_str (c_mac c) @ ''|token='' @ show_str (c_token c) @
     ''|fw_connection_state='' @ show_u32_of_int (fw_connection_state c) @ ''|fd='' @ show_int (c_fd c) @
     ''|counters_incoming='' @ show_u64 (incoming (counters c)) @
     ''|counters_outgoing='' @ show_u64 (outgoing (counters c)) @
     ''|counters_last_updated='' @ show_nat (nat (last_updated (counters c) mod 2 ^ 64)) @ [NL]"

partial_function (option) send_clients ::
  "client_state \<Rightarrow> ptr \<Rightarrow> int list \<Rightarrow> string \<Rightarrow> (int list \<times> string) option" where
  "send_clients s p ws out =
     (case p of
        None \<Rightarrow> Some (ws, out)
      | Some a \<Rightarrow> Option.bind (load (heap s) a) (\<lambda>c.
          Option.bind (write_to_socket ws (client_line c) out) (\<lambda>(rc, ws1, out1).
            send_clients s (c_next c) ws1 out1)))"

text \<open>
  What a command leads to: nothing more, a signal to the process itself, or the execution of
  the program by the child of a fork. The text that went to the child of a restart is kept.
\<close>

datatype wdctl_action = Proceed | Interrupt | Interrupt_After string | Execute

definition wdctl_stop :: wdctl_action where
  "wdctl_stop = Interrupt"

text \<open>\<open>sock\<close>, \<open>pid\<close> and \<open>fd\<close> are the results of the socket calls, \<open>fork\<close> and \<open>accept\<close>.\<close>

definition wdctl_restart :: "int \<Rightarrow> int \<Rightarrow> int \<Rightarrow> int list \<Rightarrow> world \<Rightarrow> wdctl_action option" where
  "wdctl_restart answer pid fd ws w =
     (let sock = create_unix_socket answer (internal_sock (w_config w))
      in if sock = -1 then Some Proceed
         else if pid > 0 then
           (if fd = -1 then Some Proceed
            else do {
              (ws1, out) \<leftarrow> send_clients (w_clients w) (client_get_first_client (w_clients w)) ws [];
              Some (Interrupt_After out)
            })
         else Some Execute)"

definition wdctl_reset ::
  "env \<Rightarrow> string \<Rightarrow> string \<Rightarrow> int list \<Rightarrow> world \<Rightarrow> (string \<times> world) option" where
  "wdctl_reset env version arg ws w = do {
     p \<leftarrow> client_list_find_by_ip arg (w_clients w);
     q \<leftarrow> (case p of Some a \<Rightarrow> Some p | None \<Rightarrow> client_list_find_by_mac arg (w_clients w));
     (case q of
        None \<Rightarrow> do { (rc, ws1, out) \<leftarrow> write_to_socket ws ''No'' []; Some (out, w) }
      | Some a \<Rightarrow> do {
          w1 \<leftarrow> logout_client env version a w;
          (rc, ws1, out) \<leftarrow> write_to_socket ws ''Yes'' [];
          Some (out, w1)
        })
   }"

definition wdctl_status :: "env \<Rightarrow> string \<Rightarrow> int list \<Rightarrow> world \<Rightarrow> (string \<times> world) option" where
  "wdctl_status env version ws w = do {
     (status, w1) \<leftarrow> get_status_text env version w;
     (rc, ws1, out) \<leftarrow> write_to_socket ws status [];
     Some (out, w1)
   }"

text \<open>The results of the system calls of a restart.\<close>

record restart_calls =
  rs_socket :: int
  rs_pid :: int
  rs_accept :: int

definition thread_wdctl_handler ::
  "env \<Rightarrow> string \<Rightarrow> restart_calls \<Rightarrow> net_result list \<Rightarrow> int list \<Rightarrow> world \<Rightarrow>
   (string \<times> wdctl_action \<times> world) option" where
  "thread_wdctl_handler env version calls input ws w = do {
     (done1, buf) \<leftarrow> wdctl_read input (replicate MAX_BUF NUL) 0;
     if \<not> done1 then Some ([], Proceed, w)
     else (let request = cstr buf in
       if strncmp_eq 6 request ''status'' then do {
         (out, w1) \<leftarrow> wdctl_status env version ws w;
         Some (out, Proceed, w1)
       }
       else if strncmp_eq 4 request ''stop'' then Some ([], wdctl_stop, w)
       else if strncmp_eq 5 request ''reset'' then do {
         (out, w1) \<leftarrow> wdctl_reset env version (cstr (drop 6 buf)) ws w;
         Some (out, Proceed, w1)
       }
       else if strncmp_eq 7 request ''restart'' then do {
         act \<leftarrow> wdctl_restart (rs_socket calls) (rs_pid calls) (rs_accept calls) ws w;
         Some ([], act, w)
       }
       else Some ([], Proceed, w))
   }"

end
