(* ===== verification/Getopt.thy ===== *)
theory Getopt
  imports CLib
begin

text \<open>
  \<open>getopt\<close> as GNU implements it, for the command lines of the gateway and of its control
  program: arguments that are no options are skipped and come behind the options, an argument \<open>--\<close>
  ends the options, letters may be joined, and the value of an option is the rest of its argument or
  the next one. The option string is given as a function: whether a letter takes a value,
  \<^term>\<open>None\<close> for an unknown letter.
\<close>

text \<open>
  The letters of one argument: what the calls return, with \<open>optarg\<close>, and the arguments left.
  An unknown letter or a missing value gives a question mark.
\<close>

fun getopt_letters ::
  "(char \<Rightarrow> bool option) \<Rightarrow> string \<Rightarrow> string list \<Rightarrow> (char \<times> string option) list \<times> string list" where
  "getopt_letters opts [] rest = ([], rest)"
| "getopt_letters opts (c # cs) rest =
     (case opts c of
        Some True \<Rightarrow>
          (if cs \<noteq> [] then ([(c, Some cs)], rest)
           else case rest of [] \<Rightarrow> ([(CHR ''?'', None)], []) | v # vs \<Rightarrow> ([(c, Some v)], vs))
      | Some False \<Rightarrow> (let (os, r) = getopt_letters opts cs rest in ((c, None) # os, r))
      | None \<Rightarrow> (let (os, r) = getopt_letters opts cs rest in ((CHR ''?'', None) # os, r)))"

lemma getopt_letters_shorter: "length (snd (getopt_letters opts cs rest)) \<le> length rest"
  by (induction opts cs rest rule: getopt_letters.induct) (auto split: option.splits bool.splits list.splits prod.splits)

definition is_option :: "string \<Rightarrow> bool" where
  "is_option arg \<longleftrightarrow> length arg > 1 \<and> hd arg = CHR ''-''"

text \<open>All options of a command line, and what is left when \<open>getopt\<close> returns -1.\<close>

function getopt_all :: "(char \<Rightarrow> bool option) \<Rightarrow> string list \<Rightarrow> (char \<times> string option) list" where
  "getopt_all opts [] = []"
| "getopt_all opts (arg # args) =
     (if arg = ''--'' then []
      else if is_option arg then
        fst (getopt_letters opts (tl arg) args) @ getopt_all opts (snd (getopt_letters opts (tl arg) args))
      else getopt_all opts args)"
  by pat_completeness auto
termination
  by (relation "measure (\<lambda>(opts, args). length args)") (auto simp: le_imp_less_Suc getopt_letters_shorter)

function getopt_operands :: "(char \<Rightarrow> bool option) \<Rightarrow> string list \<Rightarrow> string list" where
  "getopt_operands opts [] = []"
| "getopt_operands opts (arg # args) =
     (if arg = ''--'' then args
      else if is_option arg then getopt_operands opts (snd (getopt_letters opts (tl arg) args))
      else arg # getopt_operands opts args)"
  by pat_completeness auto
termination
  by (relation "measure (\<lambda>(opts, args). length args)") (auto simp: le_imp_less_Suc getopt_letters_shorter)

end
