(* ===== verification/Httpd_Conn.thy ===== *)
theory Httpd_Conn
  imports Httpd_Serve
begin

text \<open>
  Connections of the web server (\<^verbatim>\<open>libhttpd/api.c\<close>, \<^verbatim>\<open>libhttpd/protocol.c\<close>): waiting for one and
  checking the default access list, reading a given number of bytes, sending a file by its path,
  and the smaller entry points of the library.
\<close>

text \<open>\<open>_httpd_readBuf\<close>: the result is whether all bytes came, with those that did.\<close>

fun httpd_readBuf :: "'f request \<Rightarrow> nat \<Rightarrow> (bool \<times> string \<times> 'f request) option" where
  "httpd_readBuf r 0 = Some (True, [], r)"
| "httpd_readBuf r (Suc n) = do {
     (c, r1) \<leftarrow> httpd_readChar r;
     (case c of
        None \<Rightarrow> Some (False, [], r1)
      | Some ch \<Rightarrow> do {
          (ok, s, r2) \<leftarrow> httpd_readBuf r1 n;
          Some (ok, ch # s, r2)
        })
   }"

definition httpdSetAccessLog :: "string list option \<Rightarrow> 'f httpd \<Rightarrow> 'f httpd" where
  "httpdSetAccessLog fp server = server\<lparr>h_accessLog := fp\<rparr>"

definition httpdSetErrorLog :: "string list option \<Rightarrow> 'f httpd \<Rightarrow> 'f httpd" where
  "httpdSetErrorLog fp server = server\<lparr>h_errorLog := fp\<rparr>"

text \<open>\<open>httpdDumpVariables\<close>: what it prints.\<close>

definition dump_variable :: "httpVar \<Rightarrow> string" where
  "dump_variable v = ''Variable '' @ [chr 39] @ v_name v @ [chr 39, NL] @
     concat (map (\<lambda>val. [TAB] @ ''= '' @ [chr 39] @ val @ [chr 39, NL]) (v_value v # v_nextValues v))"

definition httpdDumpVariables :: "'f request \<Rightarrow> string" where
  "httpdDumpVariables r = concat (map dump_variable (variables r))"

definition httpdSendFile ::
  "io \<Rightarrow> ('f, 'w) caller \<Rightarrow> 'f httpd \<Rightarrow> 'f request \<Rightarrow> string \<Rightarrow> 'w \<Rightarrow> ('f httpd \<times> 'f request \<times> 'w) option" where
  "httpdSendFile env call server r path w =
     (let r1 = (case strrchr path (CHR ''.'') of
                  None \<Rightarrow> r
                | Some suffix \<Rightarrow>
                    let r2 = (if strcasecmp_eq suffix ''.gif'' then r\<lparr>rs_contentType := ''image/gif''\<rparr> else r);
                        r3 = (if strcasecmp_eq suffix ''.jpg'' then r2\<lparr>rs_contentType := ''image/jpeg''\<rparr> else r2);
                        r4 = (if strcasecmp_eq suffix ''.xbm'' then r3\<lparr>rs_contentType := ''image/xbm''\<rparr> else r3);
                        r5 = (if strcasecmp_eq suffix ''.png'' then r4\<lparr>rs_contentType := ''image/png''\<rparr> else r4)
                    in if strcasecmp_eq suffix ''.css'' then r5\<lparr>rs_contentType := ''text/css''\<rparr> else r5)
      in case io_stat env path of
           None \<Rightarrow> httpd_send404 env call server r1 w
         | Some (sz, mtime) \<Rightarrow>
             if httpd_checkLastModified env r1 mtime = 0 then httpd_send304 env call server r1 w
             else Some (server, httpd_catFile env path (httpd_sendHeaders env sz mtime r1), w))"

text \<open>
  \<open>httpdGetConnection\<close>: \<open>selects\<close> are the results of the calls of \<open>select\<close>, \<open>timed\<close> is whether a
  time-out was given, \<open>peer\<close> the address of the client (all zeros when \<open>accept\<close> fails) with what it
  will send. The result has \<open>lastError\<close> in the server. Waiting for ever is \<^term>\<open>None\<close>.
\<close>

fun wait_connection :: "int list \<Rightarrow> bool \<Rightarrow> int option" where
  "wait_connection [] timed = None"
| "wait_connection (n # ns) timed =
     (if n < 0 then Some n else if timed \<and> n = 0 then Some 0 else if n > 0 then Some n else wait_connection ns timed)"

definition httpdGetConnection ::
  "io \<Rightarrow> ('f, 'w) caller \<Rightarrow> int list \<Rightarrow> bool \<Rightarrow> bool \<Rightarrow> string \<times> net_result list \<Rightarrow> 'f httpd \<Rightarrow> 'w \<Rightarrow>
   ('f request option \<times> 'f httpd \<times> 'w) option" where
  "httpdGetConnection env call selects timed malloc_ok peer server w = do {
     n \<leftarrow> wait_connection selects timed;
     let server1 = server\<lparr>h_lastError := 0\<rparr>;
     if n < 0 then Some (None, server1\<lparr>h_lastError := -1\<rparr>, w)
     else if n = 0 then Some (None, server1, w)
     else if \<not> malloc_ok then Some (None, server1\<lparr>h_lastError := -3\<rparr>, w)
     else (let r = new_request (snd peer) (fst peer)
           in if h_defaultAcl server1 \<noteq> [] then do {
                (action, server2, r1, w1) \<leftarrow> httpdCheckAcl env call server1 r (h_defaultAcl server1) w;
                if action = HTTP_ACL_DENY then Some (None, server2\<lparr>h_lastError := 2\<rparr>, w1)
                else Some (Some r1, server2, w1)
              }
              else Some (Some r, server1, w))
   }"

section \<open>Properties\<close>

lemma suffix_codes:
  "strcasecmp_eq s ''.gif'' \<longleftrightarrow> map tolower s = ''.gif''" "strcasecmp_eq s ''.jpg'' \<longleftrightarrow> map tolower s = ''.jpg''"
  "strcasecmp_eq s ''.xbm'' \<longleftrightarrow> map tolower s = ''.xbm''" "strcasecmp_eq s ''.png'' \<longleftrightarrow> map tolower s = ''.png''"
  "strcasecmp_eq s ''.css'' \<longleftrightarrow> map tolower s = ''.css''"
  by (simp_all add: strcasecmp_eq_def clib_simps)

text \<open>Sending a file by its path does the same as sending the file of a content entry.\<close>

lemma httpdSendFile_eq: "httpdSendFile env call server r path w = httpd_sendFile env call server r path w"
proof (cases "strrchr path (CHR ''.'')")
  case None
  then show ?thesis
    by (simp add: httpdSendFile_def httpd_sendFile_def suffix_type_def)
next
  case (Some s)
  consider "map tolower s = ''.gif''" | "map tolower s = ''.jpg''" | "map tolower s = ''.xbm''" | "map tolower s = ''.png''"
    | "map tolower s = ''.css''" | "\<forall>t \<in> {''.gif'', ''.jpg'', ''.xbm'', ''.png'', ''.css''}. map tolower s \<noteq> t"
    by blast
  then show ?thesis
    by cases (simp_all add: httpdSendFile_def httpd_sendFile_def suffix_type_def suffix_codes Some Let_def)
qed

end
