(* ===== verification/Gateway.thy ===== *)
theory Gateway
  imports Wdctl Getopt Httpd_Conn
begin

text \<open>
  Start and restart (\<^verbatim>\<open>src/gateway.c\<close>, \<^verbatim>\<open>src/commandline.c\<close>): the command line and the
  arguments kept for a restart, the clients that a restarted gateway takes over from its
  parent, the start of the main loop, its threads, the loop that accepts connections, the signal
  handlers, and the thread that accepts control connections (\<^verbatim>\<open>src/wdctl_thread.c\<close>).
\<close>

section \<open>The command line\<close>

text \<open>The option string \<open>c:hfd:sw:vx:i:a:p:\<close>.\<close>

definition takes_value :: "char \<Rightarrow> bool option" where
  "takes_value c = (if c \<in> set ''cdwxiap'' then Some True else if c \<in> set ''hfsv'' then Some False else None)"

text \<open>What \<open>-h\<close> and an unknown option print before the exit.\<close>

definition usage :: string where
  "usage =
     ''Usage: wifidog [options]'' @ [NL] @ [NL] @
     ''options:'' @ [NL] @
     ''  -c [filename] Use this config file'' @ [NL] @
     ''  -f            Run in foreground'' @ [NL] @
     ''  -d <level>    Debug level'' @ [NL] @
     ''  -s            Log to syslog'' @ [NL] @
     ''  -w <path>     Wdctl socket path'' @ [NL] @
     ''  -h            Print usage'' @ [NL] @
     ''  -v            Print version information'' @ [NL] @
     ''  -x pid        Used internally by WiFiDog when re-starting itself *DO NOT ISSUE THIS SWITCH MANUAlLY*'' @ [NL] @
     ''  -i <path>     Internal socket path used when re-starting self'' @ [NL] @
     ''  -a <path>     Path to /proc/net/arp replacement - mainly useful for debugging.'' @ [NL] @
     ''  -p <path>     Save pid to file'' @ [NL] @ [NL]"

text \<open>
  One option: an exit with the status 1 is \<^term>\<open>Inl 1\<close>. The state is the configuration, the
  process id of the parent, and the arguments for a restart.
\<close>

record cmd_state =
  cmd_config :: s_config
  cmd_orig_pid :: int
  restartargv :: "string list"

definition parse_option :: "char \<Rightarrow> string option \<Rightarrow> cmd_state \<Rightarrow> int + cmd_state" where
  "parse_option c optarg st = (let conf = cmd_config st in
     case optarg of
       Some v \<Rightarrow>
         if c = CHR ''c'' then Inr (st\<lparr>cmd_config := conf\<lparr>configfile := v\<rparr>\<rparr>)
         else if c = CHR ''w'' then Inr (st\<lparr>cmd_config := conf\<lparr>wdctl_sock := v\<rparr>\<rparr>)
         else if c = CHR ''d'' then Inr (st\<lparr>cmd_config := conf\<lparr>debugconf := (debugconf conf)\<lparr>debuglevel := atoi v\<rparr>\<rparr>\<rparr>)
         else if c = CHR ''x'' then Inr (st\<lparr>cmd_orig_pid := atoi v\<rparr>)
         else if c = CHR ''i'' then Inr (st\<lparr>cmd_config := conf\<lparr>internal_sock := v\<rparr>\<rparr>)
         else if c = CHR ''a'' then Inr (st\<lparr>cmd_config := conf\<lparr>arp_table_path := v\<rparr>\<rparr>)
         else if c = CHR ''p'' then Inr (st\<lparr>cmd_config := conf\<lparr>pidfile := Some v\<rparr>\<rparr>)
         else Inl 1
     | None \<Rightarrow>
         if c = CHR ''f'' then Inr (st\<lparr>cmd_config := conf\<lparr>daemon := 0, debugconf := (debugconf conf)\<lparr>log_stderr := 1\<rparr>\<rparr>\<rparr>)
         else if c = CHR ''s'' then Inr (st\<lparr>cmd_config := conf\<lparr>debugconf := (debugconf conf)\<lparr>log_syslog := 1\<rparr>\<rparr>\<rparr>)
         else Inl 1)"

definition skiponrestart :: "char \<Rightarrow> bool" where
  "skiponrestart c \<longleftrightarrow> c = CHR ''f'' \<or> c = CHR ''x''"

definition restart_args :: "char \<Rightarrow> string option \<Rightarrow> string list" where
  "restart_args c optarg =
     (if skiponrestart c then [] else [CHR ''-'', c] # (case optarg of None \<Rightarrow> [] | Some v \<Rightarrow> [v]))"

fun parse_options :: "(char \<times> string option) list \<Rightarrow> cmd_state \<Rightarrow> int + cmd_state" where
  "parse_options [] st = Inr st"
| "parse_options ((c, optarg) # os) st =
     (case parse_option c optarg st of
        Inl rc \<Rightarrow> Inl rc
      | Inr st1 \<Rightarrow> parse_options os (st1\<lparr>restartargv := restartargv st1 @ restart_args c optarg\<rparr>))"

text \<open>
  \<open>restartargv\<close> has room for three pointers more than there are arguments, and three NULLs are
  written behind the last argument kept; writing behind the end is undefined (\<^term>\<open>None\<close>).
\<close>

definition parse_commandline :: "string list \<Rightarrow> s_config \<Rightarrow> (int + cmd_state) option" where
  "parse_commandline argv conf =
     (case argv of
        [] \<Rightarrow> None
      | prog # args \<Rightarrow>
          (case parse_options (getopt_all takes_value args) \<lparr>cmd_config = conf, cmd_orig_pid = 0, restartargv = [prog]\<rparr> of
             Inl rc \<Rightarrow> Some (Inl rc)
           | Inr st \<Rightarrow>
               if length (restartargv st) + 3 \<le> length argv + 3 then Some (Inr st) else None))"

definition append_x_restartargv :: "int \<Rightarrow> string list \<Rightarrow> string list" where
  "append_x_restartargv pid args = args @ [''-x'', show_int pid]"

section \<open>Clients from the parent\<close>

text \<open>
  The line is parsed in the buffer that it was read into: pointers are positions, \<open>strsep\<close>
  writes NULs, and \<open>key\<close> and \<open>value\<close> keep pointing into the buffer when the next line
  has been read into it.
\<close>

definition str_at :: "char list \<Rightarrow> nat \<Rightarrow> string" where
  "str_at buf p = cstr (drop p buf)"

definition strsep_at :: "char list \<Rightarrow> nat \<Rightarrow> char \<Rightarrow> nat option \<times> char list" where
  "strsep_at buf p d =
     (let t = str_at buf p; q = p + length (takeWhile (\<lambda>c. c \<noteq> d) t)
      in if d \<in> set t then (Some (q + 1), buf[q := NUL]) else (None, buf))"

text \<open>
  The inner loop: every equals sign of the token becomes a NUL, the key is the token, the
  value is what follows the first equals sign, if there is one.
\<close>

definition split_pair :: "char list \<Rightarrow> nat \<Rightarrow> nat option \<times> char list" where
  "split_pair buf p =
     (let t = str_at buf p
      in (if CHR ''='' \<in> set t then Some (p + length (takeWhile (\<lambda>c. c \<noteq> CHR ''='') t) + 1) else None,
          take p buf @ map (\<lambda>c. if c = CHR ''='' then NUL else c) t @ drop (p + length t) buf))"

definition inherit_field :: "string \<Rightarrow> string \<Rightarrow> t_client \<Rightarrow> t_client" where
  "inherit_field key val c = (let k = counters c in
     if key = ''ip'' then c\<lparr>c_ip := Some val\<rparr>
     else if key = ''mac'' then c\<lparr>c_mac := Some val\<rparr>
     else if key = ''token'' then c\<lparr>c_token := Some val\<rparr>
     else if key = ''fw_connection_state'' then c\<lparr>fw_connection_state := atoi val\<rparr>
     else if key = ''fd'' then c\<lparr>c_fd := atoi val\<rparr>
     else if key = ''counters_incoming'' then
       (let v = word_of_int (atoll val)
        in c\<lparr>counters := k\<lparr>incoming_history := v, incoming := v, incoming_delta := 0\<rparr>\<rparr>)
     else if key = ''counters_outgoing'' then
       (let v = word_of_int (atoll val)
        in c\<lparr>counters := k\<lparr>outgoing_history := v, outgoing := v, outgoing_delta := 0\<rparr>\<rparr>)
     else if key = ''counters_last_updated'' then c\<lparr>counters := k\<lparr>last_updated := atol val\<rparr>\<rparr>
     else c)"

text \<open>The variables of the loop over the tokens of a line.\<close>

record line_vars =
  lv_buf :: "char list"
  lv_command :: "nat option"
  lv_key :: "nat option"
  lv_value :: "nat option"
  lv_client :: ptr

definition line_token :: "nat \<Rightarrow> line_vars \<Rightarrow> line_vars" where
  "line_token token1 v =
     (case lv_command v of
        None \<Rightarrow> v\<lparr>lv_command := Some token1\<rparr>
      | Some _ \<Rightarrow> (let (val, buf) = split_pair (lv_buf v) token1
                  in v\<lparr>lv_buf := buf, lv_key := Some token1, lv_value := val\<rparr>))"

definition line_client :: "line_vars \<Rightarrow> client_state \<Rightarrow> (line_vars \<times> client_state) option" where
  "line_client v s = do {
     command \<leftarrow> lv_command v;
     let is_client = (str_at (lv_buf v) command = ''CLIENT'');
     let (v1, s1) = (if is_client \<and> lv_client v = None
                     then (let (a, s1) = client_get_new s in (v\<lparr>lv_client := Some a\<rparr>, s1))
                     else (v, s));
     (case (lv_key v1, lv_value v1, lv_client v1) of
        (Some k, Some x, Some a) \<Rightarrow>
          if is_client then do {
            s2 \<leftarrow> modify a (inherit_field (str_at (lv_buf v1) k) (str_at (lv_buf v1) x)) s1;
            Some (v1, s2)
          }
          else Some (v1, s1)
      | _ \<Rightarrow> Some (v1, s1))
   }"

lemma takeWhile_shorter: "d \<in> set t \<Longrightarrow> length (takeWhile (\<lambda>c. c \<noteq> d) t) < length t"
  by (induction t) auto

lemma strsep_at_later: "strsep_at buf p d = (Some q, buf') \<Longrightarrow> p < q \<and> q \<le> length buf \<and> length buf' = length buf"
proof -
  assume s: "strsep_at buf p d = (Some q, buf')"
  let ?t = "str_at buf p"
  have d: "d \<in> set ?t" and q: "q = p + length (takeWhile (\<lambda>c. c \<noteq> d) ?t) + 1" "length buf' = length buf"
    using s by (auto simp: strsep_at_def Let_def split: if_splits)
  have "length (takeWhile (\<lambda>c. c \<noteq> d) ?t) < length ?t"
    using d by (rule takeWhile_shorter)
  moreover have "length ?t \<le> length buf - p"
    by (metis cstr_def length_drop length_takeWhile_le str_at_def)
  ultimately show ?thesis
    using q by linarith
qed

lemma length_split_pair: "length (snd (split_pair buf p)) = length buf"
proof -
  have "length (str_at buf p) \<le> length buf - p"
    by (metis cstr_def length_drop length_takeWhile_le str_at_def)
  then show ?thesis
    by (cases "p \<le> length buf") (auto simp: split_pair_def Let_def str_at_def cstr_def)
qed

lemma length_line_token [simp]: "length (lv_buf (line_token t v)) = length (lv_buf v)"
  using length_split_pair [of "lv_buf v" t] by (auto simp: line_token_def split: option.splits prod.splits)

lemma lv_buf_line_client: "line_client v s = Some (v', s') \<Longrightarrow> lv_buf v' = lv_buf v"
proof -
  assume c: "line_client v s = Some (v', s')"
  then obtain command where cmd: "lv_command v = Some command" by (auto simp: line_client_def bind_eq_Some_conv)
  define v1 where "v1 = fst (if str_at (lv_buf v) command = ''CLIENT'' \<and> lv_client v = None
                     then (let (a, s1) = client_get_new s in (v\<lparr>lv_client := Some a\<rparr>, s1)) else (v, s))"
  have "lv_buf v1 = lv_buf v"
    by (simp add: v1_def client_get_new_def split: prod.split)
  moreover have "v' = v1"
    using c cmd unfolding line_client_def v1_def Let_def
    by (cases "lv_key v"; cases "lv_value v") (auto simp: bind_eq_Some_conv split: if_splits option.splits prod.splits)
  ultimately show ?thesis by simp
qed

text \<open>The loop over the tokens; \<open>running1\<close> is the position of the rest of the line.\<close>

function line_loop :: "nat option \<Rightarrow> line_vars \<Rightarrow> client_state \<Rightarrow> (line_vars \<times> client_state) option" where
  "line_loop None v s = Some (v, s)"
| "line_loop (Some p) v s =
     (case line_client (line_token p (v\<lparr>lv_buf := snd (strsep_at (lv_buf v) p (CHR ''|''))\<rparr>)) s of
        None \<Rightarrow> None
      | Some (v1, s1) \<Rightarrow> line_loop (fst (strsep_at (lv_buf v) p (CHR ''|''))) v1 s1)"
  by pat_completeness auto
termination
proof (relation "measure (\<lambda>(p, v, s). case p of None \<Rightarrow> 0 | Some q \<Rightarrow> Suc (Suc (length (lv_buf v)) - q))", goal_cases)
  case (2 p v s r v1 s1)
  have "lv_buf v1 = lv_buf (line_token p (v\<lparr>lv_buf := snd (strsep_at (lv_buf v) p (CHR ''|''))\<rparr>))"
    by (rule lv_buf_line_client [of _ s v1 s1]) (simp only: 2)
  then have len: "length (lv_buf v1) = length (snd (strsep_at (lv_buf v) p (CHR ''|'')))"
    by simp
  show ?case
  proof (cases "strsep_at (lv_buf v) p (CHR ''|'')")
    case (Pair q b)
    show ?thesis
    proof (cases q)
      case None
      with Pair show ?thesis by simp
    next
      case (Some n)
      then show ?thesis
        using Pair len strsep_at_later [of "lv_buf v" p "CHR ''|''" n b]
        by (simp add: diff_less_mono2)
    qed
  qed
qed simp

declare line_loop.simps(2) [simp del]

text \<open>
  The loop over the bytes of the connection. A line longer than the buffer is undefined.
  \<open>key\<close> and \<open>value\<close> survive from line to line.
\<close>

fun receive_loop ::
  "string \<Rightarrow> char list \<Rightarrow> nat \<Rightarrow> nat option \<Rightarrow> nat option \<Rightarrow> client_state \<Rightarrow> client_state option" where
  "receive_loop [] linebuffer len key val s = Some s"
| "receive_loop (ch # input) linebuffer len key val s =
     (let onechar = (if ch = NL then NUL else ch)
      in if len \<ge> MAX_BUF then None
         else if onechar \<noteq> NUL then receive_loop input (linebuffer[len := onechar]) (len + 1) key val s
         else do {
           (v, s1) \<leftarrow> line_loop (Some 0) \<lparr>lv_buf = linebuffer[len := NUL], lv_command = None, lv_key = key,
              lv_value = val, lv_client = None\<rparr> s;
           s2 \<leftarrow> (case lv_client v of Some a \<Rightarrow> client_list_insert_client a s1 | None \<Rightarrow> Some s1);
           receive_loop input (replicate MAX_BUF NUL) 0 (lv_key v) (lv_value v) s2
         })"

text \<open>\<open>conn\<close> is what is read from the parent, if the connection is made.\<close>

definition get_clients_from_parent :: "string option \<Rightarrow> client_state \<Rightarrow> client_state option" where
  "get_clients_from_parent conn s =
     (case conn of
        None \<Rightarrow> Some s
      | Some input \<Rightarrow> receive_loop input (replicate MAX_BUF NUL) 0 None None s)"

section \<open>Start and end\<close>

definition MINIMUM_STARTED_TIME :: int where "MINIMUM_STARTED_TIME = 1041379200"

section \<open>Signals\<close>

text \<open>
  \<open>init_signals\<close>: the handlers for SIGCHLD, SIGPIPE, SIGTERM, SIGQUIT and SIGINT, in this order;
  the first call of \<open>sigaction\<close> that fails is an exit with the status 1.
\<close>

datatype signal = SIGCHLD | SIGPIPE | SIGTERM | SIGQUIT | SIGINT

instantiation signal :: enum
begin

definition enum_signal :: "signal list" where
  "enum_signal = [SIGCHLD, SIGPIPE, SIGTERM, SIGQUIT, SIGINT]"

definition enum_all_signal :: "(signal \<Rightarrow> bool) \<Rightarrow> bool" where
  "enum_all_signal P \<longleftrightarrow> list_all P [SIGCHLD, SIGPIPE, SIGTERM, SIGQUIT, SIGINT]"

definition enum_ex_signal :: "(signal \<Rightarrow> bool) \<Rightarrow> bool" where
  "enum_ex_signal P \<longleftrightarrow> list_ex P [SIGCHLD, SIGPIPE, SIGTERM, SIGQUIT, SIGINT]"

instance
proof
  have univ: "(UNIV :: signal set) = set [SIGCHLD, SIGPIPE, SIGTERM, SIGQUIT, SIGINT]"
    using signal.exhaust by auto
  then show "(UNIV :: signal set) = set enum_class.enum"
    by (simp add: enum_signal_def)
  show "distinct (enum_class.enum :: signal list)"
    by (simp add: enum_signal_def)
  show "enum_class.enum_all P \<longleftrightarrow> Ball UNIV P" "enum_class.enum_ex P \<longleftrightarrow> Bex UNIV P" for P :: "signal \<Rightarrow> bool"
    unfolding univ by (simp_all add: enum_all_signal_def enum_ex_signal_def)
qed

end

datatype disposition = Reap_Child | Ignore_Signal | Terminate_Gateway

definition signal_handlers :: "(signal \<times> disposition) list" where
  "signal_handlers = [(SIGCHLD, Reap_Child), (SIGPIPE, Ignore_Signal), (SIGTERM, Terminate_Gateway),
     (SIGQUIT, Terminate_Gateway), (SIGINT, Terminate_Gateway)]"

text \<open>
  The handler for SIGCHLD waits for one child that has ended, if there is one, and does not wait for
  one that still runs: the result of \<open>waitpid\<close>, and the children that are still to be waited for.
\<close>

definition sigchld_handler :: "int list \<Rightarrow> bool \<Rightarrow> int \<times> int list" where
  "sigchld_handler ended running =
     (case ended of
        [] \<Rightarrow> (if running then 0 else -1, [])
      | rc # others \<Rightarrow> (rc, others))"

fun set_handlers ::
  "(signal \<Rightarrow> int) \<Rightarrow> (signal \<times> disposition) list \<Rightarrow> (signal \<rightharpoonup> disposition) \<Rightarrow> int + (signal \<rightharpoonup> disposition)" where
  "set_handlers sigaction [] table = Inr table"
| "set_handlers sigaction ((s, d) # rest) table =
     (if sigaction s = -1 then Inl 1 else set_handlers sigaction rest (table(s \<mapsto> d)))"

definition init_signals :: "(signal \<Rightarrow> int) \<Rightarrow> int + (signal \<rightharpoonup> disposition)" where
  "init_signals sigaction = set_handlers sigaction signal_handlers Map.empty"

section \<open>The main loop\<close>

datatype gateway_thread = Timeout_Thread | Wdctl_Thread | Ping_Thread

record conn_answers =
  ca_selects :: "int list"
  ca_malloc :: bool
  ca_peer :: "string \<times> net_result list"
  ca_create :: int

text \<open>
  What \<open>main_loop\<close> asks of the system before it serves: the address and the MAC of the
  interface, the process id and whether its file can be opened, the web server's socket, and
  whether the ICMP socket could be set up; the results of \<open>sigaction\<close> and \<open>pthread_create\<close>, and the
  connections that arrive. \<^term>\<open>Inl 1\<close> is an exit.
\<close>

record start_answers =
  sa_iface_ip :: "string \<Rightarrow> string option"
  sa_iface_mac :: "string \<Rightarrow> string option"
  sa_pid :: int
  sa_pid_opens :: bool
  sa_server :: "int option"
  sa_icmp :: bool
  sa_sigaction :: "signal \<Rightarrow> int"
  sa_create :: "gateway_thread \<Rightarrow> int"
  sa_conns :: "conn_answers list"

definition set_started_time :: "env \<Rightarrow> world \<Rightarrow> world" where
  "set_started_time env w =
     (if w_started_time w = 0 \<or> w_started_time w < MINIMUM_STARTED_TIME
      then (let (t, w1) = get_time env w in w1\<lparr>w_started_time := t\<rparr>) else w)"

definition find_address :: "start_answers \<Rightarrow> s_config \<Rightarrow> (int + s_config) option" where
  "find_address sa c =
     (case gw_address c of
        Some _ \<Rightarrow> Some (Inr c)
      | None \<Rightarrow> do {
          intf \<leftarrow> gw_interface c;
          (case sa_iface_ip sa intf of None \<Rightarrow> Some (Inl 1) | Some ip \<Rightarrow> Some (Inr (c\<lparr>gw_address := Some ip\<rparr>)))
        })"

definition find_id :: "start_answers \<Rightarrow> s_config \<Rightarrow> (int + s_config) option" where
  "find_id sa c =
     (case gw_id c of
        Some _ \<Rightarrow> Some (Inr c)
      | None \<Rightarrow> do {
          intf \<leftarrow> gw_interface c;
          (case sa_iface_mac sa intf of None \<Rightarrow> Some (Inl 1) | Some mac \<Rightarrow> Some (Inr (c\<lparr>gw_id := Some mac\<rparr>)))
        })"

definition httpdCreate :: "string option \<Rightarrow> int \<Rightarrow> int \<Rightarrow> 'f httpd" where
  "httpdCreate host port now = \<lparr>h_port = port, h_startTime = now, h_lastError = 0, h_fileBasePath = [], h_host = host,
     h_content = Dir [] [] [], h_defaultAcl = [], h_accessLog = None, h_errorLog = None, h_errorFunction304 = None, h_errorFunction403 = None,
     h_errorFunction404 = None\<rparr>"

definition main_start :: "env \<Rightarrow> start_answers \<Rightarrow> world \<Rightarrow> (int + handler httpd \<times> world) option" where
  "main_start env sa w = (let w1 = save_pid_file (sa_pid_opens sa) (sa_pid sa) (pidfile (w_config w)) (set_started_time env w) in do {
     x \<leftarrow> find_address sa (w_config w1);
     (case x of
        Inl rc \<Rightarrow> Some (Inl rc)
      | Inr c \<Rightarrow> do {
          y \<leftarrow> find_id sa c;
          (case y of
             Inl rc \<Rightarrow> Some (Inl rc)
           | Inr c1 \<Rightarrow>
               (case sa_server sa of
                  None \<Rightarrow> Some (Inl 1)
                | Some sock \<Rightarrow> (let (now, w2) = get_time env (w1\<lparr>w_config := c1\<rparr>) in do {
                    (rc, w3) \<leftarrow> fw_destroy env w2;
                    (ok, w4) \<leftarrow> fw_init env (sa_icmp sa) w3;
                    if ok = 0 then Some (Inl 1)
                    else Some (Inr (assign_callbacks (httpdCreate (gw_address c1) (gw_port c1) now), w4))
                  })))
        })
   })"

text \<open>
  \<open>termination_handler\<close>: only the first thread that enters it cleans up, the others end their thread.
  It then sends SIGKILL to the thread of the time-outs and to the heartbeat, when they were
  \<open>started\<close> and are not the thread \<open>self\<close> that runs the handler. SIGKILL ends the whole process, so
  that the exit with its status (1 for an error) is reached only if neither was started.
\<close>

datatype process_end = Thread_Ends | Exit_Code int | Killed

definition killed_threads :: "gateway_thread option \<Rightarrow> gateway_thread list \<Rightarrow> gateway_thread list" where
  "killed_threads self started = filter (\<lambda>t. t \<in> set started \<and> self \<noteq> Some t) [Timeout_Thread, Ping_Thread]"

definition termination_handler ::
  "env \<Rightarrow> int \<Rightarrow> bool \<Rightarrow> gateway_thread option \<Rightarrow> gateway_thread list \<Rightarrow> world \<Rightarrow> (process_end \<times> world) option" where
  "termination_handler env s locked self started w =
     (if locked then Some (Thread_Ends, w)
      else do {
        (rc, w1) \<leftarrow> fw_destroy env w;
        Some (if killed_threads self started \<noteq> [] then Killed else Exit_Code (if s = 0 then 1 else 0), w1)
      })"

section \<open>Threads and connections\<close>

text \<open>
  The three threads that \<open>main_loop\<close> starts, given by the results of \<open>pthread_create\<close>; a failure
  ends the gateway. The result is how it ends, if it does; \<open>started\<close> are the threads so far.
\<close>

fun start_threads ::
  "env \<Rightarrow> (gateway_thread \<Rightarrow> int) \<Rightarrow> gateway_thread list \<Rightarrow> gateway_thread list \<Rightarrow> world \<Rightarrow> (process_end option \<times> world) option" where
  "start_threads env create started [] w = Some (None, w)"
| "start_threads env create started (t # ts) w =
     (if create t \<noteq> 0 then map_option (\<lambda>(e, w1). (Some e, w1)) (termination_handler env 0 False None started w)
      else start_threads env create (started @ [t]) ts w)"

definition main_threads :: "gateway_thread list" where
  "main_threads = [Timeout_Thread, Wdctl_Thread, Ping_Thread]"

text \<open>
  The loop that waits for connections. What happens to one of them is given by a record; the
  requests handed to new threads (\<^const>\<open>thread_httpd\<close>) are collected, and how the process ends if it does.
\<close>

fun accept_loop ::
  "env \<Rightarrow> io \<Rightarrow> string \<Rightarrow> conn_answers list \<Rightarrow> handler httpd \<Rightarrow> world \<Rightarrow>
   (handler request list \<times> process_end option \<times> handler httpd \<times> world) option" where
  "accept_loop env io version [] server w = Some ([], None, server, w)"
| "accept_loop env io version (ca # cas) server w = do {
     (r, server1, w1) \<leftarrow> httpdGetConnection io (call_handler env io version) (ca_selects ca) False (ca_malloc ca) (ca_peer ca) server w;
     if h_lastError server1 = -1 then accept_loop env io version cas server1 w1
     else if h_lastError server1 < -1 then do {
       (rc, w2) \<leftarrow> termination_handler env 0 False None main_threads w1;
       Some ([], Some rc, server1, w2)
     }
     else (case r of
             Some req \<Rightarrow>
               if ca_create ca \<noteq> 0 then do {
                 (rc, w2) \<leftarrow> termination_handler env 0 False None main_threads w1;
                 Some ([], Some rc, server1, w2)
               }
               else do {
                 (rs, rc, server2, w2) \<leftarrow> accept_loop env io version cas server1 w1;
                 Some (req # rs, rc, server2, w2)
               }
           | None \<Rightarrow> accept_loop env io version cas server1 w1)
   }"

text \<open>
  \<open>thread_wdctl\<close>: \<open>answer\<close> is the outcome of the socket calls, and each connection is the result of
  \<open>accept\<close> and that of \<open>pthread_create\<close>; the descriptors handed to handlers are collected.
\<close>

fun wdctl_accept_loop :: "env \<Rightarrow> (int \<times> int) list \<Rightarrow> world \<Rightarrow> (int list \<times> process_end option \<times> world) option" where
  "wdctl_accept_loop env [] w = Some ([], None, w)"
| "wdctl_accept_loop env ((fd, created) # rest) w =
     (if fd = -1 then wdctl_accept_loop env rest w
      else if created \<noteq> 0 then do {
        (rc, w1) \<leftarrow> termination_handler env 0 False (Some Wdctl_Thread) main_threads w;
        Some ([], Some rc, w1)
      }
      else do {
        (fds, rc, w1) \<leftarrow> wdctl_accept_loop env rest w;
        Some (fd # fds, rc, w1)
      })"

definition thread_wdctl :: "env \<Rightarrow> int \<Rightarrow> string \<Rightarrow> (int \<times> int) list \<Rightarrow> world \<Rightarrow> (int list \<times> process_end option \<times> world) option" where
  "thread_wdctl env answer sock_name conns w =
     (if create_unix_socket answer sock_name = -1 then do {
        (rc, w1) \<leftarrow> termination_handler env 0 False (Some Wdctl_Thread) main_threads w;
        Some ([], Some rc, w1)
      }
      else wdctl_accept_loop env conns w)"

text \<open>
  \<open>main_loop\<close>: the requests handed to threads, and how the gateway ends if it does.
\<close>

definition main_loop ::
  "env \<Rightarrow> io \<Rightarrow> string \<Rightarrow> start_answers \<Rightarrow> world \<Rightarrow>
   (process_end + handler request list \<times> process_end option \<times> handler httpd \<times> world) option" where
  "main_loop env io version sa w = do {
     x \<leftarrow> main_start env sa w;
     (case x of
        Inl rc \<Rightarrow> Some (Inl (Exit_Code rc))
      | Inr (server, w1) \<Rightarrow> do {
          (ended, w2) \<leftarrow> start_threads env (sa_create sa) [] main_threads w1;
          (case ended of
             Some rc \<Rightarrow> Some (Inl rc)
           | None \<Rightarrow> map_option Inr (accept_loop env io version (sa_conns sa) server w2))
        })
   }"

text \<open>
  \<open>gw_main\<close>: \<open>file\<close> is the configuration file's content by its name, \<open>conn\<close> the connection to the
  parent; waiting for the parent to end is part of the outside. Forking into the background gives a
  new process id and leaves the rest as it is. The first part of the result is the arguments for
  a restart.
\<close>

definition gw_main ::
  "env \<Rightarrow> io \<Rightarrow> string \<Rightarrow> start_answers \<Rightarrow> (string \<Rightarrow> string option) \<Rightarrow> string option \<Rightarrow> int \<Rightarrow> string list \<Rightarrow> world \<Rightarrow>
   (process_end + string list \<times> handler request list \<times> process_end option \<times> handler httpd \<times> world) option" where
  "gw_main env io version sa file conn pid argv w = do {
     x \<leftarrow> parse_commandline argv config_init;
     (case x of
        Inl rc \<Rightarrow> Some (Inl (Exit_Code rc))
      | Inr st \<Rightarrow>
          (case config_read (file (configfile (cmd_config st))) (cmd_config st) of
             Inl (Conf_Exit rc) \<Rightarrow> Some (Inl (Exit_Code rc))
           | Inl Memory_Error \<Rightarrow> None
           | Inr c \<Rightarrow>
               (case config_validate False c of
                  Inl (Conf_Exit rc) \<Rightarrow> Some (Inl (Exit_Code rc))
                | Inl Memory_Error \<Rightarrow> None
                | Inr c1 \<Rightarrow>
                    (case init_signals (sa_sigaction sa) of
                       Inl rc \<Rightarrow> Some (Inl (Exit_Code rc))
                     | Inr handlers \<Rightarrow> do {
                         let w1 = w\<lparr>w_config := c1, w_clients := client_list_init (w_clients w),
                                    w_restart_orig_pid := cmd_orig_pid st\<rparr>;
                         s \<leftarrow> (if w_restart_orig_pid w1 \<noteq> 0 then get_clients_from_parent conn (w_clients w1)
                               else Some (w_clients w1));
                         y \<leftarrow> main_loop env io version sa (with_clients s w1);
                         Some (map_sum (\<lambda>e. e) (\<lambda>z. (append_x_restartargv pid (restartargv st), z)) y)
                       }))))
   }"

text \<open>\<open>main\<close> of \<^verbatim>\<open>main.c\<close>.\<close>

definition main ::
  "env \<Rightarrow> io \<Rightarrow> string \<Rightarrow> start_answers \<Rightarrow> (string \<Rightarrow> string option) \<Rightarrow> string option \<Rightarrow> int \<Rightarrow> string list \<Rightarrow> world \<Rightarrow>
   (process_end + string list \<times> handler request list \<times> process_end option \<times> handler httpd \<times> world) option" where
  "main env io version sa file conn pid argv w = gw_main env io version sa file conn pid argv w"

section \<open>Lemmas\<close>

text \<open>
  A signal that stands for the ends of two children makes the handler reap one of them: the other
  one stays a zombie.
\<close>

lemma sigchld_reaps_one: "sigchld_handler (p # q # others) running = (p, q # others)"
  by (simp add: sigchld_handler_def)

text \<open>
  Once the thread of the time-outs runs, another thread that ends the gateway never reaches its
  exit: the process is killed after the firewall has been taken down.
\<close>

lemma termination_killed:
  "Timeout_Thread \<in> set started \<Longrightarrow> self \<noteq> Some Timeout_Thread \<Longrightarrow>
    termination_handler env s False self started w = map_option (\<lambda>(rc, w1). (Killed, w1)) (fw_destroy env w)"
  by (cases "fw_destroy env w") (auto simp: termination_handler_def killed_threads_def)

text \<open>All five signals are handled once \<open>init_signals\<close> has returned.\<close>

lemma init_signals_total: "init_signals sigaction = Inr table \<Longrightarrow> dom table = set Enum.enum"
  by (auto simp: init_signals_def signal_handlers_def enum_signal_def split: if_splits)

lemma init_signals_complete:
  "init_signals sigaction = Inr table \<Longrightarrow>
   table = [SIGCHLD \<mapsto> Reap_Child, SIGPIPE \<mapsto> Ignore_Signal, SIGTERM \<mapsto> Terminate_Gateway,
     SIGQUIT \<mapsto> Terminate_Gateway, SIGINT \<mapsto> Terminate_Gateway]"
  by (auto simp: init_signals_def signal_handlers_def split: if_splits)

text \<open>
  Without a default access list every connection is handed to a thread, in the order of their
  arrival, and interrupted waits are repeated.
\<close>

definition connects :: "conn_answers \<Rightarrow> bool" where
  "connects ca \<longleftrightarrow> (\<exists>n. wait_connection (ca_selects ca) False = Some n \<and> n > 0)"

definition interrupted :: "conn_answers \<Rightarrow> bool" where
  "interrupted ca \<longleftrightarrow> (\<exists>n. wait_connection (ca_selects ca) False = Some n \<and> n < 0)"

lemma accept_loop_serves:
  assumes "h_defaultAcl server = []"
    and "list_all (\<lambda>ca. interrupted ca \<or> connects ca \<and> ca_malloc ca \<and> ca_create ca = 0) cas"
  shows "\<exists>server'. accept_loop env io version cas server w =
    Some (map (\<lambda>ca. new_request (snd (ca_peer ca)) (fst (ca_peer ca))) (filter connects cas), None, server', w)"
  using assms
proof (induction cas arbitrary: server)
  case (Cons ca cas)
  show ?case
  proof (cases "interrupted ca")
    case True
    then have "\<not> connects ca"
      by (auto simp: interrupted_def connects_def)
    then show ?thesis
      using True Cons by (auto simp: interrupted_def httpdGetConnection_def Let_def)
  next
    case False
    then show ?thesis
      using Cons.prems Cons.IH [of "server\<lparr>h_lastError := 0\<rparr>"] by (auto simp: connects_def httpdGetConnection_def Let_def)
  qed
qed simp

end
