(* ===== verification/Gateway_Props.thy ===== *)
theory Gateway_Props
  imports Gateway Client_Registry Fw_Props
begin

text \<open>
  What a restart preserves: the text that the parent sends for its clients is read back
  by the child as the same clients, and the arguments that are kept for the restart configure
  the child as the parent. Both have inputs for which this fails, which are stated as well.
\<close>

section \<open>Tokens in a buffer\<close>

definition clean :: "string \<Rightarrow> bool" where
  "clean s \<longleftrightarrow> list_all (\<lambda>c. c \<noteq> NUL \<and> c \<noteq> NL \<and> c \<noteq> CHR ''|'' \<and> c \<noteq> CHR ''='') s"

lemma clean_simps [simp]:
  "clean []" "clean (c # s) \<longleftrightarrow> c \<noteq> NUL \<and> c \<noteq> NL \<and> c \<noteq> CHR ''|'' \<and> c \<noteq> CHR ''='' \<and> clean s"
  "clean (s @ t) \<longleftrightarrow> clean s \<and> clean t"
  by (auto simp: clean_def)

lemma cleanD: "clean s \<Longrightarrow> NUL \<notin> set s \<and> NL \<notin> set s \<and> CHR ''|'' \<notin> set s \<and> CHR ''='' \<notin> set s"
  by (auto simp: clean_def list_all_iff)

lemma clean_show_nat [simp]: "clean (show_nat n)"
  by (auto simp: clean_def list_all_iff dest: set_show_nat isdigit_not_special)

lemma clean_show [simp]: "clean (show_int i)" "clean (show_u32_of_int i)" "clean (show_u64 x)"
  by (simp_all add: show_int_def show_u32_of_int_def show_u64_def NUL_def NL_def)

lemma char_neqs [simp]: "NUL \<noteq> CHR ''|''" "NUL \<noteq> CHR ''=''" "NL \<noteq> CHR ''|''" "NL \<noteq> CHR ''=''"
  "CHR ''|'' \<noteq> NUL" "CHR ''='' \<noteq> NUL" "CHR ''|'' \<noteq> NL" "CHR ''='' \<noteq> NL" "NUL \<noteq> NL" "NL \<noteq> NUL"
  by (simp_all add: NUL_def NL_def)

lemma str_at_eq: "NUL \<notin> set t \<Longrightarrow> str_at (pre @ t @ NUL # tail) (length pre) = t"
  by (simp add: str_at_def)

lemma takeWhile_clean: "d \<notin> set t \<Longrightarrow> takeWhile (\<lambda>c. c \<noteq> d) (t @ d # r) = t"
  by (induction t) auto

lemma strsep_at_found:
  assumes "NUL \<notin> set t" and "NUL \<notin> set r" and "d \<notin> set t" and "d \<noteq> NUL"
  shows "strsep_at (pre @ t @ d # r @ NUL # tail) (length pre) d =
    (Some (length pre + length t + 1), pre @ t @ NUL # r @ NUL # tail)"
proof -
  have "str_at (pre @ (t @ d # r) @ NUL # tail) (length pre) = t @ d # r"
    by (rule str_at_eq) (use assms in auto)
  then show ?thesis
    using assms(3) by (simp add: strsep_at_def Let_def takeWhile_clean list_update_append)
qed

lemma strsep_at_last:
  assumes "NUL \<notin> set t" and "d \<notin> set t"
  shows "strsep_at (pre @ t @ NUL # tail) (length pre) d = (None, pre @ t @ NUL # tail)"
  using str_at_eq [OF assms(1), of pre tail] assms(2) by (simp add: strsep_at_def)

lemma split_pair_eq:
  assumes "clean k" and "clean v"
  shows "split_pair (pre @ (k @ ''='' @ v) @ NUL # tail) (length pre) =
    (Some (length pre + length k + 1), pre @ (k @ NUL # v) @ NUL # tail)"
proof -
  have t: "str_at (pre @ (k @ ''='' @ v) @ NUL # tail) (length pre) = k @ ''='' @ v"
    by (rule str_at_eq) (use assms cleanD in auto)
  have "map (\<lambda>c. if c = CHR ''='' then NUL else c) (k @ ''='' @ v) = k @ NUL # v"
    using cleanD [OF assms(1)] cleanD [OF assms(2)] by (auto intro: map_idI)
  moreover have "takeWhile (\<lambda>c. c \<noteq> CHR ''='') (k @ ''='' @ v) = k"
    using takeWhile_clean [of "CHR ''=''" k v] cleanD [OF assms(1)] by simp
  ultimately show ?thesis
    unfolding split_pair_def t Let_def by simp
qed

section \<open>One line\<close>

definition fields_text :: "(string \<times> string) list \<Rightarrow> string" where
  "fields_text fs = concat (map (\<lambda>(k, v). ''|'' @ k @ ''='' @ v) fs)"

definition clean_fields :: "(string \<times> string) list \<Rightarrow> bool" where
  "clean_fields fs \<longleftrightarrow> list_all (\<lambda>(k, v). clean k \<and> clean v) fs"

lemma fields_text_simps [simp]:
  "fields_text [] = []" "fields_text ((k, v) # fs) = ''|'' @ k @ ''='' @ v @ fields_text fs"
  "clean_fields []" "clean_fields ((k, v) # fs) \<longleftrightarrow> clean k \<and> clean v \<and> clean_fields fs"
  by (simp_all add: fields_text_def clean_fields_def)

lemma fields_text_no_NUL: "clean_fields fs \<Longrightarrow> NUL \<notin> set (fields_text fs) \<and> NL \<notin> set (fields_text fs)"
  by (induction fs) (auto dest: cleanD)

text \<open>Two states of the clients that differ in one cell only.\<close>

definition upd_cell :: "nat \<Rightarrow> t_client \<Rightarrow> client_state \<Rightarrow> client_state \<Rightarrow> bool" where
  "upd_cell a c s s' \<longleftrightarrow> load (heap s') = (load (heap s))(a \<mapsto> c) \<and> firstclient s' = firstclient s \<and>
     client_id s' = client_id s"

lemma upd_cell_load: "upd_cell a c s s' \<Longrightarrow> load (heap s') a = Some c"
  by (simp add: upd_cell_def)

lemma upd_cell_trans: "upd_cell a c s s' \<Longrightarrow> upd_cell a d s' s'' \<Longrightarrow> upd_cell a d s s''"
  by (simp add: upd_cell_def)

lemma modify_upd: "load (heap s) a = Some c \<Longrightarrow> \<exists>s'. modify a f s = Some s' \<and> upd_cell a (f c) s s'"
proof -
  assume a: "load (heap s) a = Some c"
  then obtain h where "store (heap s) a (f c) = Some h" "load h = (load (heap s))(a \<mapsto> f c)"
    using cells.st_some [OF a] by blast
  with a show ?thesis by (simp add: modify_def upd_cell_def)
qed

lemma new_upd: "client_get_new s = (a, s') \<Longrightarrow> load (heap s) a = None \<and> upd_cell a zero_client s s'"
  using cells.new_fresh cells.ld_new
  by (auto simp: client_get_new_def upd_cell_def split: prod.splits)

lemma line_client_set:
  assumes "lv_command v = Some 0" and "str_at (lv_buf v) 0 = ''CLIENT''" and "lv_client v = Some a"
    and "lv_key v = Some i" and "lv_value v = Some j"
  shows "line_client v s = map_option (\<lambda>s2. (v, s2))
    (modify a (inherit_field (str_at (lv_buf v) i) (str_at (lv_buf v) j)) s)"
  using assms by (simp add: line_client_def Let_def map_option_case split: option.split)

lemma line_loop_step:
  "line_client (line_token p (v\<lparr>lv_buf := snd (strsep_at (lv_buf v) p (CHR ''|''))\<rparr>)) s = Some (v1, s1) \<Longrightarrow>
     line_loop (Some p) v s = line_loop (fst (strsep_at (lv_buf v) p (CHR ''|''))) v1 s1"
  by (simp add: line_loop.simps)

abbreviation inherit_fields :: "(string \<times> string) list \<Rightarrow> t_client \<Rightarrow> t_client" where
  "inherit_fields \<equiv> fold (\<lambda>(k, v). inherit_field k v)"

text \<open>One field: the token is split off, and split in the buffer.\<close>

lemma line_field:
  assumes "clean k" and "clean v" and pre: "pre = ''CLIENT'' @ NUL # pre'"
    and sep: "snd (strsep_at (lv_buf vv) (length pre) (CHR ''|'')) = pre @ (k @ ''='' @ v) @ NUL # tl1"
    and "lv_command vv = Some 0" and "lv_client vv = Some a" and "load (heap s) a = Some c"
  shows "\<exists>vv' s'. line_client (line_token (length pre)
      (vv\<lparr>lv_buf := snd (strsep_at (lv_buf vv) (length pre) (CHR ''|''))\<rparr>)) s = Some (vv', s') \<and>
    lv_buf vv' = (pre @ k @ NUL # v @ [NUL]) @ tl1 \<and> lv_command vv' = Some 0 \<and> lv_client vv' = Some a \<and>
    upd_cell a (inherit_field k v c) s s'"
proof -
  let ?b = "pre @ (k @ NUL # v) @ NUL # tl1"
  let ?v = "vv\<lparr>lv_buf := ?b, lv_key := Some (length pre), lv_value := Some (length pre + length k + 1)\<rparr>"
  have tok: "line_token (length pre) (vv\<lparr>lv_buf := snd (strsep_at (lv_buf vv) (length pre) (CHR ''|''))\<rparr>) = ?v"
    using split_pair_eq [OF assms(1,2), of pre tl1] assms(5) unfolding sep line_token_def by simp
  have cmd: "str_at ?b 0 = ''CLIENT''"
    unfolding pre by (simp add: str_at_def cstr_def NUL_def)
  have key: "str_at ?b (length pre) = k"
    using str_at_eq [of k pre "v @ NUL # tl1"] cleanD [OF assms(1)] by simp
  have val: "str_at ?b (length pre + length k + 1) = v"
    using str_at_eq [of v "pre @ k @ [NUL]" tl1] cleanD [OF assms(2)] by simp
  obtain s' where "modify a (inherit_field k v) s = Some s'" "upd_cell a (inherit_field k v c) s s'"
    using modify_upd [OF assms(7)] by blast
  then show ?thesis
    using tok line_client_set [of ?v a "length pre" "length pre + length k + 1" s] cmd key val assms(5,6)
    by simp
qed

lemma line_loop_fields:
  assumes "clean_fields ((k, v) # fs)" and "lv_command vv = Some 0"
    and "lv_buf vv = pre @ (k @ ''='' @ v @ fields_text fs) @ NUL # tail" and "pre = ''CLIENT'' @ NUL # pre'"
    and "lv_client vv = Some a" and "load (heap s) a = Some c"
  shows "\<exists>vv' s'. line_loop (Some (length pre)) vv s = Some (vv', s') \<and> lv_client vv' = Some a \<and>
    upd_cell a (inherit_fields ((k, v) # fs) c) s s'"
  using assms
proof (induction fs arbitrary: k v pre pre' vv s c)
  case Nil
  have t: "NUL \<notin> set (k @ ''='' @ v)" "CHR ''|'' \<notin> set (k @ ''='' @ v)"
    using Nil.prems(1) cleanD [of k] cleanD [of v] by auto
  have sep: "strsep_at (lv_buf vv) (length pre) (CHR ''|'') = (None, pre @ (k @ ''='' @ v) @ NUL # tail)"
    using strsep_at_last [OF t, of pre tail] Nil.prems(3) by simp
  have ck: "clean k" "clean v" using Nil.prems(1) by simp_all
  have sep2: "snd (strsep_at (lv_buf vv) (length pre) (CHR ''|'')) = pre @ (k @ ''='' @ v) @ NUL # tail"
    unfolding sep by simp
  obtain vv' s' where step: "line_client (line_token (length pre)
      (vv\<lparr>lv_buf := snd (strsep_at (lv_buf vv) (length pre) (CHR ''|''))\<rparr>)) s = Some (vv', s')"
    "lv_buf vv' = (pre @ k @ NUL # v @ [NUL]) @ tail" "lv_command vv' = Some 0"
    "lv_client vv' = Some a" "upd_cell a (inherit_field k v c) s s'"
    using line_field [OF ck(1,2) Nil.prems(4) sep2 Nil.prems(2,5,6)] by blast
  show ?case
    unfolding line_loop_step [OF step(1)] using sep step(4,5) by simp
next
  case (Cons f fs)
  obtain k2 v2 where f: "f = (k2, v2)" by (cases f)
  let ?r = "k2 @ ''='' @ v2 @ fields_text fs"
  have t: "NUL \<notin> set (k @ ''='' @ v)" "CHR ''|'' \<notin> set (k @ ''='' @ v)"
    using Cons.prems(1) cleanD [of k] cleanD [of v] by auto
  have r: "NUL \<notin> set ?r"
    using Cons.prems(1) cleanD [of k2] cleanD [of v2] fields_text_no_NUL [of fs] unfolding f by auto
  have sep: "strsep_at (lv_buf vv) (length pre) (CHR ''|'') =
      (Some (length pre + length (k @ ''='' @ v) + 1), pre @ (k @ ''='' @ v) @ NUL # ?r @ NUL # tail)"
    using strsep_at_found [OF t(1) r t(2), of pre tail] Cons.prems(3) unfolding f by simp
  have ck: "clean k" "clean v" using Cons.prems(1) by simp_all
  have sep2: "snd (strsep_at (lv_buf vv) (length pre) (CHR ''|'')) = pre @ (k @ ''='' @ v) @ NUL # ?r @ NUL # tail"
    unfolding sep by simp
  obtain vv1 s1 where step: "line_client (line_token (length pre)
      (vv\<lparr>lv_buf := snd (strsep_at (lv_buf vv) (length pre) (CHR ''|''))\<rparr>)) s = Some (vv1, s1)"
    "lv_buf vv1 = (pre @ k @ NUL # v @ [NUL]) @ ?r @ NUL # tail" "lv_command vv1 = Some 0" "lv_client vv1 = Some a"
    "upd_cell a (inherit_field k v c) s s1"
    using line_field [OF ck(1,2) Cons.prems(4) sep2 Cons.prems(2,5,6)] by blast
  have "\<exists>vv' s'. line_loop (Some (length (pre @ k @ NUL # v @ [NUL]))) vv1 s1 = Some (vv', s') \<and>
      lv_client vv' = Some a \<and> upd_cell a (inherit_fields ((k2, v2) # fs) (inherit_field k v c)) s1 s'"
    using Cons.IH [of k2 v2 vv1 "pre @ k @ NUL # v @ [NUL]" "pre' @ k @ NUL # v @ [NUL]" s1 "inherit_field k v c"]
      Cons.prems(1,4) step upd_cell_load [OF step(5)] unfolding f by simp
  then obtain vv' s' where "line_loop (Some (length pre + length (k @ ''='' @ v) + 1)) vv1 s1 = Some (vv', s')"
    "lv_client vv' = Some a" "upd_cell a (inherit_fields ((k2, v2) # fs) (inherit_field k v c)) s1 s'"
    by (auto simp: algebra_simps)
  then show ?case
    unfolding line_loop_step [OF step(1)] using sep upd_cell_trans [OF step(5)] f by auto
qed

text \<open>
  A whole line. The pointers \<open>key\<close> and \<open>val\<close> left over from the line before may assign one
  field of the new client before the fields of the line are read.
\<close>

lemma line_loop_client:
  assumes "clean_fields (f # fs)"
    and "linebuf = ''CLIENT'' @ fields_text (f # fs) @ NUL # tail"
  shows "\<exists>v a s' pr. line_loop (Some 0) \<lparr>lv_buf = linebuf, lv_command = None, lv_key = key, lv_value = val,
      lv_client = None\<rparr> s = Some (v, s') \<and> lv_client v = Some a \<and> load (heap s) a = None \<and> length pr \<le> 1 \<and>
      upd_cell a (inherit_fields (pr @ f # fs) zero_client) s s'"
proof -
  obtain k1 v1 where f: "f = (k1, v1)" by (cases f)
  let ?r = "k1 @ ''='' @ v1 @ fields_text fs"
  let ?init = "\<lparr>lv_buf = linebuf, lv_command = None, lv_key = key, lv_value = val, lv_client = None\<rparr>"
  let ?pre = "''CLIENT'' @ [NUL]"
  let ?b = "?pre @ ?r @ NUL # tail"
  have r: "NUL \<notin> set ?r"
    using assms(1) cleanD [of k1] cleanD [of v1] fields_text_no_NUL [of fs] unfolding f by auto
  have sep: "strsep_at linebuf 0 (CHR ''|'') = (Some 7, ?b)"
    using strsep_at_found [of "''CLIENT''" ?r "CHR ''|''" "[]" tail] r assms(2) unfolding f by (simp add: NUL_def)
  obtain a s1 where new: "client_get_new s = (a, s1)" by fastforce
  then have a: "load (heap s) a = None" "upd_cell a zero_client s s1"
    using new_upd by auto
  let ?made = "?init\<lparr>lv_buf := ?b, lv_command := Some 0, lv_client := Some a\<rparr>"
  have tok: "line_token 0 (?init\<lparr>lv_buf := snd (strsep_at (lv_buf ?init) 0 (CHR ''|''))\<rparr>) = ?init\<lparr>lv_buf := ?b, lv_command := Some 0\<rparr>"
    using sep by (simp add: line_token_def)
  have cmd: "str_at ?b 0 = ''CLIENT''"
    by (simp add: str_at_def cstr_def NUL_def)
  obtain s2 pr where s2: "line_client (?init\<lparr>lv_buf := ?b, lv_command := Some 0\<rparr>) s = Some (?made, s2)" "length pr \<le> 1"
    "upd_cell a (inherit_fields pr zero_client) s s2"
  proof (cases "key = None \<or> val = None")
    case True
    then have "line_client (?init\<lparr>lv_buf := ?b, lv_command := Some 0\<rparr>) s = Some (?made, s1)"
      using cmd new by (auto simp: line_client_def split: option.split)
    then show ?thesis using that [of s1 "[]"] a by simp
  next
    case False
    then obtain i j where ij: "key = Some i" "val = Some j" by auto
    obtain s2 where m: "modify a (inherit_field (str_at ?b i) (str_at ?b j)) s1 = Some s2"
      "upd_cell a (inherit_field (str_at ?b i) (str_at ?b j) zero_client) s1 s2"
      using modify_upd [OF upd_cell_load [OF a(2)]] by blast
    then have "line_client (?init\<lparr>lv_buf := ?b, lv_command := Some 0\<rparr>) s = Some (?made, s2)"
      using cmd new ij by (simp add: line_client_def)
    then show ?thesis
      using that [of s2 "[(str_at ?b i, str_at ?b j)]"] upd_cell_trans [OF a(2) m(2)] by simp
  qed
  have "\<exists>vv' s'. line_loop (Some (length ?pre)) ?made s2 = Some (vv', s') \<and> lv_client vv' = Some a \<and>
      upd_cell a (inherit_fields ((k1, v1) # fs) (inherit_fields pr zero_client)) s2 s'"
    by (rule line_loop_fields [of k1 v1 fs ?made ?pre tail "[]"])
      (use assms(1) f upd_cell_load [OF s2(3)] in simp_all)
  moreover have seven: "length ?pre = 7" by simp
  ultimately obtain vv' s' where l: "line_loop (Some 7) ?made s2 = Some (vv', s')" "lv_client vv' = Some a"
    "upd_cell a (inherit_fields (pr @ f # fs) zero_client) s2 s'"
    unfolding f seven by auto
  have "line_loop (Some 0) ?init s = line_loop (Some 7) ?made s2"
    using line_loop_step [of 0 ?init s ?made s2] tok s2(1) sep by simp
  then show ?thesis
    using l a(1) s2(2) upd_cell_trans [OF s2(3) l(3)] by (intro exI conjI) auto
qed

section \<open>The restart\<close>

definition line_fields :: "t_client \<Rightarrow> (string \<times> string) list" where
  "line_fields c = [(''ip'', show_str (c_ip c)), (''mac'', show_str (c_mac c)), (''token'', show_str (c_token c)),
     (''fw_connection_state'', show_u32_of_int (fw_connection_state c)), (''fd'', show_int (c_fd c)),
     (''counters_incoming'', show_u64 (incoming (counters c))), (''counters_outgoing'', show_u64 (outgoing (counters c))),
     (''counters_last_updated'', show_nat (nat (last_updated (counters c) mod 2 ^ 64)))]"

lemma client_line_fields: "client_line c = ''CLIENT'' @ fields_text (line_fields c) @ [NL]"
  by (simp add: client_line_def line_fields_def)

text \<open>
  The clients that survive a restart: their strings have none of the bytes that the format
  uses, their line fits the buffer, their counters fit a signed number of 64 bits.
\<close>

definition sendable :: "t_client \<Rightarrow> bool" where
  "sendable c \<longleftrightarrow> valid_client c \<and> clean (show_str (c_ip c)) \<and> clean (show_str (c_mac c)) \<and> clean (show_str (c_token c)) \<and>
     length (client_line c) \<le> MAX_BUF \<and>
     - (2 ^ 31) \<le> fw_connection_state c \<and> fw_connection_state c < 2 ^ 31 \<and> - (2 ^ 31) \<le> c_fd c \<and> c_fd c < 2 ^ 31 \<and>
     unat (incoming (counters c)) < 2 ^ 63 \<and> unat (outgoing (counters c)) < 2 ^ 63 \<and>
     0 \<le> last_updated (counters c) \<and> last_updated (counters c) < 2 ^ 63"

text \<open>What the child makes of a client: a new number, and the traffic so far as history.\<close>

definition inherited :: "t_client \<Rightarrow> u64 \<Rightarrow> t_client" where
  "inherited c i = c\<lparr>c_next := None, c_id := i, counters := (counters c)\<lparr>incoming_history := incoming (counters c),
     outgoing_history := outgoing (counters c), incoming_delta := 0, outgoing_delta := 0\<rparr>\<rparr>"

lemma inherit_numbers:
  assumes "sendable c"
  shows "atoi (show_u32_of_int (fw_connection_state c)) = fw_connection_state c" "atoi (show_int (c_fd c)) = c_fd c"
    "word_of_int (atoll (show_u64 (incoming (counters c)))) = incoming (counters c)"
    "word_of_int (atoll (show_u64 (outgoing (counters c)))) = outgoing (counters c)"
    "atol (show_nat (nat (last_updated (counters c) mod 2 ^ 64))) = last_updated (counters c)"
proof -
  have c: "- (2 ^ 31) \<le> fw_connection_state c" "fw_connection_state c < 2 ^ 31" "- (2 ^ 31) \<le> c_fd c" "c_fd c < 2 ^ 31"
    "unat (incoming (counters c)) < 2 ^ 63" "unat (outgoing (counters c)) < 2 ^ 63"
    "0 \<le> last_updated (counters c)" "last_updated (counters c) < 2 ^ 63"
    using assms unfolding sendable_def by blast+
  show "atoi (show_u32_of_int (fw_connection_state c)) = fw_connection_state c" "atoi (show_int (c_fd c)) = c_fd c"
    using atoi_show_u32 [OF c(1,2)] atoi_show_int [OF c(3,4)] by auto
  show "word_of_int (atoll (show_u64 (incoming (counters c)))) = incoming (counters c)"
    "word_of_int (atoll (show_u64 (outgoing (counters c)))) = outgoing (counters c)"
    using atoll_show_u64 [OF c(5)] atoll_show_u64 [OF c(6)] by simp_all
  show "atol (show_nat (nat (last_updated (counters c) mod 2 ^ 64))) = last_updated (counters c)"
    using c(7,8) by (simp add: atol_def strtol_def parse_long_show_nat sat64_def)
qed

text \<open>The fields of a full line set everything but the number, whatever was set before.\<close>

lemma inherit_all:
  assumes "sendable c"
  shows "(cdata (inherit_fields (old @ line_fields c) zero_client))\<lparr>c_id := i\<rparr> = inherited c i"
proof -
  let ?z = "inherit_fields old zero_client"
  have s: "show_str (c_ip c) = the (c_ip c)" "show_str (c_mac c) = the (c_mac c)" "show_str (c_token c) = the (c_token c)"
    "Some (the (c_ip c)) = c_ip c" "Some (the (c_mac c)) = c_mac c" "Some (the (c_token c)) = c_token c"
    using assms by (auto simp: sendable_def valid_client_def show_str_def split: option.splits)
  have "inherit_fields (line_fields c) ?z = ?z\<lparr>c_ip := c_ip c, c_mac := c_mac c, c_token := c_token c,
      fw_connection_state := fw_connection_state c, c_fd := c_fd c,
      counters := \<lparr>incoming = incoming (counters c), outgoing = outgoing (counters c),
        incoming_history = incoming (counters c), outgoing_history = outgoing (counters c), incoming_delta = 0,
        outgoing_delta = 0, last_updated = last_updated (counters c)\<rparr>\<rparr>"
    unfolding line_fields_def s(1-3)
    by (cases ?z; cases "counters ?z")
      (simp add: inherit_field_def inherit_numbers [OF assms] inherit_numbers(5) [OF assms, simplified] s(4-6) Let_def)
  then show ?thesis
    by (intro t_client.equality) (simp_all add: inherited_def cdata_def s)
qed

lemma receive_bytes:
  assumes "NUL \<notin> set t" and "NL \<notin> set t" and "length done1 + length t \<le> MAX_BUF" and "n \<ge> length t"
  shows "receive_loop (t @ input) (done1 @ replicate n NUL) (length done1) key val s =
    receive_loop input (done1 @ t @ replicate (n - length t) NUL) (length done1 + length t) key val s"
  using assms
proof (induction t arbitrary: done1 n)
  case (Cons c t)
  obtain m where n: "n = Suc m" using Cons.prems(4) by (cases n) auto
  have "receive_loop (t @ input) ((done1 @ [c]) @ replicate m NUL) (length (done1 @ [c])) key val s =
      receive_loop input ((done1 @ [c]) @ t @ replicate (m - length t) NUL) (length (done1 @ [c]) + length t) key val s"
    using Cons.IH [of "done1 @ [c]" m] Cons.prems n by simp
  moreover have "c \<noteq> NUL" "c \<noteq> NL" "\<not> MAX_BUF \<le> length done1"
    using Cons.prems by auto
  ultimately show ?case
    using n by (simp add: Let_def list_update_append)
qed simp

lemma receive_fields:
  assumes clean: "clean_fields (f # fs)" and len: "length (''CLIENT'' @ fields_text (f # fs)) < MAX_BUF"
    and s: "clist s ds"
  shows "\<exists>a s' key' val' old. receive_loop (''CLIENT'' @ fields_text (f # fs) @ NL # input)
      (replicate MAX_BUF NUL) 0 key val s = receive_loop input (replicate MAX_BUF NUL) 0 key' val' s' \<and>
    clist s' ((a, (cdata (inherit_fields (old @ f # fs) zero_client))\<lparr>c_id := client_id s\<rparr>) # ds) \<and>
    client_id s' = client_id s + 1"
proof -
  let ?t = "''CLIENT'' @ fields_text (f # fs)"
  have t: "NUL \<notin> set ?t" "NL \<notin> set ?t"
    using fields_text_no_NUL [OF clean] by (auto simp: NUL_def NL_def)
  obtain m where m: "MAX_BUF - length ?t = Suc m"
    using len by (metis Suc_diff_Suc)
  let ?buf = "''CLIENT'' @ fields_text (f # fs) @ NUL # replicate m NUL"
  obtain v a s1 old where l: "line_loop (Some 0) \<lparr>lv_buf = ?buf, lv_command = None, lv_key = key, lv_value = val,
      lv_client = None\<rparr> s = Some (v, s1)" "lv_client v = Some a" "load (heap s) a = None"
    "upd_cell a (inherit_fields (old @ f # fs) zero_client) s s1"
    using line_loop_client [OF clean, of ?buf "replicate m NUL" key val s] by blast
  have a: "a \<notin> fst ` set ds"
    using l(3) s dseg_allocated unfolding clist_def by blast
  have "clist s1 ds"
    using dseg_upd [OF s [unfolded clist_def], of s1 a] l(4) a unfolding clist_def upd_cell_def by simp
  then obtain s2 where s2: "client_list_insert_client a s1 = Some s2" "client_id s2 = client_id s1 + 1"
    "clist s2 ((a, (cdata (inherit_fields (old @ f # fs) zero_client))\<lparr>c_id := client_id s1\<rparr>) # ds)"
    using insert_client_spec [OF _ upd_cell_load [OF l(4)] a] by blast
  have id1: "client_id s1 = client_id s"
    using l(4) by (simp add: upd_cell_def)
  have "receive_loop (''CLIENT'' @ fields_text (f # fs) @ NL # input) (replicate MAX_BUF NUL) 0 key val s =
      receive_loop (NL # input) (?t @ replicate (Suc m) NUL) (length ?t) key val s"
    using receive_bytes [OF t, of "[]" MAX_BUF "NL # input" key val s] len m by simp
  also have "\<dots> = receive_loop input (replicate MAX_BUF NUL) 0 (lv_key v) (lv_value v) s2"
  proof -
    have "(?t @ replicate (Suc m) NUL)[length ?t := NUL] = ?buf"
      by (simp add: list_update_append)
    then show ?thesis
      using l(1,2) s2(1) len by (simp del: append_assoc append_Cons append_Nil replicate_Suc fields_text_simps)
  qed
  finally show ?thesis
    using s2(2,3) unfolding id1 by blast
qed

lemma clean_line_fields: "clean (show_str (c_ip c)) \<Longrightarrow> clean (show_str (c_mac c)) \<Longrightarrow> clean (show_str (c_token c)) \<Longrightarrow>
    clean_fields (line_fields c)"
  by (simp add: line_fields_def NUL_def NL_def)

lemma receive_line:
  assumes c: "sendable c" and s: "clist s ds"
  shows "\<exists>a s' key' val'. receive_loop (client_line c @ input) (replicate MAX_BUF NUL) 0 key val s =
      receive_loop input (replicate MAX_BUF NUL) 0 key' val' s' \<and>
    clist s' ((a, inherited c (client_id s)) # ds) \<and> client_id s' = client_id s + 1"
proof -
  have fs: "line_fields c = hd (line_fields c) # tl (line_fields c)"
    by (simp add: line_fields_def)
  have "clean_fields (hd (line_fields c) # tl (line_fields c))"
    "length (''CLIENT'' @ fields_text (hd (line_fields c) # tl (line_fields c))) < MAX_BUF"
    using c clean_line_fields [of c] unfolding fs [symmetric] by (simp_all add: sendable_def client_line_fields)
  from receive_fields [OF this s, of input key val, unfolded fs [symmetric]] show ?thesis
    using inherit_all [OF c] by (auto simp: client_line_fields)
qed

text \<open>The numbers that the child gives out are counted up from the first.\<close>

fun inherit_list :: "u64 \<Rightarrow> t_client list \<Rightarrow> t_client list" where
  "inherit_list i [] = []"
| "inherit_list i (c # cs) = inherited c i # inherit_list (i + 1) cs"

lemma receive_all:
  assumes "list_all sendable cs" and "clist s ds"
  shows "\<exists>s' es. receive_loop (concat (map client_line cs)) (replicate MAX_BUF NUL) 0 key val s = Some s' \<and>
    clist s' (es @ ds) \<and> map snd es = rev (inherit_list (client_id s) cs)"
  using assms
proof (induction cs arbitrary: s ds key val)
  case Nil
  then show ?case
    by (intro exI [of _ s] exI [of _ "[]"]) simp
next
  case (Cons c cs)
  have c: "sendable c" "list_all sendable cs" using Cons.prems(1) by simp_all
  obtain a s1 key1 val1 where s1: "receive_loop (client_line c @ concat (map client_line cs)) (replicate MAX_BUF NUL) 0 key val s =
      receive_loop (concat (map client_line cs)) (replicate MAX_BUF NUL) 0 key1 val1 s1"
    "clist s1 ((a, inherited c (client_id s)) # ds)" "client_id s1 = client_id s + 1"
    using receive_line [OF c(1) Cons.prems(2), of "concat (map client_line cs)" key val] by blast
  obtain s' es where s': "receive_loop (concat (map client_line cs)) (replicate MAX_BUF NUL) 0 key1 val1 s1 = Some s'"
    "clist s' (es @ (a, inherited c (client_id s)) # ds)" "map snd es = rev (inherit_list (client_id s1) cs)"
    using Cons.IH [OF c(2) s1(2), of key1 val1] by blast
  then show ?case
    using s1(1,3)
    by (intro exI [of _ s'] exI [of _ "es @ [(a, inherited c (client_id s))]"]) simp
qed


section \<open>The parent\<close>

lemma write_all:
  assumes "list_all (\<lambda>r. 0 < r) ws" and "length t \<le> length ws"
  shows "\<exists>ws'. write_to_socket ws t out = Some (1, ws', out @ t) \<and> list_all (\<lambda>r. 0 < r) ws' \<and>
    length ws \<le> length ws' + length t"
  using assms
proof (induction ws t out rule: write_to_socket.induct)
  case (3 r ws c t out)
  have r: "r \<noteq> -1" "0 < r" "0 < nat r" "list_all (\<lambda>r. 0 < r) ws" using 3(2) by auto
  have len: "length (drop (nat r) (c # t)) \<le> length ws"
    using r(3) 3(3) by simp
  obtain ws' where "write_to_socket ws (drop (nat r) (c # t)) (out @ take (nat r) (c # t)) =
      Some (1, ws', (out @ take (nat r) (c # t)) @ drop (nat r) (c # t))" "list_all (\<lambda>r. 0 < r) ws'"
    "length ws \<le> length ws' + length (drop (nat r) (c # t))"
    using 3(1) [OF r(1,4) len] by blast
  then show ?case
    using r(1,3) by simp
qed auto

lemma send_all:
  assumes "dseg s p ds" and "list_all (\<lambda>r. 0 < r) ws"
    and "length (concat (map (\<lambda>x. client_line (snd x)) ds)) \<le> length ws"
  shows "\<exists>ws'. send_clients s p ws out = Some (ws', out @ concat (map (\<lambda>x. client_line (snd x)) ds))"
  using assms
proof (induction ds arbitrary: p ws out)
  case Nil
  then show ?case by (simp add: send_clients.simps)
next
  case (Cons x ds)
  obtain a d where x: "x = (a, d)" by (cases x)
  then obtain c where c: "p = Some a" "load (heap s) a = Some c" "cdata c = d" "dseg s (c_next c) ds"
    using Cons.prems(1) by auto
  have line: "client_line c = client_line d"
    unfolding c(3) [symmetric] by (simp add: client_line_def)
  obtain ws1 where w: "write_to_socket ws (client_line d) out = Some (1, ws1, out @ client_line d)"
    "list_all (\<lambda>r. 0 < r) ws1" "length ws \<le> length ws1 + length (client_line d)"
    using write_all [OF Cons.prems(2), of "client_line d" out] Cons.prems(3) x by auto
  have "length (concat (map (\<lambda>x. client_line (snd x)) ds)) \<le> length ws1"
    using w(3) Cons.prems(3) x by simp
  from Cons.IH [OF c(4) w(2) this] obtain ws' where
    "send_clients s (c_next c) ws1 (out @ client_line d) =
      Some (ws', (out @ client_line d) @ concat (map (\<lambda>x. client_line (snd x)) ds))" by blast
  then show ?case
    using c(1,2) w(1) line x by (simp add: send_clients.simps [of s "Some a"])
qed

section \<open>Properties of a restart\<close>

text \<open>
  C10: A restart loses no client. When every \<open>write\<close> to the socket makes progress, the parent
  sends all its clients, whatever the sizes of the writes, and the child that reads the text
  builds a proper list of exactly these clients: same address, MAC, token, mark, descriptor,
  counters and time of activity; the traffic so far becomes history, the deltas start at 0, and the
  numbers are given anew. The order is reversed, since the child inserts at the front.
\<close>

theorem restart_roundtrip:
  assumes "clist (w_clients w) ds" and "list_all (\<lambda>x. sendable (snd x)) ds"
    and "length (internal_sock (w_config w)) \<le> 107" and "answer \<noteq> -1" and "0 < pid" and "fd \<noteq> -1"
    and "list_all (\<lambda>r. 0 < r) ws" and "length (concat (map (\<lambda>x. client_line (snd x)) ds)) \<le> length ws"
    and "clist s []"
  shows "\<exists>out s' es. wdctl_restart answer pid fd ws w = Some (Interrupt_After out) \<and>
    get_clients_from_parent (Some out) s = Some s' \<and> clist s' es \<and>
    map snd es = rev (inherit_list (client_id s) (map snd ds))"
proof -
  let ?out = "concat (map client_line (map snd ds))"
  have "wdctl_restart answer pid fd ws w = Some (Interrupt_After ?out)"
    using send_all [OF assms(1) [unfolded clist_def] assms(7,8), of "[]"] assms(3-6)
    by (auto simp: wdctl_restart_def create_unix_socket_def client_get_first_client_def comp_def)
  moreover have "list_all sendable (map snd ds)"
    using assms(2) by (simp add: list_all_iff)
  ultimately show ?thesis
    using receive_all [OF _ assms(9), of "map snd ds" None None] by (auto simp: get_clients_from_parent_def)
qed

lemma show_small: "show_nat 0 = ''0''" "show_nat 2 = ''2''"
  by code_simp+

lemma client_line_one: "client_line ((one_client FW_MARK_KNOWN)\<lparr>c_ip := Some ip, c_mac := Some mac, c_token := Some tok\<rparr>) =
    ''CLIENT|ip='' @ ip @ ''|mac='' @ mac @ ''|token='' @ tok @ ''|fw_connection_state=2|fd=0|counters_incoming=0'' @
    ''|counters_outgoing=0|counters_last_updated=0'' @ [NL]"
  by (simp add: client_line_def show_str_def one_client_def zero_client_def zero_counters_def show_int_def
      show_u32_of_int_def show_u64_def show_small FW_MARK_KNOWN_def)

lemma sendable_one:
  "clean ip \<Longrightarrow> clean mac \<Longrightarrow> clean tok \<Longrightarrow> length ip + length mac + length tok < 1000 \<Longrightarrow>
    sendable ((one_client FW_MARK_KNOWN)\<lparr>c_ip := Some ip, c_mac := Some mac, c_token := Some tok\<rparr>)"
  unfolding sendable_def client_line_one
  by (simp add: valid_client_def show_str_def MAX_BUF_def one_client_def zero_client_def zero_counters_def FW_MARK_KNOWN_def)

lemma one_client_again: "(one_client st)\<lparr>c_ip := Some ''10.0.0.7'', c_mac := Some ''00:01'', c_token := Some ''t''\<rparr> = one_client st"
  by (simp add: one_client_def)

theorem restart_roundtrip_witness:
  "\<exists>out s' es. wdctl_restart 3 100 4 (replicate 200 1) (one_world FW_MARK_KNOWN []) = Some (Interrupt_After out) \<and>
    get_clients_from_parent (Some out) initial_clients = Some s' \<and> clist s' es \<and>
    map snd es = [inherited (one_client FW_MARK_KNOWN) 1]"
proof -
  have "length (client_line (one_client FW_MARK_KNOWN)) \<le> 200"
    using client_line_one [where ip = "''10.0.0.7''" and mac = "''00:01''" and tok = "''t''"] unfolding one_client_again by simp
  moreover have "sendable (one_client FW_MARK_KNOWN)"
    using sendable_one [of "''10.0.0.7''" "''00:01''" "''t''"] unfolding one_client_again by (simp add: NUL_def NL_def)
  moreover have "length (internal_sock config_init) \<le> 107"
    by code_simp
  moreover have "clist initial_clients []" "client_id initial_clients = 1"
    by (simp_all add: clist_def initial_clients_def)
  ultimately show ?thesis
    using restart_roundtrip [of "one_world FW_MARK_KNOWN []" "[(0, one_client FW_MARK_KNOWN)]" 3 100 4 "replicate 200 1"
        initial_clients] by (simp add: list_all_iff)
qed

text \<open>
  C40: The text of a restart has no quoting. A client whose token has a newline in it, which a
  request can bring about with an escaped newline in its \<open>token\<close> variable, makes the child
  enter a second client with an address, MAC and token of the request's choice, and with the mark
  and counters of the first; the firewall then admits it (\<open>fw_init\<close>).
\<close>

theorem restart_injection:
  assumes "c_token c = Some (t @ [NL] @ ''CLIENT|ip='' @ ip @ ''|mac='' @ mac @ ''|token='' @ tok)"
    and "sendable (c\<lparr>c_token := Some t\<rparr>)" and "sendable (c\<lparr>c_ip := Some ip, c_mac := Some mac, c_token := Some tok\<rparr>)"
    and "clist s []"
  shows "\<exists>s' a b d. get_clients_from_parent (Some (client_line c)) s = Some s' \<and>
    clist s' [(b, inherited (c\<lparr>c_ip := Some ip, c_mac := Some mac, c_token := Some tok\<rparr>) (client_id s + 1)), (a, d)] \<and>
    c_ip d = c_ip c \<and> c_mac d = c_mac c \<and> c_token d = Some t"
proof -
  let ?fs = "[(''ip'', show_str (c_ip c)), (''mac'', show_str (c_mac c)), (''token'', t)]"
  let ?c2 = "c\<lparr>c_ip := Some ip, c_mac := Some mac, c_token := Some tok\<rparr>"
  have line: "client_line c = ''CLIENT'' @ fields_text ?fs @ NL # client_line ?c2"
    by (simp add: client_line_def assms(1) show_str_def)
  have strs: "Some (show_str (c_ip c)) = c_ip c" "Some (show_str (c_mac c)) = c_mac c"
    using assms(2) by (auto simp: sendable_def valid_client_def show_str_def)
  have "clean_fields ?fs" "length (''CLIENT'' @ fields_text ?fs) < MAX_BUF"
    using assms(2) by (simp_all add: sendable_def client_line_def show_str_def NUL_def NL_def)
  from receive_fields [OF this assms(4), of "client_line ?c2" None None] obtain a s1 key val old where s1:
    "receive_loop (client_line c) (replicate MAX_BUF NUL) 0 None None s =
       receive_loop (client_line ?c2) (replicate MAX_BUF NUL) 0 key val s1"
    "clist s1 [(a, (cdata (inherit_fields (old @ ?fs) zero_client))\<lparr>c_id := client_id s\<rparr>)]" "client_id s1 = client_id s + 1"
    unfolding line by blast
  let ?d = "(cdata (inherit_fields (old @ ?fs) zero_client))\<lparr>c_id := client_id s\<rparr>"
  have "c_ip ?d = c_ip c" "c_mac ?d = c_mac c" "c_token ?d = Some t"
    by (simp_all add: inherit_field_def strs)
  moreover obtain b s2 where "receive_loop (client_line ?c2) (replicate MAX_BUF NUL) 0 key val s1 = Some s2"
    "clist s2 [(b, inherited ?c2 (client_id s + 1)), (a, ?d)]"
    using receive_line [OF assms(3) s1(2), of "[]" key val] s1(3) by auto
  ultimately show ?thesis
    using s1(1) unfolding get_clients_from_parent_def by force
qed

theorem restart_injection_witness:
  "\<exists>s' a b d e. get_clients_from_parent (Some (client_line ((one_client FW_MARK_KNOWN)\<lparr>c_token :=
       Some (''x'' @ [NL] @ ''CLIENT|ip=10.0.0.66|mac=00:66|token=y'')\<rparr>))) initial_clients = Some s' \<and>
    clist s' [(b, e), (a, d)] \<and> c_ip e = Some ''10.0.0.66'' \<and> fw_connection_state e = FW_MARK_KNOWN"
proof -
  let ?c = "(one_client FW_MARK_KNOWN)\<lparr>c_token := Some (''x'' @ [NL] @ ''CLIENT|ip='' @ ''10.0.0.66'' @ ''|mac='' @
    ''00:66'' @ ''|token='' @ ''y'')\<rparr>"
  have "sendable (?c\<lparr>c_token := Some ''x''\<rparr>)"
    using sendable_one [of "''10.0.0.7''" "''00:01''" "''x''"] by (simp add: one_client_def zero_client_def NUL_def NL_def)
  moreover have "sendable (?c\<lparr>c_ip := Some ''10.0.0.66'', c_mac := Some ''00:66'', c_token := Some ''y''\<rparr>)"
    using sendable_one [of "''10.0.0.66''" "''00:66''" "''y''"] by (simp add: one_client_def zero_client_def NUL_def NL_def)
  moreover have "clist initial_clients []"
    by (simp add: clist_def initial_clients_def)
  ultimately obtain s' a b d where
    "get_clients_from_parent (Some (client_line ?c)) initial_clients = Some s'"
    "clist s' [(b, inherited (?c\<lparr>c_ip := Some ''10.0.0.66'', c_mac := Some ''00:66'', c_token := Some ''y''\<rparr>)
       (client_id initial_clients + 1)), (a, d)]"
    using restart_injection [of ?c "''x''" "''10.0.0.66''" "''00:66''" "''y''" initial_clients] by auto
  then show ?thesis
    by (intro exI [of _ s'] exI [of _ a] exI [of _ b] exI [of _ d] exI
        [of _ "inherited (?c\<lparr>c_ip := Some ''10.0.0.66'', c_mac := Some ''00:66'', c_token := Some ''y''\<rparr>)
          (client_id initial_clients + 1)"]) (simp add: inherited_def)
qed

section \<open>The command line of a restart\<close>

definition letter_ok :: "char \<times> string option \<Rightarrow> bool" where
  "letter_ok x \<longleftrightarrow> takes_value (fst x) = Some (snd x \<noteq> None)"

lemma parse_option_letter: "parse_option c v st = Inr st1 \<Longrightarrow> letter_ok (c, v)"
  by (auto simp: parse_option_def letter_ok_def takes_value_def Let_def split: option.splits if_splits)

lemma letter_not_dash: "letter_ok (c, v) \<Longrightarrow> c \<noteq> CHR ''-''"
  by (auto simp: letter_ok_def takes_value_def split: if_splits)

text \<open>Options that are written one letter per argument are read back.\<close>

lemma getopt_one:
  assumes "letter_ok (c, v)"
  shows "getopt_all takes_value (([CHR ''-'', c] # (case v of None \<Rightarrow> [] | Some x \<Rightarrow> [x])) @ args) = (c, v) # getopt_all takes_value args"
  using assms letter_not_dash [OF assms] by (cases v) (simp_all add: letter_ok_def is_option_def)

definition kept :: "(char \<times> string option) list \<Rightarrow> (char \<times> string option) list" where
  "kept os = filter (\<lambda>x. \<not> skiponrestart (fst x)) os"

definition kept_args :: "(char \<times> string option) list \<Rightarrow> string list" where
  "kept_args os = concat (map (\<lambda>x. restart_args (fst x) (snd x)) os)"

lemma kept_simps [simp]:
  "kept [] = []" "kept (x # os) = (if skiponrestart (fst x) then kept os else x # kept os)"
  "kept_args [] = []" "kept_args (x # os) = restart_args (fst x) (snd x) @ kept_args os"
  by (simp_all add: kept_def kept_args_def)

lemma getopt_kept: "list_all letter_ok os \<Longrightarrow> getopt_all takes_value (kept_args os @ args) = kept os @ getopt_all takes_value args"
proof (induction os)
  case (Cons x os)
  show ?case
    using Cons getopt_one [of "fst x" "snd x" "kept_args os @ args"] by (simp add: restart_args_def)
qed simp

text \<open>A restarted gateway ignores the flags for running in the foreground.\<close>

definition background :: "s_config \<Rightarrow> s_config \<Rightarrow> s_config" where
  "background conf c = c\<lparr>daemon := daemon conf, debugconf := (debugconf c)\<lparr>log_stderr := log_stderr (debugconf conf)\<rparr>\<rparr>"

lemma background_skip:
  "parse_option c v st = Inr st1 \<Longrightarrow> skiponrestart c \<Longrightarrow>
    background conf (cmd_config st1) = background conf (cmd_config st) \<and> restartargv st1 = restartargv st"
  by (auto simp: parse_option_def skiponrestart_def background_def Let_def split: option.splits if_splits)

lemma background_keep:
  assumes "parse_option c v st = Inr st1" and "\<not> skiponrestart c"
    and "cmd_config st' = background conf (cmd_config st)" and "restartargv st' = restartargv st"
  shows "\<exists>st1'. parse_option c v st' = Inr st1' \<and> cmd_config st1' = background conf (cmd_config st1) \<and>
    restartargv st1' = restartargv st1"
  using assms by (auto simp: parse_option_def skiponrestart_def background_def Let_def split: option.splits if_splits)

lemma reparse:
  assumes "parse_options os st = Inr st1"
    and "cmd_config st' = background conf (cmd_config st)" and "restartargv st' = restartargv st"
  shows "list_all letter_ok os \<and> restartargv st1 = restartargv st @ kept_args os \<and>
    (\<exists>st1'. parse_options (kept os @ rest) st' = parse_options rest st1' \<and>
      cmd_config st1' = background conf (cmd_config st1) \<and> restartargv st1' = restartargv st1)"
  using assms
proof (induction os arbitrary: st st')
  case Nil
  then show ?case by auto
next
  case (Cons x os)
  obtain c v where x: "x = (c, v)" by (cases x)
  obtain st2 where st2: "parse_option c v st = Inr st2"
    "parse_options os (st2\<lparr>restartargv := restartargv st2 @ restart_args c v\<rparr>) = Inr st1"
    using Cons.prems(1) x by (auto split: sum.splits)
  have same: "restartargv st2 = restartargv st"
    using st2(1) by (auto simp: parse_option_def Let_def split: option.splits if_splits)
  show ?case
  proof (cases "skiponrestart c")
    case True
    then show ?thesis
      using Cons.IH [OF st2(2), of st'] Cons.prems(2,3) background_skip [OF st2(1) True, of conf] x same
        parse_option_letter [OF st2(1)] by (auto simp: restart_args_def)
  next
    case False
    obtain st2' where st2': "parse_option c v st' = Inr st2'" "cmd_config st2' = background conf (cmd_config st2)"
      "restartargv st2' = restartargv st2"
      using background_keep [OF st2(1) False Cons.prems(2,3)] by blast
    show ?thesis
      using Cons.IH [OF st2(2), of "st2'\<lparr>restartargv := restartargv st2' @ restart_args c v\<rparr>"] st2' x same False
        parse_option_letter [OF st2(1)] by auto
  qed
qed

text \<open>
  C25: The arguments kept for a restart configure the child as the parent was configured:
  when the parent's command line was accepted, the child's, with the process id added, is accepted
  too, gives the same configuration but for the flags of running in the foreground, the
  parent's process id, and again the same arguments for the next restart: they do not pile up.
\<close>

theorem restart_arguments:
  assumes "parse_commandline argv conf = Some (Inr st)" and "- (2 ^ 31) \<le> pid" and "pid < 2 ^ 31"
  shows "\<exists>st'. parse_commandline (append_x_restartargv pid (restartargv st)) conf = Some (Inr st') \<and>
    cmd_config st' = (cmd_config st)\<lparr>daemon := daemon conf,
      debugconf := (debugconf (cmd_config st))\<lparr>log_stderr := log_stderr (debugconf conf)\<rparr>\<rparr> \<and>
    cmd_orig_pid st' = pid \<and> restartargv st' = restartargv st"
proof -
  obtain prog args where argv: "argv = prog # args"
    using assms(1) by (auto simp: parse_commandline_def split: list.splits)
  let ?os = "getopt_all takes_value args" and ?st = "\<lparr>cmd_config = conf, cmd_orig_pid = 0, restartargv = [prog]\<rparr>"
  have p: "parse_options ?os ?st = Inr st"
    using assms(1) unfolding argv parse_commandline_def by (auto split: sum.splits if_splits)
  have "cmd_config ?st = background conf (cmd_config ?st)"
    by (simp add: background_def)
  from reparse [OF p this refl, of "[(CHR ''x'', Some (show_int pid))]"] obtain st1 where
    ok: "list_all letter_ok ?os" "restartargv st = [prog] @ kept_args ?os"
    "parse_options (kept ?os @ [(CHR ''x'', Some (show_int pid))]) ?st = parse_options [(CHR ''x'', Some (show_int pid))] st1"
    "cmd_config st1 = background conf (cmd_config st)" "restartargv st1 = restartargv st" by auto
  have "getopt_all takes_value (kept_args ?os @ [''-x'', show_int pid]) = kept ?os @ [(CHR ''x'', Some (show_int pid))]"
    using getopt_kept [OF ok(1), of "[''-x'', show_int pid]"] getopt_one [of "CHR ''x''" "Some (show_int pid)" "[]"]
    by (simp add: letter_ok_def takes_value_def)
  then show ?thesis
    using ok atoi_show_int [OF assms(2,3)]
    by (auto simp: append_x_restartargv_def parse_commandline_def parse_option_def restart_args_def skiponrestart_def
        background_def Let_def)
qed

theorem restart_arguments_witness:
  "\<exists>st st'. parse_commandline [''wifidog'', ''-fs'', ''-c'', ''/etc/x.conf''] config_init = Some (Inr st) \<and>
    parse_commandline (append_x_restartargv 77 (restartargv st)) config_init = Some (Inr st') \<and>
    configfile (cmd_config st') = ''/etc/x.conf'' \<and> cmd_orig_pid st' = 77 \<and> restartargv st' = restartargv st"
proof -
  obtain st where st: "parse_commandline [''wifidog'', ''-fs'', ''-c'', ''/etc/x.conf''] config_init = Some (Inr st)"
    "configfile (cmd_config st) = ''/etc/x.conf''"
    by (simp add: parse_commandline_def is_option_def takes_value_def parse_option_def restart_args_def skiponrestart_def Let_def)
  then show ?thesis
    using restart_arguments [OF st(1), of 77] by auto
qed

text \<open>
  C35: Every kept option takes one or two places of the array for the restart, which has
  three places more than there are arguments. Letters that are joined in one argument take a place
  each: from two joined flags on, the array is overrun.
\<close>

theorem restart_arguments_overrun:
  assumes "2 \<le> n"
  shows "parse_commandline [prog, CHR ''-'' # replicate n (CHR ''s'')] conf = None"
proof -
  let ?s = "(CHR ''s'', None)"
  have g: "getopt_letters takes_value (replicate n (CHR ''s'')) [] = (replicate n ?s, [])" for n
    by (induction n) (simp_all add: takes_value_def)
  have p: "\<exists>st'. parse_options (replicate n ?s) st = Inr st' \<and> length (restartargv st') = length (restartargv st) + n"
    for n and st :: cmd_state
  proof (induction n arbitrary: st)
    case (Suc n)
    show ?case
      using Suc [of "st\<lparr>cmd_config := (cmd_config st)\<lparr>debugconf := (debugconf (cmd_config st))\<lparr>log_syslog := 1\<rparr>\<rparr>,
          restartargv := restartargv st @ [''-s'']\<rparr>"]
      by (auto simp: parse_option_def restart_args_def skiponrestart_def Let_def)
  qed simp
  have "getopt_all takes_value [CHR ''-'' # replicate n (CHR ''s'')] = replicate n ?s"
    using assms g [of n] by (cases n) (auto simp: is_option_def)
  then show ?thesis
    using p [of n "\<lparr>cmd_config = conf, cmd_orig_pid = 0, restartargv = [prog]\<rparr>"] assms
    by (auto simp: parse_commandline_def)
qed

theorem restart_arguments_overrun_witness:
  "parse_commandline [''wifidog'', ''-ss''] config_init = None"
  using restart_arguments_overrun [of 2 "''wifidog''" config_init] by (simp add: numeral_2_eq_2)

end
