(* ===== verification/Rely_Guarantee.thy ===== *)
theory Rely_Guarantee
  imports Main
begin

text \<open>
  Threads that share a state: each relies on the others to keep an invariant and to leave alone
  what it has for itself, and guarantees the same to them. The invariant ties the state \<open>s\<close> to an
  abstract value \<open>g\<close>; \<open>keep s g s' g'\<close> says what a step promises to the threads that wait.
\<close>

definition guar :: "('s \<Rightarrow> 'g \<Rightarrow> bool) \<Rightarrow> ('s \<Rightarrow> 'g \<Rightarrow> 's \<Rightarrow> 'g \<Rightarrow> bool) \<Rightarrow> ('s \<Rightarrow> 's \<Rightarrow> bool) \<Rightarrow> bool" where
  "guar ok keep R \<longleftrightarrow> (\<forall>s g s'. ok s g \<longrightarrow> R s s' \<longrightarrow> (\<exists>g'. ok s' g' \<and> keep s g s' g'))"

lemma guarI [intro?]: "(\<And>s g s'. ok s g \<Longrightarrow> R s s' \<Longrightarrow> \<exists>g'. ok s' g' \<and> keep s g s' g') \<Longrightarrow> guar ok keep R"
  unfolding guar_def by blast

lemma guarE:
  assumes "guar ok keep R" "ok s g" "R s s'"
  obtains g' where "ok s' g'" "keep s g s' g'"
  using assms unfolding guar_def by blast

lemma guar_mono: "guar ok keep R \<Longrightarrow> S \<le> R \<Longrightarrow> guar ok keep S"
  unfolding guar_def by blast

locale rely_guarantee =
  fixes ok :: "'s \<Rightarrow> 'g \<Rightarrow> bool"
    and keep :: "'s \<Rightarrow> 'g \<Rightarrow> 's \<Rightarrow> 'g \<Rightarrow> bool"
  assumes keep_refl: "ok s g \<Longrightarrow> keep s g s g"
    and keep_trans: "keep s1 g1 s2 g2 \<Longrightarrow> keep s2 g2 s3 g3 \<Longrightarrow> keep s1 g1 s3 g3"
begin

lemma guar_idle: "guar ok keep (=)"
  using keep_refl unfolding guar_def by blast

lemma guar_comp:
  assumes "guar ok keep R" "guar ok keep S"
  shows "guar ok keep (R OO S)"
proof
  fix s g s'
  assume "ok s g" "(R OO S) s s'"
  then obtain t where t: "R s t" "S t s'" by blast
  obtain g1 where g1: "ok t g1" "keep s g t g1"
    by (rule guarE [OF assms(1) \<open>ok s g\<close> t(1)])
  obtain g2 where "ok s' g2" "keep t g1 s' g2"
    by (rule guarE [OF assms(2) g1(1) t(2)])
  then show "\<exists>g'. ok s' g' \<and> keep s g s' g'"
    using keep_trans [OF g1(2)] by blast
qed

lemma guar_runs:
  assumes "guar ok keep R"
  shows "guar ok keep R\<^sup>*\<^sup>*"
proof
  fix s g s'
  assume "ok s g" "R\<^sup>*\<^sup>* s s'"
  from this(2,1) show "\<exists>g'. ok s' g' \<and> keep s g s' g'"
  proof (induction rule: rtranclp_induct)
    case base
    then show ?case
      using keep_refl by blast
  next
    case (step y z)
    then obtain g1 where g1: "ok y g1" "keep s g y g1" by blast
    obtain g2 where "ok z g2" "keep y g1 z g2"
      by (rule guarE [OF assms g1(1) step.hyps(2)])
    then show ?case
      using keep_trans [OF g1(2)] by blast
  qed
qed

lemma invariant_of_runs: "guar ok keep R \<Longrightarrow> ok s g \<Longrightarrow> R\<^sup>*\<^sup>* s s' \<Longrightarrow> \<exists>g'. ok s' g'"
  by (metis guarE guar_runs)

end

end
