(* ===== verification/Http_Props.thy ===== *)
theory Http_Props
  imports Http Auth_Props Wdctl Rely_Guarantee
begin

text \<open>
  What the threads of connections and of the control socket guarantee to the others: the pages and
  commands that change the client list keep it in step with the firewall, and leave the private
  memory of other threads alone. This is the condition \<open>others_ok\<close> that the synchronisation relies
  on.
\<close>

section \<open>The guarantee\<close>

definition guarantees :: "string \<Rightarrow> world \<Rightarrow> (nat \<times> t_client) list \<Rightarrow> world \<Rightarrow> bool" where
  "guarantees intf w ds w' \<longleftrightarrow> (\<exists>ds'. in_step intf w' ds' \<and> keeps_private (w_clients w) ds (w_clients w') ds')"

lemma guaranteesI: "in_step intf w' ds' \<Longrightarrow> keeps_private (w_clients w) ds (w_clients w') ds' \<Longrightarrow> guarantees intf w ds w'"
  unfolding guarantees_def by blast

lemma guarantees_trans:
  assumes "in_step intf w1 ds1" "keeps_private (w_clients w) ds (w_clients w1) ds1" "guarantees intf w1 ds1 w2"
  shows "guarantees intf w ds w2"
  using assms keeps_private_trans unfolding guarantees_def by blast

lemma aside_guarantees:
  assumes "aside intf w w'" "in_step intf w ds"
  shows "guarantees intf w ds w'"
  by (rule guaranteesI [OF aside_in_step [OF assms]]) (simp add: keeps_private_def asideD(4) [OF assms(1)])

text \<open>All threads promise each other the same: the list in step, and private cells left alone.\<close>

interpretation threads: rely_guarantee "in_step intf" "\<lambda>w ds w' ds'. keeps_private (w_clients w) ds (w_clients w') ds'" for intf
  by unfold_locales (simp add: keeps_private_def, blast intro: keeps_private_trans)

abbreviation guaranteed :: "string \<Rightarrow> (world \<Rightarrow> world \<Rightarrow> bool) \<Rightarrow> bool" where
  "guaranteed intf \<equiv> guar (in_step intf) (\<lambda>w ds w' ds'. keeps_private (w_clients w) ds (w_clients w') ds')"

lemma others_ok_guaranteed: "others_ok env intf \<longleftrightarrow> guaranteed intf (\<lambda>w w'. w' = e_others env w)"
proof -
  have "in_step intf (yield_clients env w) ds = in_step intf (e_others env w) ds" for w ds
    by (simp add: yield_clients_def in_step_def servers_printable_def balance_def)
  then show ?thesis
    by (simp add: others_ok_def guar_def yield_clients_def)
qed

text \<open>Pages and the ARP table are read beside the clients.\<close>

lemma page_aside: "send_http_page env io r title message w = Some (r', w') \<Longrightarrow> aside intf w w'"
  by (auto simp: send_http_page_def Let_def bind_eq_Some_conv split: option.splits)

lemma redirect_aside: "http_send_redirect env io r url msg w = Some (r', w') \<Longrightarrow> aside intf w w'"
  by (auto simp: http_send_redirect_def bind_eq_Some_conv intro: page_aside)

lemma redirect_to_auth_aside:
  assumes "http_send_redirect_to_auth env io r frag msg w = Some (r', w')"
  shows "aside intf w w'"
proof -
  obtain server where "get_auth_server (w_config w) = Some server"
    using assms by (auto simp: http_send_redirect_to_auth_def bind_eq_Some_conv)
  with assms show ?thesis
    by (cases "authserv_use_ssl server = 0") (auto simp: http_send_redirect_to_auth_def intro: redirect_aside)
qed

lemma arp_get_aside: "arp_get env ip w = (mac, w') \<Longrightarrow> aside intf w w'"
  by (auto simp: arp_get_def Let_def split: option.splits)

lemmas page_asides = page_aside redirect_aside redirect_to_auth_aside

lemma in_step_served [simp]: "in_step intf (w\<lparr>w_served_this_session := n\<rparr>) ds = in_step intf w ds"
  by (simp add: in_step_def servers_printable_def balance_def)

lemma page_guarantees:
  assumes "in_step intf w1 ds1" "keeps_private (w_clients w) ds (w_clients w1) ds1" "aside intf w1 w2"
  shows "guarantees intf w ds w2"
  by (rule guarantees_trans [OF assms(1,2) aside_guarantees [OF assms(3,1)]])

lemma served_guarantees:
  assumes "in_step intf w1 ds1" "keeps_private (w_clients w) ds (w_clients w1) ds1"
    "aside intf (w1\<lparr>w_served_this_session := n\<rparr>) w2"
  shows "guarantees intf w ds w2"
  by (rule page_guarantees [OF _ _ assms(3)]) (use assms(1,2) in simp_all)

section \<open>Logging in\<close>

lemma state_private:
  assumes "\<forall>b. b \<noteq> a \<longrightarrow> load (heap s') b = load (heap s) b" "(a, d) \<in> set ds" "fst ` set ds' = fst ` set ds"
  shows "keeps_private s ds s' ds'"
  using assms by (force simp: keeps_private_def)

lemma verdict_login_guarantees:
  assumes w: "in_step intf w ds" "(a, d) \<in> set ds" and run: "auth_verdict env io authcode a token r w = Some (r', w')"
  shows "guarantees intf w ds w'"
proof -
  obtain rc wd where wd: "fw_deny env a w = Some (rc, wd)" "in_step intf wd (set_state a FW_MARK_NONE ds)"
    "\<forall>b. b \<noteq> a \<longrightarrow> load (heap (w_clients wd)) b = load (heap (w_clients w)) b"
    using deny_in_step [OF w] by blast
  have wa: "\<exists>rc w1. fw_allow env a tag w = Some (rc, w1) \<and> in_step intf w1 (set_state a tag ds) \<and>
      keeps_private (w_clients w) ds (w_clients w1) (set_state a tag ds)" if "tag \<noteq> FW_MARK_NONE" for tag
    using allow_in_step [OF w that, of env] state_private [OF _ w(2) fst_set_state] by metis
  have "in_step intf w ds \<and> keeps_private (w_clients w) ds (w_clients w) ds"
    using w(1) by (simp add: keeps_private_def)
  then show ?thesis
    using run wd(1) page_guarantees [OF wd(2) state_private [OF wd(3) w(2) fst_set_state]]
      wa [of FW_MARK_PROBATION] wa [of FW_MARK_KNOWN]
    unfolding auth_verdict_def
    by (auto simp: bind_eq_Some_conv FW_MARK_PROBATION_def FW_MARK_KNOWN_def FW_MARK_NONE_def split: if_splits
        intro: page_guarantees served_guarantees page_asides)
qed

text \<open>A private copy of a client, as \<open>client_dup\<close> makes it.\<close>

lemma dup_in_step:
  assumes "in_step intf w ds" "(a, d) \<in> set ds"
  shows "\<exists>b s c. client_dup (Some a) (w_clients w) = Some (Some b, s) \<and> in_step intf (with_clients s w) ds \<and>
    b \<notin> fst ` set ds \<and> load (heap s) b = Some c \<and> valid_client c \<and> c_next c = None \<and>
    (\<forall>x. load (heap (w_clients w)) x \<noteq> None \<longrightarrow> x \<noteq> b \<and> load (heap s) x = load (heap (w_clients w)) x)"
proof -
  note st = in_stepD [OF assms(1)]
  obtain c where c: "load (heap (w_clients w)) a = Some c" "cdata c = d"
    using listed_client [OF st(3) assms(2)] .
  then have "valid_client c"
    using valid_mem [OF st(7) assms(2)] by (auto simp: valid_client_def)
  then obtain b s where s: "client_dup (Some a) (w_clients w) = Some (Some b, s)" "load (heap (w_clients w)) b = None"
    "load (heap s) = (load (heap (w_clients w)))(b \<mapsto> dup_data c)" "firstclient s = firstclient (w_clients w)"
    using client_dup_spec [OF c(1)] by blast
  have b: "b \<notin> fst ` set ds"
    using s(2) dseg_allocated [OF st(3) [unfolded clist_def]] by blast
  have "clist s ds"
    unfolding clist_def s(4) by (rule dseg_cong [OF st(3) [unfolded clist_def]]) (use b s(3) in auto)
  then have "in_step intf (with_clients s w) ds"
    using st by (simp add: in_step_def servers_printable_def)
  moreover have "load (heap s) b = Some (dup_data c)" "valid_client (dup_data c)" "c_next (dup_data c) = None"
    using s(3) \<open>valid_client c\<close> by (simp_all add: dup_data_def valid_client_def)
  moreover have "\<forall>x. load (heap (w_clients w)) x \<noteq> None \<longrightarrow> x \<noteq> b \<and> load (heap s) x = load (heap (w_clients w)) x"
    using s(2,3) by auto
  ultimately show ?thesis
    using s(1) b by blast
qed

lemma request_aside:
  assumes "resolves_printable env" "in_step intf w ds" "auth_server_request env version kind ip mac token k w = Some (rc, w')"
  shows "aside intf w w'"
proof (cases "auth_servers (w_config w) = []")
  case True
  then have False
    using assms(3) by (auto simp: auth_server_request_def connect_auth_server_def get_auth_server_def bind_eq_Some_conv)
  then show ?thesis ..
next
  case False
  then show ?thesis
    using auth_server_request_spec [OF assms(1) in_stepD(1,2) [OF assms(2)] False, of version kind ip mac token k] assms(3) by auto
qed

text \<open>Giving up the lock with a private copy, and dropping the copy afterwards.\<close>

lemma copy_survives:
  assumes "others_ok env intf" "in_step intf w ds" "b \<notin> fst ` set ds" "load (heap (w_clients w)) b = Some c" "c_next c = None"
  defines "w3 \<equiv> yield_clients env w"
  shows "\<exists>ds3 s4. in_step intf w3 ds3 \<and> load (heap (w_clients w3)) b = Some c \<and>
    client_list_destroy (Some b) (w_clients w3) = Some s4 \<and> in_step intf (with_clients s4 w3) ds3 \<and>
    (\<forall>x. x \<notin> fst ` set ds \<longrightarrow> x \<noteq> b \<longrightarrow> load (heap (w_clients w)) x \<noteq> None \<longrightarrow>
       x \<notin> fst ` set ds3 \<and> load (heap s4) x = load (heap (w_clients w)) x)"
proof -
  obtain ds3 where y: "in_step intf w3 ds3" "keeps_private (w_clients w) ds (w_clients w3) ds3"
    using assms(1,2) unfolding others_ok_def w3_def by blast
  have b: "b \<notin> fst ` set ds3" "load (heap (w_clients w3)) b = Some c"
    using y(2) assms(3,4) unfolding keeps_private_def by simp_all
  have "dseg (w_clients w3) (Some b) [(b, cdata c)]"
    using b(2) assms(5) by simp
  from drop_worklist [OF y(1) this] b(1) obtain s4 where
    "client_list_destroy (Some b) (w_clients w3) = Some s4" "in_step intf (with_clients s4 w3) ds3"
    "\<forall>x. x \<noteq> b \<longrightarrow> load (heap s4) x = load (heap (w_clients w3)) x"
    by auto
  then show ?thesis
    using y b(2) by (intro exI [of _ ds3] exI [of _ s4]) (simp add: keeps_private_def)
qed

lemma token_in_step:
  assumes "in_step intf w ds" "(a, d) \<in> set ds"
  shows "\<exists>s. modify a (\<lambda>d. d\<lparr>c_token := Some token\<rparr>) (w_clients w) = Some s \<and>
    (\<exists>ds' d'. in_step intf (with_clients s w) ds' \<and> (a, d') \<in> set ds' \<and> keeps_private (w_clients w) ds s ds')"
proof -
  let ?f = "\<lambda>d. d\<lparr>c_token := Some token\<rparr>"
  let ?ds = "map (\<lambda>(b, d). (b, if b = a then ?f d else d)) ds"
  obtain s where s: "modify a ?f (w_clients w) = Some s" "in_step intf (with_clients s w) ?ds"
    "\<forall>b. b \<noteq> a \<longrightarrow> load (heap s) b = load (heap (w_clients w)) b"
    using modify_in_step [OF assms, of ?f] by (auto simp: same_key_def)
  have "(a, ?f d) \<in> set ?ds"
    using assms(2) by force
  moreover have "fst ` set ?ds = fst ` set ds"
    by force
  ultimately show ?thesis
    using s state_private [OF s(3) assms(2)] by blast
qed

lemma token_verdict_guarantees:
  assumes w: "in_step intf w ds" "(a, d) \<in> set ds" and s4: "w_clients w = s4"
    and run: "(do {
       d \<leftarrow> load (heap s4) a;
       old \<leftarrow> c_token d;
       s5 \<leftarrow> (if token \<noteq> old then modify a (\<lambda>d. d\<lparr>c_token := Some token\<rparr>) s4 else Some s4);
       auth_verdict env io authcode a token r (with_clients s5 w)
     }) = Some (r', w')"
  shows "guarantees intf w ds w'"
proof -
  obtain s ds' d' where s: "modify a (\<lambda>d. d\<lparr>c_token := Some token\<rparr>) (w_clients w) = Some s"
    "in_step intf (with_clients s w) ds'" "(a, d') \<in> set ds'" "keeps_private (w_clients w) ds s ds'"
    using token_in_step [OF w] by blast
  have same: "with_clients (w_clients w) w = w"
    by (simp add: with_clients_def)
  consider "auth_verdict env io authcode a token r (with_clients s w) = Some (r', w')"
    | "auth_verdict env io authcode a token r w = Some (r', w')"
    using run s(1) same by (auto simp: bind_eq_Some_conv s4 split: if_splits)
  then show ?thesis
  proof cases
    case 1
    then show ?thesis
      using guarantees_trans [OF s(2) _ verdict_login_guarantees [OF s(2,3)]] s(4) by simp
  next
    case 2
    then show ?thesis
      by (rule verdict_login_guarantees [OF w])
  qed
qed

lemma authenticate_guarantees:
  assumes rely: "others_ok env intf" "resolves_printable env" and w: "in_step intf w ds"
    and run: "authenticate_client env io version r w = Some (r', w')"
  shows "guarantees intf w ds w'"
proof (cases "List.find (\<lambda>(a, d). c_ip d = Some (clientAddr r)) ds")
  case None
  then have "w' = w"
    using run find_by_ip_spec [OF in_stepD(3,7) [OF w]]
    by (simp add: authenticate_client_def client_dup_def with_clients_def)
  then show ?thesis
    using w aside_guarantees by simp
next
  case (Some x)
  obtain a d where x: "x = (a, d)" by (cases x)
  have p: "client_list_find_by_ip (clientAddr r) (w_clients w) = Some (Some a)" "(a, d) \<in> set ds"
    using Some x find_by_ip_spec [OF in_stepD(3,7) [OF w]] find_mem [OF Some] by simp_all
  obtain b s c where dup: "client_dup (Some a) (w_clients w) = Some (Some b, s)" "in_step intf (with_clients s w) ds"
    "b \<notin> fst ` set ds" "load (heap s) b = Some c" "c_next c = None"
    "\<forall>x. load (heap (w_clients w)) x \<noteq> None \<longrightarrow> x \<noteq> b \<and> load (heap s) x = load (heap (w_clients w)) x"
    using dup_in_step [OF w p(2)] by blast
  obtain ip mac token authcode w2 where req: "auth_server_request env version REQUEST_TYPE_LOGIN ip mac token zero_counters (with_clients s w) =
      Some (authcode, w2)" and rest: "(do {
          let w3 = yield_clients env w2;
          tmp \<leftarrow> client_list_find_by_client b (w_clients w3);
          s4 \<leftarrow> client_list_destroy (Some b) (w_clients w3);
          let w4 = with_clients s4 w3;
          (case tmp of
             None \<Rightarrow> Some (r, w4)
           | Some a \<Rightarrow> do {
               d \<leftarrow> load (heap s4) a;
               old \<leftarrow> c_token d;
               s5 \<leftarrow> (if token \<noteq> old then modify a (\<lambda>d. d\<lparr>c_token := Some token\<rparr>) s4 else Some s4);
               auth_verdict env io authcode a token r (with_clients s5 w4)
             })
        }) = Some (r', w')"
    using run p(1) dup(1,4) by (auto simp: authenticate_client_def bind_eq_Some_conv)
  have a2: "aside intf (with_clients s w) w2"
    by (rule request_aside [OF rely(2) dup(2) req])
  let ?w3 = "yield_clients env w2"
  obtain ds3 s4 where y: "in_step intf ?w3 ds3" "load (heap (w_clients ?w3)) b = Some c"
    "client_list_destroy (Some b) (w_clients ?w3) = Some s4" "in_step intf (with_clients s4 ?w3) ds3"
    "\<forall>x. x \<notin> fst ` set ds \<longrightarrow> x \<noteq> b \<longrightarrow> load (heap s) x \<noteq> None \<longrightarrow> x \<notin> fst ` set ds3 \<and> load (heap s4) x = load (heap s) x"
    using copy_survives [OF rely(1) aside_in_step [OF a2 dup(2)] dup(3) _ dup(5)] dup(4) asideD(4) [OF a2] by auto
  have keep: "keeps_private (w_clients w) ds s4 ds3"
    using y(5) dup(6) unfolding keeps_private_def by simp
  note find = find_by_client_spec [OF in_stepD(3) [OF y(1)] y(2)]
  show ?thesis
  proof (cases "List.find (\<lambda>(a, d). c_id d = c_id c) ds3")
    case None
    then have "w' = with_clients s4 ?w3"
      using rest find y(3) by (simp add: Let_def)
    then show ?thesis
      using guaranteesI [OF y(4)] keep by simp
  next
    case (Some x')
    obtain a' d' where x': "x' = (a', d')" by (cases x')
    then have mem: "(a', d') \<in> set ds3"
      using find_mem [OF Some] by simp
    have "guarantees intf (with_clients s4 ?w3) ds3 w'"
      by (rule token_verdict_guarantees [OF y(4) mem, of s4 token env io authcode r r']) (simp, use rest find y(3) Some x' in \<open>simp add: Let_def\<close>)
    then show ?thesis
      by (rule guarantees_trans [OF y(4), rotated]) (use keep in simp)
  qed
qed

text \<open>Rules of different addresses are different.\<close>

definition ip_text :: "string \<Rightarrow> bool" where
  "ip_text s \<longleftrightarrow> list_all (\<lambda>c. isdigit c \<or> c = CHR ''.'') s"

lemma ip_text_chars: "ip_text ip \<Longrightarrow> CHR ''$'' \<notin> set ip" "ip_text ip \<Longrightarrow> CHR '' '' \<notin> set ip" "ip_text ip \<Longrightarrow> no_percent ip"
  by (auto simp: ip_text_def list_all_iff isdigit_def no_percent_def code_def)

lemma replace_id_skip: "CHR ''$'' \<notin> set s \<Longrightarrow> replace_id i (s @ t) = s @ replace_id i t"
  by (induction s) auto

lemma space_inj: "CHR '' '' \<notin> set s \<Longrightarrow> CHR '' '' \<notin> set s' \<Longrightarrow> s @ CHR '' '' # t = s' @ CHR '' '' # t' \<Longrightarrow> s = s'"
  by (induction s arbitrary: s'; case_tac s') auto

lemma rule_texts:
  assumes "ip_text ip"
  shows "\<exists>t. out_rule intf ip mac tag = ''WD_'' @ take CHAIN_NAME_MAX_LEN intf @ ''_Outgoing -s '' @ ip @ CHR '' '' # t"
    and "\<exists>t. in_rule intf ip = ''WD_'' @ take CHAIN_NAME_MAX_LEN intf @ ''_Incoming -d '' @ ip @ CHR '' '' # t"
  using replace_id_skip [OF ip_text_chars(1) [OF assms]]
  by (simp_all add: out_rule_def in_rule_def CHAIN_OUTGOING_def CHAIN_INCOMING_def)

lemma rules_differ:
  assumes "ip_text ip" "ip_text ip'" "ip \<noteq> ip'" "x \<in># client_rules intf ip mac t"
  shows "x \<notin># client_rules intf ip' mac' u"
proof -
  note chars = ip_text_chars(2) [OF assms(1)] ip_text_chars(2) [OF assms(2)]
  obtain t1 t2 t3 t4 where
    "out_rule intf ip mac t = ''WD_'' @ take CHAIN_NAME_MAX_LEN intf @ ''_Outgoing -s '' @ ip @ CHR '' '' # t1"
    "in_rule intf ip = ''WD_'' @ take CHAIN_NAME_MAX_LEN intf @ ''_Incoming -d '' @ ip @ CHR '' '' # t2"
    "out_rule intf ip' mac' u = ''WD_'' @ take CHAIN_NAME_MAX_LEN intf @ ''_Outgoing -s '' @ ip' @ CHR '' '' # t3"
    "in_rule intf ip' = ''WD_'' @ take CHAIN_NAME_MAX_LEN intf @ ''_Incoming -d '' @ ip' @ CHR '' '' # t4"
    using rule_texts [OF assms(1)] rule_texts [OF assms(2)] by metis
  then show ?thesis
    using assms(3,4) space_inj [OF chars] by (auto simp: client_rules_def)
qed

text \<open>An address that no client of the list has.\<close>

definition new_address :: "string \<Rightarrow> (nat \<times> t_client) list \<Rightarrow> bool" where
  "new_address ip ds \<longleftrightarrow> ip_text ip \<and> list_all (\<lambda>(b, e). ip_text (the (c_ip e)) \<and> c_ip e \<noteq> Some ip) ds"

lemma add_in_step:
  assumes "in_step intf w ds" "new_address ip ds" "no_percent mac"
  shows "\<exists>a s d. client_list_add ip mac token now (w_clients w) = Some (a, s) \<and> in_step intf (with_clients s w) ((a, d) # ds) \<and>
    keeps_private (w_clients w) ds s ((a, d) # ds)"
proof -
  note st = in_stepD [OF assms(1)]
  let ?d = "new_client ip mac token now (client_id (w_clients w))"
  obtain a s where s: "client_list_add ip mac token now (w_clients w) = Some (a, s)" "clist s ((a, ?d) # ds)"
    "load (heap (w_clients w)) a = None" "\<forall>b. b \<noteq> a \<longrightarrow> load (heap s) b = load (heap (w_clients w)) b"
    using client_list_add_spec [OF st(3)] by blast
  have d: "valid_client ?d" "printable_client ?d" "data_rules intf ?d = {#}" "\<And>t. rules_at intf ?d t = client_rules intf ip mac t"
    using assms(2,3) ip_text_chars(3)
    by (auto simp: new_client_def valid_client_def printable_client_def data_rules_def rules_at_def zero_client_def
        FW_MARK_NONE_def new_address_def)
  have other: "x \<notin># rules_at intf e u"
    if "(b, e) \<in> set ds" "x \<in># client_rules intf ip mac t" for b e x t u
    using rules_differ [OF _ _ _ that(2), of "the (c_ip e)"] assms(2) that valid_mem [OF st(7) that(1)]
    by (auto simp: new_address_def list_all_iff rules_at_def valid_client_def)
  have "separate intf ((a, ?d) # ds)"
    unfolding separate_def using separateD [of intf ds] st(4) other d(4)
    by (auto simp: wf_clients_def)
  then have "in_step intf (with_clients s w) ((a, ?d) # ds)"
    using st s(2) d by (simp add: in_step_def wf_clients_def valid_clients_def servers_printable_def rules_of_def)
  moreover have "keeps_private (w_clients w) ds s ((a, ?d) # ds)"
    using s(3,4) by (auto simp: keeps_private_def) (metis option.distinct(1))
  ultimately show ?thesis
    using s(1) by blast
qed

text \<open>
  The client that asks for the login page is on the list, or its address is new. (Two clients with
  the same address and different MAC addresses would share the rule that accepts their traffic.)
\<close>

definition address_ok :: "env \<Rightarrow> string \<Rightarrow> world \<Rightarrow> (nat \<times> t_client) list \<Rightarrow> bool" where
  "address_ok env ip w ds \<longleftrightarrow>
     (case fst (arp_get env ip w) of
        None \<Rightarrow> True
      | Some mac \<Rightarrow>
          list_ex (\<lambda>(b, e). c_ip e = Some ip \<and> c_mac e = Some mac) ds \<or> new_address ip ds \<and> no_percent mac)"

lemma yield_guarantees:
  assumes "others_ok env intf" "in_step intf w ds"
  shows "\<exists>ds'. in_step intf (yield_clients env w) ds' \<and> keeps_private (w_clients w) ds (w_clients (yield_clients env w)) ds'"
  using assms unfolding others_ok_def by blast

lemma login_listed:
  assumes rely: "others_ok env intf" "resolves_printable env" and w1: "in_step intf w1 ds"
    and ok: "list_ex (\<lambda>(b, e). c_ip e = Some ip \<and> c_mac e = Some mac) ds \<or> new_address ip ds \<and> no_percent mac"
  shows "\<exists>p w2 ds2. client_list_find ip mac (w_clients w1) = Some p \<and>
    (case p of
       None \<Rightarrow> (let (now, w2) = get_time env w1 in do {
         (a, s) \<leftarrow> client_list_add ip mac token now (w_clients w2);
         Some (with_clients s w2)
       })
     | Some a \<Rightarrow> if logout then logout_client env version a w1 else Some w1) = Some w2 \<and>
    in_step intf w2 ds2 \<and> keeps_private (w_clients w1) ds (w_clients w2) ds2"
proof (cases "List.find (\<lambda>(a, d). c_ip d = Some ip \<and> c_mac d = Some mac) ds")
  case None
  then have "\<not> list_ex (\<lambda>(b, e). c_ip e = Some ip \<and> c_mac e = Some mac) ds"
    by (auto simp: find_None_iff list_ex_iff)
  with ok obtain a s d where s: "client_list_add ip mac token (e_time env (w_history w1)) (w_clients (did Time w1)) = Some (a, s)"
    "in_step intf (with_clients s (did Time w1)) ((a, d) # ds)" "keeps_private (w_clients w1) ds s ((a, d) # ds)"
    using add_in_step [OF aside_in_step [OF aside_did w1, of Time], of ip mac token "e_time env (w_history w1)"] by auto
  then show ?thesis
    using None find_spec [OF in_stepD(3,7) [OF w1], of ip mac]
    by (intro exI [of _ None] exI [of _ "with_clients s (did Time w1)"] exI [of _ "(a, d) # ds"]) (simp add: get_time_def)
next
  case (Some x)
  obtain a d where x: "x = (a, d)" by (cases x)
  then have mem: "(a, d) \<in> set ds" and find: "client_list_find ip mac (w_clients w1) = Some (Some a)"
    using find_mem [OF Some] find_spec [OF in_stepD(3,7) [OF w1], of ip mac] Some by simp_all
  obtain w2 ds2 where "logout_client env version a w1 = Some w2" "in_step intf w2 ds2" "keeps_private (w_clients w1) ds (w_clients w2) ds2"
    using logout_in_step [OF rely w1 mem] by blast
  moreover have "keeps_private (w_clients w1) ds (w_clients w1) ds"
    by (simp add: keeps_private_def)
  ultimately show ?thesis
    using find w1 by (intro exI [of _ "Some a"]) auto
qed

lemma login_guarantees:
  assumes rely: "others_ok env intf" "resolves_printable env" and w: "in_step intf w ds" and addr: "address_ok env (clientAddr r) w ds"
    and run: "http_callback_auth env io version r w = Some (r', w')"
  shows "guarantees intf w ds w'"
proof (cases "httpdGetVariableByName r ''token''")
  case None
  then show ?thesis
    using run page_aside aside_guarantees [OF _ w] by (fastforce simp: http_callback_auth_def)
next
  case (Some token)
  obtain mac w1 where arp: "arp_get env (clientAddr r) w = (mac, w1)"
    by fastforce
  have a1: "aside intf w w1" "w_clients w1 = w_clients w"
    using arp_get_aside [OF arp] asideD(4) by blast+
  note in1 = aside_in_step [OF a1(1) w]
  show ?thesis
  proof (cases mac)
    case None
    then have "aside intf w1 w'"
      using run Some arp by (auto simp: http_callback_auth_def intro: page_aside)
    then show ?thesis
      using aside_guarantees [OF aside_trans [OF a1(1)] w] by blast
  next
    case m: (Some mac')
    let ?logout = "httpdGetVariableByName r ''logout'' \<noteq> None"
    have ok: "list_ex (\<lambda>(b, e). c_ip e = Some (clientAddr r) \<and> c_mac e = Some mac') ds \<or>
        new_address (clientAddr r) ds \<and> no_percent mac'"
      using addr arp m by (simp add: address_ok_def)
    obtain p w2 ds2 where find: "client_list_find (clientAddr r) mac' (w_clients w1) = Some p"
      and listed: "(case p of
         None \<Rightarrow> (let (now, w2) = get_time env w1 in do {
           (a, s) \<leftarrow> client_list_add (clientAddr r) mac' (v_value token) now (w_clients w2);
           Some (with_clients s w2)
         })
       | Some a \<Rightarrow> if ?logout then logout_client env version a w1 else Some w1) = Some w2"
      and w2: "in_step intf w2 ds2" "keeps_private (w_clients w) ds (w_clients w2) ds2"
      using login_listed [OF rely in1 ok, of "v_value token" ?logout version] unfolding a1(2) by blast
    have r2: "(if \<not> ?logout then authenticate_client env io version r (yield_clients env w2) else Some (r, w2)) = Some (r', w')"
      using run unfolding http_callback_auth_def Some arp m option.case prod.case Let_def find bind.simps
        listed [unfolded Let_def] .
    show ?thesis
    proof (cases ?logout)
      case True
      then show ?thesis
        using r2 guaranteesI [OF w2] by simp
    next
      case False
      obtain ds3 where y: "in_step intf (yield_clients env w2) ds3" "keeps_private (w_clients w2) ds2 (w_clients (yield_clients env w2)) ds3"
        using yield_guarantees [OF rely(1) w2(1)] by blast
      have "guarantees intf (yield_clients env w2) ds3 w'"
        by (rule authenticate_guarantees [OF rely y(1)]) (use r2 False in simp)
      then show ?thesis
        using guarantees_trans [OF y(1) keeps_private_trans [OF w2(2) y(2)]] by blast
    qed
  qed
qed

section \<open>The other pages\<close>

lemma insert_gateway_id_Some:
  "iptables_insert_gateway_id c s = Some cmd \<Longrightarrow> gw_interface c = Some intf \<Longrightarrow>
   cmd = replace_id (take CHAIN_NAME_MAX_LEN intf) s"
  by (auto simp: iptables_insert_gateway_id_def replace_id_none split: if_splits)

lemma aside_exec: "other_commands intf [cmd] \<Longrightarrow> aside intf w (did (Exec cmd q) w)"
  unfolding aside_def
  by (intro conjI exI [of _ 0] exI [of _ "[cmd]"] exI [of _ "auth_servers (w_config w)"])
    (simp_all add: server_ptrs_def servers_printable_def)

lemma do_command_aside:
  assumes "iptables_do_command env cmd w = Some (rc, w')" "gw_interface (w_config w) = Some intf"
    "cmd = ''-t filter '' @ s \<or> cmd = ''-t nat '' @ s"
  shows "aside intf w w'" "w_config w' = w_config w"
proof -
  have "w' = did (Exec (shell_of intf cmd) (w_fw_quiet w)) w"
    using assms(1,2) insert_gateway_id_Some [of "w_config w" "''iptables '' @ cmd" _ intf]
    by (auto simp: iptables_do_command_def bind_eq_Some_conv execute_def shell_of_def)
  moreover have "other_commands intf [shell_of intf cmd]"
    using assms(3) by (auto simp: other_commands_def)
  ultimately show "aside intf w w'" "w_config w' = w_config w"
    by (simp_all add: aside_exec)
qed

lemma allow_host_aside:
  assumes "fw_allow_host env host w = Some (rc, w')" "gw_interface (w_config w) = Some intf"
  shows "aside intf w w'"
proof -
  let ?w0 = "w\<lparr>w_fw_quiet := 0\<rparr>"
  obtain rc1 w1 where w1: "iptables_do_command env (host_command ''nat'' ''-A'' host) ?w0 = Some (rc1, w1)"
    "iptables_do_command env (host_command ''filter'' ''-A'' host) w1 = Some (rc, w')"
    using assms(1) by (auto simp: fw_allow_host_def iptables_fw_access_host_def bind_eq_Some_conv)
  have cmds: "\<exists>s. host_command ''nat'' ''-A'' host = ''-t nat '' @ s" "\<exists>s. host_command ''filter'' ''-A'' host = ''-t filter '' @ s"
    by (simp_all add: host_command_def)
  have a1: "aside intf ?w0 w1" "w_config w1 = w_config w"
    using do_command_aside [OF w1(1)] cmds(1) assms(2) by auto
  have a2: "aside intf w1 w'"
    using do_command_aside(1) [OF w1(2)] cmds(2) a1(2) assms(2) by auto
  have "aside intf w ?w0"
    by (rule aside_same) simp_all
  then show ?thesis
    using aside_trans a1(1) a2 by blast
qed

lemma not_found_guarantees:
  assumes "in_step intf w ds" "http_callback_404 env io r w = Some (r', w')"
  shows "guarantees intf w ds w'"
proof -
  obtain mac w1 where arp: "arp_get env (clientAddr r) w = (mac, w1)"
    by fastforce
  have a1: "aside intf w w1"
    by (rule arp_get_aside [OF arp])
  then have "gw_interface (w_config w1) = Some intf"
    using asideD(1) in_stepD(1) [OF assms(1)] by metis
  then have "aside intf w w'"
    using assms(2) arp a1
    by (auto simp: http_callback_404_def Let_def bind_eq_Some_conv split: if_splits option.splits
        intro: page_asides aside_trans [OF a1] aside_trans [OF aside_trans [OF a1 allow_host_aside]])
  then show ?thesis
    by (rule aside_guarantees [OF _ assms(1)])
qed

lemma with_clients_twice [simp]: "with_clients s (with_clients s' w) = with_clients s w"
  by (simp add: with_clients_def)

lemma status_guarantees:
  assumes "in_step intf w ds" "get_status_text env version w = Some (status, w')"
  shows "guarantees intf w ds w'"
proof -
  let ?w1 = "did Time w"
  have in1: "in_step intf ?w1 ds"
    using aside_in_step [OF aside_did assms(1)] by simp
  obtain p n s es where dup: "client_list_dup (w_clients ?w1) = Some (p, n, s)" "in_step intf (with_clients s ?w1) ds" "dseg s p es"
    "fst ` set es \<inter> fst ` set ds = {}"
    "\<forall>b. load (heap (w_clients ?w1)) b \<noteq> None \<longrightarrow> b \<notin> fst ` set es \<and> load (heap s) b = load (heap (w_clients ?w1)) b"
    using take_worklist [OF in1] by blast
  obtain s1 where s1: "client_list_destroy p s = Some s1" "in_step intf (with_clients s1 ?w1) ds"
    "\<forall>b. b \<notin> fst ` set es \<longrightarrow> load (heap s1) b = load (heap s) b"
    using drop_worklist [OF dup(2) _ dup(4), of p] dup(3) by auto
  have "w' = with_clients s1 ?w1"
    using assms(2) dup(1) s1(1) by (auto simp: get_status_text_def get_time_def bind_eq_Some_conv Let_def)
  moreover have "keeps_private (w_clients w) ds s1 ds"
    using dup(5) s1(3) by (auto simp: keeps_private_def)
  ultimately show ?thesis
    using guaranteesI [OF s1(2)] by simp
qed

lemma disconnect_guarantees:
  assumes rely: "others_ok env intf" "resolves_printable env" and w: "in_step intf w ds"
    and run: "http_callback_disconnect env io version r w = Some (r', w')"
  shows "guarantees intf w ds w'"
proof -
  have find: "client_list_find_by_mac mac (w_clients w) = Some p \<Longrightarrow> p = Some a \<Longrightarrow> \<exists>d. (a, d) \<in> set ds" for mac p a
    using find_by_mac_spec [OF in_stepD(3,7) [OF w]] by (auto dest!: find_mem)
  have "guarantees intf w ds w" 
    using w by (intro guaranteesI [of _ _ ds]) (simp_all add: keeps_private_def)
  moreover have "guarantees intf w ds w2" if "(a, d) \<in> set ds" "logout_client env version a w = Some w2" for a d w2
    using logout_in_step [OF rely w that(1), of version] that(2) by (auto intro: guaranteesI)
  ultimately show ?thesis
    using run find
    by (auto simp: http_callback_disconnect_def bind_eq_Some_conv split: if_splits option.splits) blast+
qed

lemma logout_guarantees:
  assumes "others_ok env intf" "resolves_printable env" "in_step intf w ds" "(a, d) \<in> set ds"
    and "logout_client env version a w = Some w'"
  shows "guarantees intf w ds w'"
  using logout_in_step [OF assms(1-4), of version] assms(5) by (auto intro: guaranteesI)

lemma reset_guarantees:
  assumes rely: "others_ok env intf" "resolves_printable env" and w: "in_step intf w ds"
    and run: "wdctl_reset env version arg ws w = Some (out, w')"
  shows "guarantees intf w ds w'"
proof -
  note specs = find_by_ip_spec [OF in_stepD(3,7) [OF w]] find_by_mac_spec [OF in_stepD(3,7) [OF w]]
  have refl: "guarantees intf w ds w"
    using w by (intro guaranteesI [of _ _ ds]) (simp_all add: keeps_private_def)
  have "w' = w \<or> (\<exists>a d. (a, d) \<in> set ds \<and> logout_client env version a w = Some w')"
    using run specs
    by (auto simp: wdctl_reset_def bind_eq_Some_conv split: option.splits dest!: find_mem)
  then show ?thesis
    using refl logout_guarantees [OF rely w] by blast
qed

lemma control_guarantees:
  assumes rely: "others_ok env intf" "resolves_printable env" and w: "in_step intf w ds"
    and run: "thread_wdctl_handler env version calls input ws w = Some (out, act, w')"
  shows "guarantees intf w ds w'"
proof -
  have refl: "guarantees intf w ds w"
    using w by (intro guaranteesI [of _ _ ds]) (simp_all add: keeps_private_def)
  show ?thesis
    using run refl status_guarantees [OF w] reset_guarantees [OF rely w]
    by (auto simp: thread_wdctl_handler_def wdctl_status_def bind_eq_Some_conv Let_def split: if_splits)
qed

section \<open>All threads together\<close>

lemma down_in_step:
  assumes "in_step intf w ds"
  shows "set_authdown env w = Some w' \<Longrightarrow> in_step intf w' ds \<and> w_clients w' = w_clients w"
    and "fw_set_authup env w = Some (rc, w') \<Longrightarrow> in_step intf (w'\<lparr>w_authdown := False\<rparr>) ds \<and> w_clients w' = w_clients w"
proof -
  note st = in_stepD [OF assms]
  have upd: "in_step intf (w\<lparr>w_authdown := b\<rparr>) ds" "in_step intf (did (Exec (down_mark intf) q) w\<lparr>w_authdown := b\<rparr>) ds"
    "in_step intf (did (Exec (down_flush intf) q) w\<lparr>w_authdown := b\<rparr>) ds" for b q
    using st by (simp_all add: in_step_def servers_printable_def balance_def)
  show "set_authdown env w = Some w' \<Longrightarrow> in_step intf w' ds \<and> w_clients w' = w_clients w"
    using down_commands(1) [OF st(1), of env] assms upd(1,2)
    by (cases "got_authdown_ruleset (w_config w)")
      (auto simp: set_authdown_def execute_def fw_set_authdown_def iptables_fw_auth_unreachable_def split: if_splits)
  show "fw_set_authup env w = Some (rc, w') \<Longrightarrow> in_step intf (w'\<lparr>w_authdown := False\<rparr>) ds \<and> w_clients w' = w_clients w"
    using down_commands(2) [OF st(1), of env] upd(1,3)
    by (cases "got_authdown_ruleset (w_config w)")
      (auto simp: execute_def fw_set_authup_def iptables_fw_auth_reachable_def)
qed

lemma ping_guarantees:
  assumes "resolves_printable env" and w: "in_step intf w ds" and run: "ping env version avg w = Some w'"
  shows "guarantees intf w ds w'"
proof -
  obtain fd w1 where c: "connect_auth_server env w = Some (fd, w1)" "aside intf w w1"
    using connect_aside [OF assms(1) in_stepD(1,2) [OF w]] by blast
  have "\<exists>w3. aside intf w w3 \<and> (w' = w3 \<or> set_authdown env w3 = Some w' \<or>
      (\<exists>rc w4. fw_set_authup env w3 = Some (rc, w4) \<and> w' = w4\<lparr>w_authdown := False\<rparr>))"
  proof (cases "fd = -1")
    case True
    then show ?thesis
      using run c by (auto simp: ping_def)
  next
    case False
    obtain res w3 where "aside intf w w3" "ping env version avg w = (case res of
          None \<Rightarrow> set_authdown env w3
        | Some s \<Rightarrow>
            if strstr s ''Pong'' = None then set_authdown env w3
            else if w_authdown w3 then map_option (\<lambda>(rc, w4). w4\<lparr>w_authdown := False\<rparr>) (fw_set_authup env w3)
            else Some w3)"
      using ping_answer [OF c False] by blast
    with run show ?thesis
      by (intro exI [of _ w3]) (auto split: option.splits if_splits)
  qed
  then obtain w3 where w3: "aside intf w w3" and out: "w' = w3 \<or> set_authdown env w3 = Some w' \<or>
      (\<exists>rc w4. fw_set_authup env w3 = Some (rc, w4) \<and> w' = w4\<lparr>w_authdown := False\<rparr>)"
    by blast
  note in3 = aside_in_step [OF w3 w]
  have "in_step intf w' ds \<and> w_clients w' = w_clients w3"
    using out in3 down_in_step [OF in3, of env] by auto
  then show ?thesis
    using asideD(4) [OF w3] by (intro guaranteesI [of _ _ ds]) (simp_all add: keeps_private_def)
qed

lemma ping_returns:
  assumes "resolves_printable env" and w: "in_step intf w ds"
  shows "\<exists>w'. ping env version avg w = Some w'"
proof -
  have sets: "\<exists>w'. set_authdown env v = Some w'" "\<exists>x. fw_set_authup env v = Some x" if "gw_interface (w_config v) = Some intf" for v
    using down_commands [OF that, of env]
    by (cases "got_authdown_ruleset (w_config v)";
        auto simp: set_authdown_def fw_set_authdown_def fw_set_authup_def iptables_fw_auth_unreachable_def
          iptables_fw_auth_reachable_def execute_def)+
  obtain fd w1 where c: "connect_auth_server env w = Some (fd, w1)" "aside intf w w1"
    using connect_aside [OF assms(1) in_stepD(1,2) [OF w]] by blast
  show ?thesis
  proof (cases "fd = -1")
    case True
    then show ?thesis
      using c sets(1) [of w1] asideD(1) [OF c(2)] in_stepD(1) [OF w] by (simp add: ping_def)
  next
    case False
    obtain res w3 where w3: "aside intf w w3" and p: "ping env version avg w = (case res of
          None \<Rightarrow> set_authdown env w3
        | Some s \<Rightarrow>
            if strstr s ''Pong'' = None then set_authdown env w3
            else if w_authdown w3 then map_option (\<lambda>(rc, w4). w4\<lparr>w_authdown := False\<rparr>) (fw_set_authup env w3)
            else Some w3)"
      using ping_answer [OF c False] by blast
    have "gw_interface (w_config w3) = Some intf"
      using asideD(1) [OF w3] in_stepD(1) [OF w] by simp
    with sets [of w3] show ?thesis
      unfolding p by (cases res) auto
  qed
qed

text \<open>
  What the threads of the gateway do, one run of a thread's body at a time: a round of the
  synchronisation, a heartbeat, a command on the control socket, a page. What other threads do
  within such a run, where it gives up the lock, is the argument \<open>env\<close>. A client that asks for the
  login page does not have the address of another client on the list.
\<close>

inductive thread_step :: "env \<Rightarrow> io \<Rightarrow> string \<Rightarrow> (string option \<Rightarrow> string) \<Rightarrow> world \<Rightarrow> world \<Rightarrow> bool"
  for env :: env and io :: io and version :: string and avg :: "string option \<Rightarrow> string" where
  Synchronise: "fw_sync_with_authserver env version w = Some w' \<Longrightarrow> thread_step env io version avg w w'"
| Heartbeat: "ping env version avg w = Some w' \<Longrightarrow> thread_step env io version avg w w'"
| Control: "thread_wdctl_handler env version calls input ws w = Some (out, act, w') \<Longrightarrow> thread_step env io version avg w w'"
| Page: "call_handler env io version f error server r w = Some (server', r', w') \<Longrightarrow>
    (f = Authenticate \<longrightarrow> (\<forall>ds. clist (w_clients w) ds \<longrightarrow> address_ok env (clientAddr r) w ds)) \<Longrightarrow>
    thread_step env io version avg w w'"

lemma page_step_guarantees:
  assumes rely: "others_ok env intf" "resolves_printable env" and w: "in_step intf w ds"
    and run: "call_handler env io version f error server r w = Some (server', r', w')"
    and addr: "f = Authenticate \<longrightarrow> address_ok env (clientAddr r) w ds"
  shows "guarantees intf w ds w'"
proof -
  have refl: "guarantees intf w ds w"
    using w by (intro guaranteesI [of _ _ ds]) (simp_all add: keeps_private_def)
  have status: "guarantees intf w ds w2" if "get_status_text env version w = Some (status, w1)" "aside intf w1 w2" for status w1 w2
    using status_guarantees [OF w that(1)] page_guarantees [OF _ _ that(2)] unfolding guarantees_def by blast
  show ?thesis
  proof (cases f)
    case Status
    then show ?thesis
      using run refl
      by (auto simp: call_handler_def http_callback_status_def bind_eq_Some_conv split: if_splits intro: status page_aside)
  qed (use run addr login_guarantees [OF rely w] disconnect_guarantees [OF rely w] not_found_guarantees [OF w]
       in \<open>auto simp: call_handler_def http_callback_wifidog_def http_callback_about_def intro: aside_guarantees [OF page_aside w]\<close>)
qed

lemma thread_step_guarantees:
  assumes "others_ok env intf" "resolves_printable env" "listings_known env intf" "in_step intf w ds"
    and "thread_step env io version avg w w'"
  shows "guarantees intf w ds w'"
  using assms(5)
proof cases
  case Synchronise
  then show ?thesis
    using sync_in_step [OF assms(1,2,4,3), of version] guaranteesI by auto
next
  case Heartbeat
  then show ?thesis
    by (rule ping_guarantees [OF assms(2,4)])
next
  case (Control calls input ws out act)
  then show ?thesis
    by (rule control_guarantees [OF assms(1,2,4)])
next
  case (Page f error server r server' r')
  then show ?thesis
    using page_step_guarantees [OF assms(1,2,4)] in_stepD(3) [OF assms(4)] by blast
qed

lemma all_threads_guaranteed:
  assumes "others_ok env intf" "resolves_printable env" "listings_known env intf"
  shows "guaranteed intf (thread_step env io version avg)"
  using thread_step_guarantees [OF assms] by (intro guarI) (simp add: guarantees_def)


definition empty_io :: io where
  "empty_io = \<lparr>io_now = 0, io_stat = (\<lambda>path. None), io_file = (\<lambda>path. None)\<rparr>"


section \<open>Threads that interrupt each other\<close>

text \<open>
  What other threads do while a lock is given up, in a gateway that runs threads of these kinds
  only: nothing, or any number of their runs, within which they may be interrupted in the same
  way. All of them talk to the same outside \<open>env\<close>.
\<close>

inductive interrupts :: "env \<Rightarrow> io \<Rightarrow> string \<Rightarrow> (string option \<Rightarrow> string) \<Rightarrow> (world \<Rightarrow> world) \<Rightarrow> bool"
  for env :: env and io :: io and version :: string and avg :: "string option \<Rightarrow> string" where
  Alone: "interrupts env io version avg (\<lambda>w. w)"
| Runs: "\<forall>w. \<exists>deeper. interrupts env io version avg deeper \<and>
      (thread_step (env\<lparr>e_others := deeper\<rparr>) io version avg)\<^sup>*\<^sup>* w (others w) \<Longrightarrow>
    interrupts env io version avg others"

lemma outside_others [simp]:
  "resolves_printable (env\<lparr>e_others := f\<rparr>) = resolves_printable env"
  "listings_known (env\<lparr>e_others := f\<rparr>) intf = listings_known env intf"
  by (simp_all add: resolves_printable_def listings_known_def)

lemma interrupts_ok:
  assumes "resolves_printable env" "listings_known env intf" "interrupts env io version avg others"
  shows "others_ok (env\<lparr>e_others := others\<rparr>) intf"
  using assms(3)
proof induction
  case Alone
  show ?case
    by (rule idle_others) simp
next
  case (Runs others)
  show ?case
    unfolding others_ok_guaranteed
  proof
    fix w ds w'
    assume "in_step intf w ds" and w': "w' = e_others (env\<lparr>e_others := others\<rparr>) w"
    from Runs obtain deeper where d: "others_ok (env\<lparr>e_others := deeper\<rparr>) intf"
      "(thread_step (env\<lparr>e_others := deeper\<rparr>) io version avg)\<^sup>*\<^sup>* w (others w)"
      by blast
    have "guaranteed intf (thread_step (env\<lparr>e_others := deeper\<rparr>) io version avg)\<^sup>*\<^sup>*"
      by (rule threads.guar_runs [OF all_threads_guaranteed [OF d(1)]]) (use assms(1,2) in simp_all)
    from this \<open>in_step intf w ds\<close> d(2)
    show "\<exists>ds'. in_step intf w' ds' \<and> keeps_private (w_clients w) ds (w_clients w') ds'"
      unfolding w' by (auto elim: guarE)
  qed
qed


text \<open>A heartbeat that comes between whenever the lock is given up.\<close>

definition heartbeat_between :: env where
  "heartbeat_between = no_traffic\<lparr>e_others := (\<lambda>w.
     case ping no_traffic ''1.3.0'' (\<lambda>loadavg. ''0.10'') w of None \<Rightarrow> w | Some w' \<Rightarrow> w')\<rparr>"

lemma heartbeat_between_ok:
  "interrupts heartbeat_between empty_io ''1.3.0'' (\<lambda>loadavg. ''0.10'') (e_others heartbeat_between)"
  "resolves_printable heartbeat_between" "listings_known heartbeat_between ''br0''"
proof -
  let ?avg = "\<lambda>loadavg. ''0.10''"
  have alone: "heartbeat_between\<lparr>e_others := \<lambda>w. w\<rparr> = no_traffic"
    by (simp add: heartbeat_between_def no_traffic_def kind_env_def)
  have "(thread_step no_traffic empty_io ''1.3.0'' ?avg)\<^sup>*\<^sup>* w (e_others heartbeat_between w)" for w
    by (cases "ping no_traffic ''1.3.0'' ?avg w") (auto simp: heartbeat_between_def intro: thread_step.Heartbeat)
  then show "interrupts heartbeat_between empty_io ''1.3.0'' ?avg (e_others heartbeat_between)"
    using interrupts.Alone [of heartbeat_between] alone by (metis interrupts.Runs)
  show "resolves_printable heartbeat_between" "listings_known heartbeat_between ''br0''"
    using no_traffic_ok by (simp_all add: heartbeat_between_def)
qed


section \<open>The whitelist\<close>

lemma strstr_occurs: "strstr s n \<noteq> None \<Longrightarrow> \<exists>p q. s = p @ n @ q"
  by (simp add: strstr_None)

lemma whitelisted_domain:
  assumes "whitelisted host rule = Some msg"
  shows "if msg = ''allow domain'' then host = fr_mask rule
    else \<exists>p. map tolower host = map tolower p @ ''.'' @ map tolower (fr_mask rule)"
proof -
  obtain p q where h: "host = p @ fr_mask rule @ q"
    using strstr_occurs [of host "fr_mask rule"] assms by (cases "strstr host (fr_mask rule) = None") (simp add: whitelisted_def, blast)
  show ?thesis
  proof (cases "length host = length (fr_mask rule)")
    case True
    then show ?thesis
      using assms h by (auto simp: whitelisted_def Let_def split: if_splits)
  next
    case False
    then have "msg = ''allow subdomain''"
      "strcasecmp_eq host (take (length host - length (fr_mask rule) - 1) host @ ''.'' @ fr_mask rule)"
      using assms by (auto simp: whitelisted_def Let_def split: if_splits)
    then show ?thesis
      by (auto simp: strcasecmp_eq_def tolower_def clib_simps)
  qed
qed

text \<open>
  C18: The redirect that opens the firewall for a host without a login is given only for a host that
  is the mask of a global rule, or ends in a dot and such a mask without regard to case: a name that
  merely contains a whitelisted domain is not let through.
\<close>

theorem whitelist_only_subdomains:
  assumes "whitelist_loop host rules = Some msg"
  shows "\<exists>rule \<in> set rules. if msg = ''allow domain'' then host = fr_mask rule
    else \<exists>p. map tolower host = map tolower p @ ''.'' @ map tolower (fr_mask rule)"
  using assms
  by (induction host rules rule: whitelist_loop.induct) (auto split: option.splits dest!: whitelisted_domain)

theorem whitelist_only_subdomains_witness:
  "whitelist_loop ''www.Example.org'' [\<lparr>fr_target = TARGET_ACCEPT, fr_protocol = None, fr_port = None,
      fr_mask = ''Example.org'', fr_mask_is_ipset = False\<rparr>] = Some ''allow subdomain'' \<and>
   whitelist_loop ''Example.org.evil.net'' [\<lparr>fr_target = TARGET_ACCEPT, fr_protocol = None, fr_port = None,
      fr_mask = ''Example.org'', fr_mask_is_ipset = False\<rparr>] = None \<and>
   (\<exists>p. map tolower ''www.Example.org'' = map tolower p @ ''.'' @ map tolower ''Example.org'')"
proof -
  let ?rules = "[\<lparr>fr_target = TARGET_ACCEPT, fr_protocol = None, fr_port = None, fr_mask = ''Example.org'', fr_mask_is_ipset = False\<rparr>]"
  have y: "whitelist_loop ''www.Example.org'' ?rules = Some ''allow subdomain''"
    by (simp add: whitelisted_def)
  moreover have "whitelist_loop ''Example.org.evil.net'' ?rules = None"
    by (simp add: whitelisted_def strcasecmp_eq_def clib_simps)
  ultimately show ?thesis
    using whitelist_only_subdomains [OF y] by simp
qed

end
