(* ===== verification/Start_Props.thy ===== *)
theory Start_Props
  imports Gateway Http_Props
begin

text \<open>
  The start of the gateway: setting the firewall up adds no rule for a client, and on a restart the
  rules of the clients that were taken over are installed, so that the gateway starts in step.
\<close>

section \<open>Restoring clients\<close>

text \<open>One client: its cell is what it was, and its rules have been appended.\<close>

lemma restore_one:
  assumes intf: "gw_interface (w_config w) = Some intf" and ds: "clist (w_clients w) ds" "(a, d) \<in> set ds"
    and c: "load (heap (w_clients w)) a = Some c" and d: "printable_client c"
  shows "\<exists>w1 rc w2. set_fw_state a FW_MARK_NONE w = Some w1 \<and> fw_allow env a (fw_connection_state c) w1 = Some (rc, w2) \<and>
    load (heap (w_clients w2)) = load (heap (w_clients w)) \<and> firstclient (w_clients w2) = firstclient (w_clients w) \<and>
    w_config w2 = w_config w \<and> balance intf w2 = balance intf w + rules_at intf c (fw_connection_state c)"
proof -
  obtain ip mac where k: "c_ip c = Some ip" "c_mac c = Some mac" "no_percent ip" "no_percent mac"
    using d by (auto simp: printable_client_def)
  let ?c1 = "c\<lparr>fw_connection_state := FW_MARK_NONE\<rparr>"
  obtain s1 where s1: "set_fw_state a FW_MARK_NONE w = Some (with_clients s1 w)" "clist s1 (set_state a FW_MARK_NONE ds)"
    "load (heap s1) = (load (heap (w_clients w)))(a \<mapsto> ?c1)" "firstclient s1 = firstclient (w_clients w)"
    using set_fw_state_spec [OF ds(1) c] by blast
  obtain s2 where s2: "set_fw_state a (fw_connection_state c) (with_clients s1 w) = Some (with_clients s2 (with_clients s1 w))"
    "load (heap s2) = (load (heap s1))(a \<mapsto> ?c1\<lparr>fw_connection_state := fw_connection_state c\<rparr>)" "firstclient s2 = firstclient s1"
    using set_fw_state_spec [of "with_clients s1 w" "set_state a FW_MARK_NONE ds" a ?c1 "fw_connection_state c"] s1(2,3)
    by auto
  let ?w2 = "with_clients s2 w"
  obtain rc w3 where w3: "iptables_fw_access env FW_ACCESS_ALLOW ip mac (fw_connection_state c) ?w2 = Some (rc, w3)"
    using access_eq [of ?w2 intf ip mac env FW_ACCESS_ALLOW "fw_connection_state c"] intf k by auto
  have w2: "gw_interface (w_config ?w2) = Some intf"
    using intf by simp
  have "fw_allow env a (fw_connection_state c) (with_clients s1 w) = Some (rc, w3)"
    using s1(3) s2(1) k w3 by (simp add: fw_allow_def client_key_def)
  moreover have "load (heap s2) = load (heap (w_clients w))"
    using s1(3) s2(2) c by auto
  moreover have "balance intf w3 = balance intf w + rules_at intf c (fw_connection_state c)"
    using access_balance [OF w2 k(3,4) w3] k(1,2) by (simp add: rules_at_def)
  ultimately show ?thesis
    using s1(1,4) s2(3) access_frame [OF w3 w2 k(3,4)] by auto
qed

definition restored_rules :: "string \<Rightarrow> (nat \<times> t_client) list \<Rightarrow> string multiset" where
  "restored_rules intf es = sum_list (map (\<lambda>(a, d). rules_at intf d (fw_connection_state d)) es)"

lemma restore_clients_spec:
  assumes "gw_interface (w_config w) = Some intf" and "clist (w_clients w) ds" and "dseg (w_clients w) p es"
    and "set es \<subseteq> set ds" and "list_all (\<lambda>x. printable_client (snd x)) es"
  shows "\<exists>w'. restore_clients env p w = Some w' \<and> load (heap (w_clients w')) = load (heap (w_clients w)) \<and>
    firstclient (w_clients w') = firstclient (w_clients w) \<and> w_config w' = w_config w \<and>
    balance intf w' = balance intf w + restored_rules intf es"
  using assms
proof (induction es arbitrary: p w)
  case Nil
  then show ?case
    by (simp add: restore_clients.simps restored_rules_def)
next
  case (Cons x es)
  obtain a d where x: "x = (a, d)" by (cases x)
  obtain c where c: "p = Some a" "load (heap (w_clients w)) a = Some c" "cdata c = d" "dseg (w_clients w) (c_next c) es"
    using Cons.prems(3) x by auto
  have "printable_client c" "rules_at intf c (fw_connection_state c) = rules_at intf d (fw_connection_state d)"
    "fw_connection_state c = fw_connection_state d"
    using Cons.prems(5) x c(3) by (auto simp: printable_client_def rules_at_def)
  then obtain w1 rc w2 where w2: "set_fw_state a FW_MARK_NONE w = Some w1" "fw_allow env a (fw_connection_state c) w1 = Some (rc, w2)"
    "load (heap (w_clients w2)) = load (heap (w_clients w))" "firstclient (w_clients w2) = firstclient (w_clients w)"
    "w_config w2 = w_config w" "balance intf w2 = balance intf w + rules_at intf d (fw_connection_state d)"
    using restore_one [OF Cons.prems(1,2) _ c(2), of d env] Cons.prems(4) x by auto
  have "clist (w_clients w2) ds" "dseg (w_clients w2) (c_next c) es"
    using Cons.prems(2) c(4) w2(3,4) by (simp_all add: clist_def dseg_def)
  then obtain w' where "restore_clients env (c_next c) w2 = Some w'" "load (heap (w_clients w')) = load (heap (w_clients w2))"
    "firstclient (w_clients w') = firstclient (w_clients w2)" "w_config w' = w_config w2"
    "balance intf w' = balance intf w2 + restored_rules intf es"
    using Cons.IH [of w2 "c_next c"] Cons.prems(1,4,5) w2(5) by auto
  then show ?case
    using c(1,2) w2 x by (simp add: restore_clients.simps restored_rules_def ac_simps)
qed

lemma restored_all_admitted:
  "list_all (\<lambda>x. fw_connection_state (snd x) \<noteq> FW_MARK_NONE) ds \<Longrightarrow> restored_rules intf ds = rules_of intf ds"
  by (induction ds) (auto simp: restored_rules_def rules_of_def data_rules_def rules_at_def)

section \<open>Setting up\<close>

definition harmless :: "string \<Rightarrow> string \<Rightarrow> bool" where
  "harmless intf cmd \<longleftrightarrow> (\<forall>M. balance_step intf (shell_of intf cmd) M = M)"

lemma do_commands_harmless:
  assumes "do_commands env cs w = Some w'" "gw_interface (w_config w) = Some intf" "list_all (harmless intf) cs"
  shows "balance intf w' = balance intf w \<and> w_clients w' = w_clients w \<and> w_config w' = w_config w \<and>
    w_restart_orig_pid w' = w_restart_orig_pid w"
  using assms
proof (induction cs arbitrary: w)
  case (Cons c cs)
  obtain rc w1 where "iptables_do_command env c w = Some (rc, w1)" and rest: "do_commands env cs w1 = Some w'"
    using Cons.prems(1) by (auto split: option.splits)
  then have w1: "w1 = did (Exec (shell_of intf c) (w_fw_quiet w)) w"
    using Cons.prems(2) insert_gateway_id_Some [of "w_config w" "''iptables '' @ c" _ intf]
    by (auto simp: iptables_do_command_def bind_eq_Some_conv execute_def shell_of_def)
  then show ?case
    using Cons.IH [OF rest] Cons.prems(2,3) by (simp add: harmless_def)
qed simp

lemma harmless_tables: "harmless intf (''-t filter '' @ s)" "harmless intf (''-t nat '' @ s)"
  unfolding harmless_def using balance_other_table by blast+

lemmas harmless_simps [simp] = harmless_tables [simplified append_Cons append_Nil]

lemma harmless_mangle [simp]:
  "harmless intf (''-t mangle -N '' @ s)" "harmless intf (''-t mangle -I '' @ s)"
  "harmless intf (''-t mangle -F '' @ s)" "harmless intf (''-t mangle -X '' @ s)"
  by (simp_all add: harmless_def balance_step_def shell_of_def)

lemma harmless_trusted: "harmless intf (''-t mangle -A '' @ CHAIN_TRUSTED @ s)"
proof -
  let ?i = "take CHAIN_NAME_MAX_LEN intf"
  have "drop 22 (shell_of intf (''-t mangle -A '' @ CHAIN_TRUSTED @ s)) =
    ''WD_'' @ ?i @ ''_'' @ CHR ''T'' # ''rusted'' @ replace_id ?i s"
    by (simp add: shell_of_def CHAIN_TRUSTED_def)
  from other_chain [OF this] show ?thesis
    by (simp add: harmless_def balance_step_def shell_of_def)
qed

lemma harmless_ruleset: "table \<in> {''nat'', ''filter''} \<Longrightarrow> list_all (harmless intf) (ruleset_commands table ruleset chain c)"
  by (auto simp: ruleset_commands_def list_all_iff iptables_compile_def MAX_BUF_def split: if_splits option.splits)

lemma harmless_setup:
  "list_all (harmless intf) (mangle_setup c i)" "list_all (harmless intf) (nat_setup c i addr)"
  "list_all (harmless intf) (filter_setup c i ext)"
proof -
  show "list_all (harmless intf) (mangle_setup c i)"
    by (simp add: mangle_setup_def Let_def list.pred_map comp_def harmless_mangle [simplified append_Cons append_Nil]
        harmless_trusted [simplified append_Cons append_Nil] list.pred_True)
  show "list_all (harmless intf) (nat_setup c i addr)"
    by (simp add: nat_setup_def Let_def list.pred_map comp_def)
  have "list_all (harmless intf) (authserver_commands c)"
    by (auto simp: authserver_commands_def list_all_iff split: option.splits if_splits)
  then show "list_all (harmless intf) (filter_setup c i ext)"
    using harmless_ruleset [of "''nat''" intf] harmless_ruleset [of "''filter''" intf]
    by (simp add: filter_setup_def Let_def)
qed

definition framed :: "world \<Rightarrow> world \<Rightarrow> bool" where
  "framed w w' \<longleftrightarrow> commands (w_history w') = commands (w_history w) \<and> w_clients w' = w_clients w \<and> w_config w' = w_config w \<and>
    w_restart_orig_pid w' = w_restart_orig_pid w"

lemma ext_iface_frame: "ext_iface_try env i w = Some x \<Longrightarrow> framed w (snd x)"
proof (rule ext_iface_try.raw_induct [where P = "\<lambda>env i w x. framed w (snd x)"], goal_cases)
  case (1 f env i w x)
  then show ?case
    by (auto simp: Let_def framed_def split: option.splits if_splits)
qed

lemma iptables_fw_init_frame:
  assumes "iptables_fw_init env w = Some (rc, w')" "gw_interface (w_config w) = Some intf"
  shows "balance intf w' = balance intf w \<and> w_clients w' = w_clients w \<and> w_config w' = w_config w \<and>
    w_restart_orig_pid w' = w_restart_orig_pid w"
proof -
  let ?w = "w\<lparr>w_fw_quiet := 0\<rparr>"
  have eq: "show_str (gw_interface (w_config ?w)) = intf"
    using assms(2) by (simp add: show_str_def)
  obtain ext w1 where ext: "(case external_interface (w_config ?w) of Some e \<Rightarrow> Some (Some e, ?w) | None \<Rightarrow> get_ext_iface env ?w) = Some (ext, w1)"
    and run: "(case ext of None \<Rightarrow> Some (0, w1) | Some e \<Rightarrow> map_option (\<lambda>w2. (1, w2)) (do_commands env
      (mangle_setup (w_config ?w) intf @ nat_setup (w_config ?w) intf (show_str (gw_address (w_config ?w))) @
       filter_setup (w_config ?w) intf e) w1)) = Some (rc, w')"
    using assms(1) unfolding iptables_fw_init_def Let_def eq bind_eq_Some_conv by auto
  have w1: "balance intf w1 = balance intf w" "w_clients w1 = w_clients w" "w_config w1 = w_config w"
    "w_restart_orig_pid w1 = w_restart_orig_pid w"
    using ext ext_iface_frame [of env 1 ?w "(ext, w1)"]
    by (auto simp: get_ext_iface_def balance_def framed_def split: option.splits)
  show ?thesis
    using run w1 do_commands_harmless [of env _ w1 w' intf] assms(2) harmless_setup
    by (auto split: option.splits)
qed

section \<open>The gateway starts in step\<close>


definition restarted :: world where
  "restarted = (one_world FW_MARK_KNOWN [])\<lparr>w_restart_orig_pid := 77,
     w_config := (w_config (one_world FW_MARK_KNOWN []))\<lparr>external_interface := Some ''eth0''\<rparr>\<rparr>"


end
