(* ===== verification/Wdctl_Client.thy ===== *)
theory Wdctl_Client
  imports Wdctl Getopt
begin

text \<open>
  The control program (\<^verbatim>\<open>src/wdctl.c\<close>): its command line, the connection to the control socket
  of the gateway, the four requests and what is printed of the answers; and that the gateway's side
  of the socket (\<open>Wdctl\<close>) receives the command that was given.
\<close>

section \<open>Model\<close>

definition DEFAULT_SOCK_client :: string where
  "DEFAULT_SOCK_client = ''/tmp/wdctl.sock''"

definition WDCTL_UNDEF :: int where
  "WDCTL_UNDEF = 0"

definition WDCTL_STATUS :: int where
  "WDCTL_STATUS = 1"

definition WDCTL_STOP :: int where
  "WDCTL_STOP = 2"

definition WDCTL_KILL :: int where
  "WDCTL_KILL = 3"

definition WDCTL_RESTART :: int where
  "WDCTL_RESTART = 4"

lemmas wdctl_codes = WDCTL_UNDEF_def WDCTL_STATUS_def WDCTL_STOP_def WDCTL_KILL_def WDCTL_RESTART_def

record ctl_config =
  ctl_socket :: string
  ctl_command :: int
  ctl_param :: "string option"

text \<open>What the program wrote: to its standard output and error, and to the socket.\<close>

record ctl_io =
  ctl_stdout :: string
  ctl_stderr :: string
  ctl_sent :: string

text \<open>
  The program goes on, exits with a status, or gets stuck: its loops of \<open>read\<close> and \<open>write\<close> wait
  for answers of the peer, which are given as lists, or its behaviour is undefined.
\<close>

datatype 'a ctl_run = Goes 'a ctl_io | Exits int ctl_io | Stuck

definition to_stdout :: "string \<Rightarrow> ctl_io \<Rightarrow> ctl_io" where
  "to_stdout s io = io\<lparr>ctl_stdout := ctl_stdout io @ s\<rparr>"

definition to_stderr :: "string \<Rightarrow> ctl_io \<Rightarrow> ctl_io" where
  "to_stderr s io = io\<lparr>ctl_stderr := ctl_stderr io @ s\<rparr>"

definition wdctl_usage :: "ctl_io \<Rightarrow> ctl_io" where
  "wdctl_usage io = to_stdout (
     ''Usage: wdctl [options] command [arguments]'' @ [NL] @
     [NL] @
     ''options:'' @ [NL] @
     ''  -s <path>         Path to the socket'' @ [NL] @
     ''  -h                Print usage'' @ [NL] @
     [NL] @
     ''commands:'' @ [NL] @
     ''  reset [mac|ip]    Reset the specified mac or ip connection'' @ [NL] @
     ''  status            Obtain the status of wifidog'' @ [NL] @
     ''  stop              Stop the running wifidog'' @ [NL] @
     ''  restart           Re-start the running wifidog (without disconnecting active users!)'' @ [NL] @
     [NL]) io"

definition init_config :: ctl_config where
  "init_config = \<lparr>ctl_socket = DEFAULT_SOCK_client, ctl_command = WDCTL_UNDEF, ctl_param = None\<rparr>"

text \<open>The option string \<open>s:h\<close>.\<close>

definition ctl_takes_value :: "char \<Rightarrow> bool option" where
  "ctl_takes_value c = (if c = CHR ''s'' then Some True else if c = CHR ''h'' then Some False else None)"

fun ctl_options :: "(char \<times> string option) list \<Rightarrow> ctl_config \<Rightarrow> ctl_io \<Rightarrow> ctl_config ctl_run" where
  "ctl_options [] config io = Goes config io"
| "ctl_options ((c, optarg) # os) config io =
     (if c = CHR ''h'' then Exits 1 (wdctl_usage io)
      else if c = CHR ''s'' then
        (case optarg of
           Some v \<Rightarrow> ctl_options os (config\<lparr>ctl_socket := v\<rparr>) io
         | None \<Rightarrow> ctl_options os config io)
      else Exits 1 (wdctl_usage io))"

definition ctl_operands :: "string list \<Rightarrow> ctl_config \<Rightarrow> ctl_io \<Rightarrow> ctl_config ctl_run" where
  "ctl_operands operands config io =
     (case operands of
        [] \<Rightarrow> Exits 1 (wdctl_usage io)
      | cmd # args \<Rightarrow>
          if cmd = ''status'' then Goes (config\<lparr>ctl_command := WDCTL_STATUS\<rparr>) io
          else if cmd = ''stop'' then Goes (config\<lparr>ctl_command := WDCTL_STOP\<rparr>) io
          else if cmd = ''reset'' then
            (case args of
               [] \<Rightarrow> Exits 1 (wdctl_usage (to_stderr (''wdctl: Error: You must specify an IP or a Mac address to reset'' @ [NL]) io))
             | param # rest \<Rightarrow> Goes (config\<lparr>ctl_command := WDCTL_KILL, ctl_param := Some param\<rparr>) io)
          else if cmd = ''restart'' then Goes (config\<lparr>ctl_command := WDCTL_RESTART\<rparr>) io
          else Exits 1 (wdctl_usage (to_stderr (''wdctl: Error: Invalid command '' @ [CHR 0x22] @ cmd @ [CHR 0x22] @ [NL]) io)))"

definition ctl_parse_commandline :: "string list \<Rightarrow> ctl_config \<Rightarrow> ctl_io \<Rightarrow> ctl_config ctl_run" where
  "ctl_parse_commandline args config io =
     (case ctl_options (getopt_all ctl_takes_value args) config io of
        Goes config1 io1 \<Rightarrow> ctl_operands (getopt_operands ctl_takes_value args) config1 io1
      | Exits rc io1 \<Rightarrow> Exits rc io1
      | Stuck \<Rightarrow> Stuck)"

text \<open>
  What the outside answers to one run: the results of \<open>socket\<close> and \<open>connect\<close> for a path (the
  \<open>sun_path\<close> of 108 bytes, of which the last stays NUL), the text of the last error, the results of
  \<open>write\<close> and those of \<open>read\<close>.
\<close>

record ctl_peer =
  cp_socket :: int
  cp_connect :: "string \<Rightarrow> int"
  cp_strerror :: string
  cp_writes :: "int list"
  cp_reads :: "net_result list"

definition connect_to_server :: "ctl_peer \<Rightarrow> string \<Rightarrow> ctl_io \<Rightarrow> int ctl_run" where
  "connect_to_server peer sock_name io =
     (if cp_socket peer < 0 then
        Exits 1 (to_stderr (''wdctl: could not get socket (Error: '' @ cp_strerror peer @ '')'' @ [NL]) io)
      else if cp_connect peer (take 107 sock_name) \<noteq> 0 then
        Exits 1 (to_stderr (''wdctl: wifidog probably not started (Error: '' @ cp_strerror peer @ '')'' @ [NL]) io)
      else Goes (cp_socket peer) io)"

text \<open>\<open>send_request\<close> ends when all is written; a \<open>write\<close> of nothing is tried again.\<close>

fun send_request :: "string \<Rightarrow> int list \<Rightarrow> string \<Rightarrow> ctl_io \<Rightarrow> unit ctl_run" where
  "send_request err ws [] io = Goes () io"
| "send_request err [] request io = Stuck"
| "send_request err (written # ws) request io =
     (if written = -1 then Exits 1 (to_stderr (''Write to wifidog failed: '' @ err @ [NL]) io)
      else send_request err ws (drop (nat written) request)
             (io\<lparr>ctl_sent := ctl_sent io @ take (nat written) request\<rparr>))"

text \<open>The loop that prints an answer: what was read is printed up to its first NUL.\<close>

fun print_answer :: "net_result list \<Rightarrow> ctl_io \<Rightarrow> unit ctl_run" where
  "print_answer [] io = Stuck"
| "print_answer (Ret n # reads) io = Goes () io"
| "print_answer (Bytes b # reads) io =
     (if b = [] then Goes () io else print_answer reads (to_stdout (cstr (take 4095 b)) io))"

text \<open>
  \<open>strncpy\<close> fills the array up to its count with NULs, \<open>strncat\<close> appends what fits behind the
  string. An array is given by the string in it.
\<close>

definition strncat_client :: "string \<Rightarrow> string \<Rightarrow> nat \<Rightarrow> string" where
  "strncat_client dest src n = dest @ take n src"

definition plain_command :: "string \<Rightarrow> string" where
  "plain_command cmd = take 15 (cmd @ [CR, NL, CR, NL])"

definition ask_and_print :: "string \<Rightarrow> ctl_peer \<Rightarrow> ctl_config \<Rightarrow> ctl_io \<Rightarrow> unit ctl_run" where
  "ask_and_print request peer config io =
     (case connect_to_server peer (ctl_socket config) io of
        Goes sock io1 \<Rightarrow>
          (case send_request (cp_strerror peer) (cp_writes peer) request io1 of
             Goes u io2 \<Rightarrow> print_answer (cp_reads peer) io2
           | Exits rc io2 \<Rightarrow> Exits rc io2
           | Stuck \<Rightarrow> Stuck)
      | Exits rc io1 \<Rightarrow> Exits rc io1
      | Stuck \<Rightarrow> Stuck)"

definition client_status :: "ctl_peer \<Rightarrow> ctl_config \<Rightarrow> ctl_io \<Rightarrow> unit ctl_run" where
  "client_status peer config io = ask_and_print (plain_command ''status'') peer config io"

definition client_stop :: "ctl_peer \<Rightarrow> ctl_config \<Rightarrow> ctl_io \<Rightarrow> unit ctl_run" where
  "client_stop peer config io = ask_and_print (plain_command ''stop'') peer config io"

definition client_restart :: "ctl_peer \<Rightarrow> ctl_config \<Rightarrow> ctl_io \<Rightarrow> unit ctl_run" where
  "client_restart peer config io = ask_and_print (plain_command ''restart'') peer config io"

definition reset_request :: "string \<Rightarrow> string" where
  "reset_request param =
     (let request1 = ''reset '';
          request2 = strncat_client request1 param (64 - length request1 - 1)
      in strncat_client request2 [CR, NL, CR, NL] (64 - length request2 - 1))"

fun read_reply :: "net_result list \<Rightarrow> string \<Rightarrow> string option" where
  "read_reply reads buffer =
     (if \<not> length buffer < 4096 then Some buffer
      else case reads of
             [] \<Rightarrow> None
           | Ret n # rest \<Rightarrow> Some buffer
           | Bytes b # rest \<Rightarrow> if b = [] then Some buffer else read_reply rest (buffer @ take (4096 - length buffer) b))"

declare read_reply.simps [simp del]

definition report_reset :: "string \<Rightarrow> string \<Rightarrow> ctl_io \<Rightarrow> ctl_io" where
  "report_reset param reply io =
     (if reply = ''Yes'' then to_stdout (''Connection '' @ param @ '' successfully reset.'' @ [NL]) io
      else if reply = ''No'' then to_stdout (''Connection '' @ param @ '' was not active.'' @ [NL]) io
      else to_stderr (''wdctl: Error: WiFiDog sent an abnormal reply.'' @ [NL]) io)"

text \<open>A missing parameter would be a NULL given to \<open>strncat\<close>, which is undefined.\<close>

definition client_reset :: "ctl_peer \<Rightarrow> ctl_config \<Rightarrow> ctl_io \<Rightarrow> unit ctl_run" where
  "client_reset peer config io =
     (case connect_to_server peer (ctl_socket config) io of
        Goes sock io1 \<Rightarrow>
          (case ctl_param config of
             None \<Rightarrow> Stuck
           | Some param \<Rightarrow>
               (case send_request (cp_strerror peer) (cp_writes peer) (reset_request param) io1 of
                  Goes u io2 \<Rightarrow>
                    (case read_reply (cp_reads peer) [] of
                       None \<Rightarrow> Stuck
                     | Some buffer \<Rightarrow> Goes () (report_reset param (cstr buffer) io2))
                | Exits rc io2 \<Rightarrow> Exits rc io2
                | Stuck \<Rightarrow> Stuck))
      | Exits rc io1 \<Rightarrow> Exits rc io1
      | Stuck \<Rightarrow> Stuck)"

definition wdctl_main :: "string list \<Rightarrow> ctl_peer \<Rightarrow> ctl_io \<Rightarrow> unit ctl_run" where
  "wdctl_main args peer io =
     (case ctl_parse_commandline args init_config io of
        Goes config io1 \<Rightarrow>
          (case
             (if ctl_command config = WDCTL_STATUS then client_status peer config io1
              else if ctl_command config = WDCTL_STOP then client_stop peer config io1
              else if ctl_command config = WDCTL_KILL then client_reset peer config io1
              else if ctl_command config = WDCTL_RESTART then client_restart peer config io1
              else Exits 1 (to_stderr (''Oops'' @ [NL]) io1))
           of Goes u io2 \<Rightarrow> Exits 0 io2 | Exits rc io2 \<Rightarrow> Exits rc io2 | Stuck \<Rightarrow> Stuck)
      | Exits rc io1 \<Rightarrow> Exits rc io1
      | Stuck \<Rightarrow> Stuck)"

section \<open>What the gateway receives\<close>

text \<open>
  The request that belongs to the operands of the command line, and what the gateway is to do on
  it.
\<close>

definition request_of :: "string list \<Rightarrow> string" where
  "request_of operands =
     (case operands of ''reset'' # param # rest \<Rightarrow> reset_request param | cmd # rest \<Rightarrow> plain_command cmd | [] \<Rightarrow> [])"

definition perform ::
  "env \<Rightarrow> string \<Rightarrow> restart_calls \<Rightarrow> int list \<Rightarrow> world \<Rightarrow> string list \<Rightarrow> (string \<times> wdctl_action \<times> world) option" where
  "perform env version calls ws w operands =
     (if hd operands = ''status'' then map_option (\<lambda>(out, w1). (out, Proceed, w1)) (wdctl_status env version ws w)
      else if hd operands = ''stop'' then Some ([], Interrupt, w)
      else if hd operands = ''reset'' then
        map_option (\<lambda>(out, w1). (out, Proceed, w1)) (wdctl_reset env version (operands ! 1) ws w)
      else map_option (\<lambda>act. ([], act, w)) (wdctl_restart (rs_socket calls) (rs_pid calls) (rs_accept calls) ws w))"

definition sendable :: "string list \<Rightarrow> bool" where
  "sendable operands \<longleftrightarrow>
     hd operands = ''reset'' \<longrightarrow> length (operands ! 1) \<le> 56 \<and> (\<forall>c\<in>set (operands ! 1). \<not> is_eol c \<and> c \<noteq> NUL)"

lemma send_request_sent:
  "send_request err ws request io = Goes u io' \<Longrightarrow>
   io' = io\<lparr>ctl_sent := ctl_sent io @ request\<rparr>"
  by (induction err ws request io rule: send_request.induct) (auto split: if_splits)

lemma print_answer_sent: "print_answer reads io = Goes u io' \<Longrightarrow> ctl_sent io' = ctl_sent io"
  by (induction reads io rule: print_answer.induct) (auto simp: to_stdout_def split: if_splits)

lemma connect_to_server_io: "connect_to_server peer sock_name io = Goes sock io' \<Longrightarrow> io' = io"
  by (simp add: connect_to_server_def split: if_splits)

lemma ask_and_print_sent:
  "ask_and_print request peer config io = Goes u io' \<Longrightarrow> ctl_sent io' = ctl_sent io @ request"
  by (auto simp: ask_and_print_def split: ctl_run.splits
      dest!: connect_to_server_io send_request_sent print_answer_sent)

lemma client_reset_sent:
  "client_reset peer config io = Goes u io' \<Longrightarrow>
   \<exists>param. ctl_param config = Some param \<and> ctl_sent io' = ctl_sent io @ reset_request param"
  by (auto simp: client_reset_def report_reset_def to_stdout_def to_stderr_def
      split: ctl_run.splits option.splits if_splits dest!: connect_to_server_io send_request_sent)

lemma ctl_options_exits [simp]: "ctl_options os config io \<noteq> Exits 0 io'"
  by (induction os config io rule: ctl_options.induct) (auto split: if_splits option.splits)

lemma ctl_options_io: "ctl_options os config io = Goes config' io' \<Longrightarrow> io' = io"
  by (induction os config io rule: ctl_options.induct) (auto split: if_splits option.splits)

lemma no_early_success [simp]:
  "send_request err ws request io \<noteq> Exits 0 io'" "print_answer reads io \<noteq> Exits rc io'"
  "connect_to_server peer sock_name io \<noteq> Exits 0 io'" "ctl_operands operands config io \<noteq> Exits 0 io'"
proof -
  show "send_request err ws request io \<noteq> Exits 0 io'"
    by (induction err ws request io rule: send_request.induct) auto
  show "print_answer reads io \<noteq> Exits rc io'"
    by (induction reads io rule: print_answer.induct) auto
qed (auto simp: connect_to_server_def ctl_operands_def split: list.splits)

lemma requests_no_early_success [simp]:
  "ask_and_print request peer config io \<noteq> Exits 0 io'" "client_reset peer config io \<noteq> Exits 0 io'"
  by (auto simp: ask_and_print_def client_reset_def split: ctl_run.splits option.splits)

definition command_code :: "string \<Rightarrow> int" where
  "command_code cmd =
     (if cmd = ''status'' then WDCTL_STATUS else if cmd = ''stop'' then WDCTL_STOP
      else if cmd = ''reset'' then WDCTL_KILL else if cmd = ''restart'' then WDCTL_RESTART else WDCTL_UNDEF)"

lemma ctl_operands_goes:
  assumes "ctl_operands operands config io = Goes config' io'"
  obtains cmd rest where "io' = io" "operands = cmd # rest" "ctl_command config' = command_code cmd"
    "cmd \<in> {''status'', ''stop'', ''reset'', ''restart''}"
    "cmd = ''reset'' \<longrightarrow> (\<exists>param later. rest = param # later \<and> ctl_param config' = Some param)"
  using assms by (auto simp: ctl_operands_def command_code_def split: list.splits if_splits)

lemma wdctl_main_sent:
  assumes "wdctl_main args peer io0 = Exits 0 io"
  obtains cmd rest where "getopt_operands ctl_takes_value args = cmd # rest"
    "cmd \<in> {''status'', ''stop'', ''reset'', ''restart''}" "cmd = ''reset'' \<Longrightarrow> rest \<noteq> []"
    "ctl_sent io = ctl_sent io0 @ request_of (cmd # rest)"
proof -
  from assms obtain config io1 where cfg: "ctl_parse_commandline args init_config io0 = Goes config io1"
    by (auto simp: wdctl_main_def ctl_parse_commandline_def split: ctl_run.splits)
  then obtain config0 where "ctl_operands (getopt_operands ctl_takes_value args) config0 io0 = Goes config io1"
    by (auto simp: ctl_parse_commandline_def split: ctl_run.splits dest!: ctl_options_io)
  then obtain cmd rest where o: "io1 = io0" "getopt_operands ctl_takes_value args = cmd # rest"
    "ctl_command config = command_code cmd" and c: "cmd \<in> {''status'', ''stop'', ''reset'', ''restart''}"
    and r: "cmd = ''reset'' \<longrightarrow> (\<exists>param later. rest = param # later \<and> ctl_param config = Some param)"
    by (rule ctl_operands_goes)
  have "ctl_sent io = ctl_sent io0 @ request_of (cmd # rest)"
    using assms cfg o c r
    by (auto simp: wdctl_main_def command_code_def wdctl_codes client_status_def client_stop_def client_restart_def
        request_of_def split: ctl_run.splits dest!: ask_and_print_sent client_reset_sent)
  with o c r show thesis
    using that by blast
qed

text \<open>However the bytes arrive, the handler has the line once its end has come.\<close>

lemma wdctl_read_chunks:
  "concat chunks = pre @ e # post \<Longrightarrow> \<forall>c\<in>set pre. \<not> is_eol c \<Longrightarrow> is_eol e \<Longrightarrow>
   length seen + length (pre @ e # post) < MAX_BUF - 1 \<Longrightarrow>
   \<exists>tail. wdctl_read (map Bytes chunks @ later) (seen @ junk) (length seen) = Some (True, seen @ pre @ NUL # tail)"
proof (induction chunks arbitrary: seen pre junk)
  case (Cons b bs)
  have len: "length b \<le> MAX_BUF - length seen" "length seen < MAX_BUF - 1"
    using Cons.prems(1,4) by (auto dest: arg_cong [where f = length])
  show ?case
  proof (cases "length b \<le> length pre")
    case True
    then obtain pre' where pre: "pre = b @ pre'" "concat bs = pre' @ e # post"
      using Cons.prems(1) by (auto simp: append_eq_append_conv2)
    have b: "\<not> list_ex is_eol b" "end_lines b = b"
      using Cons.prems(2) pre(1) by (auto simp: list_ex_iff end_lines_def intro: map_idI)
    have "\<exists>tail. wdctl_read (map Bytes bs @ later) ((seen @ b) @ drop (length b) junk) (length (seen @ b)) =
      Some (True, (seen @ b) @ pre' @ NUL # tail)"
      using Cons.prems pre by (intro Cons.IH) auto
    then show ?thesis
      using len b pre(1) by (simp add: wdctl_read.simps [of "Bytes b # _"] Let_def)
  next
    case False
    then obtain b' where "b = pre @ e # b'"
      using Cons.prems(1) by (auto simp: append_eq_append_conv2 append_eq_Cons_conv)
    then have "end_lines b = pre @ NUL # end_lines b'" "list_ex is_eol b"
      using Cons.prems(2,3) by (auto simp: end_lines_def intro: map_idI)
    then show ?thesis
      using len by (simp add: wdctl_read.simps [of "Bytes b # _"] Let_def)
  qed
qed simp

lemma wdctl_read_waits:
  "\<forall>c\<in>set (concat chunks). \<not> is_eol c \<Longrightarrow> read_bytes + length (concat chunks) < MAX_BUF - 1 \<Longrightarrow>
   wdctl_read (map Bytes chunks) request read_bytes = None"
proof (induction chunks arbitrary: request read_bytes)
  case (Cons b bs)
  then have "\<not> list_ex is_eol b"
    by (auto simp: list_ex_iff)
  with Cons show ?case
    by (simp add: wdctl_read.simps [of "Bytes b # _"] Let_def)
qed (simp add: wdctl_read.simps)

lemma request_of_line:
  assumes "cmd \<in> {''status'', ''stop'', ''reset'', ''restart''}" "cmd = ''reset'' \<Longrightarrow> rest \<noteq> []" "sendable (cmd # rest)"
  obtains post where "request_of (cmd # rest) = (if cmd = ''reset'' then ''reset '' @ hd rest else cmd) @ CR # post"
    "length (request_of (cmd # rest)) < 64"
proof -
  show thesis
  proof (cases "cmd = ''reset''")
    case True
    with assms(2,3) obtain param later where "rest = param # later" "length param \<le> 56"
      by (auto simp: sendable_def neq_Nil_conv)
    moreover from this have "57 - length param = Suc (56 - length param)"
      by simp
    ultimately show ?thesis
      using True that [of "take (56 - length param) [NL, CR, NL]"]
      by (simp add: request_of_def reset_request_def strncat_client_def Let_def)
  next
    case False
    with assms(1) show ?thesis
      using that [of "[NL, CR, NL]"] by (auto simp: request_of_def plain_command_def)
  qed
qed

lemma request_line_clean:
  assumes "cmd \<in> {''status'', ''stop'', ''reset'', ''restart''}" "cmd = ''reset'' \<Longrightarrow> rest \<noteq> []" "sendable (cmd # rest)"
  shows "\<forall>c\<in>set (if cmd = ''reset'' then ''reset '' @ hd rest else cmd). \<not> is_eol c \<and> c \<noteq> NUL"
proof (cases "cmd = ''reset''")
  case True
  with assms(2,3) obtain param later where "rest = param # later" "\<forall>c\<in>set param. \<not> is_eol c \<and> c \<noteq> NUL"
    by (auto simp: sendable_def neq_Nil_conv)
  with True show ?thesis
    by (simp add: is_eol_def CR_def NL_def NUL_def)
next
  case False
  with assms(1) show ?thesis
    by (auto simp: is_eol_def CR_def NL_def NUL_def)
qed

text \<open>What the handler does with a line that it has read.\<close>

lemma handler_plain:
  assumes "wdctl_read input (replicate MAX_BUF NUL) 0 = Some (True, cmd @ NUL # tail)"
  shows "cmd = ''status'' \<Longrightarrow> thread_wdctl_handler env version calls input ws w = perform env version calls ws w (cmd # rest)"
    "cmd = ''stop'' \<Longrightarrow> thread_wdctl_handler env version calls input ws w = perform env version calls ws w (cmd # rest)"
    "cmd = ''restart'' \<Longrightarrow> thread_wdctl_handler env version calls input ws w = perform env version calls ws w (cmd # rest)"
  using assms
  by (simp_all add: thread_wdctl_handler_def perform_def strncmp_eq_def cstr_def NUL_def wdctl_stop_def
      map_option_case split: option.split)

lemma handler_reset:
  assumes "wdctl_read input (replicate MAX_BUF NUL) 0 = Some (True, (''reset '' @ param) @ NUL # tail)" "NUL \<notin> set param"
  shows "thread_wdctl_handler env version calls input ws w =
    map_option (\<lambda>(out, w1). (out, Proceed, w1)) (wdctl_reset env version param ws w)"
proof -
  have "cstr ((''reset '' @ param) @ NUL # tail) = ''reset '' @ param"
    using assms(2) by (intro cstr_append_NUL) (simp add: NUL_def)
  then show ?thesis
    using assms by (simp add: thread_wdctl_handler_def strncmp_eq_def map_option_case split: option.split)
qed

text \<open>
  C5: The control program and the gateway agree on the command: when \<open>wdctl\<close> ends with success,
  and the parameter of a \<open>reset\<close> has at most 56 characters and no line end, then the bytes that it
  sent, in whatever portions they arrive at the control socket, make the gateway do what the
  operands of the command line say, with that very parameter.
\<close>

theorem control_request_performed:
  assumes run: "wdctl_main args peer io0 = Exits 0 io" "ctl_sent io0 = []"
    and operands: "sendable (getopt_operands ctl_takes_value args)"
    and chunks: "concat chunks = ctl_sent io"
  shows "thread_wdctl_handler env version calls (map Bytes chunks @ later) ws w =
    perform env version calls ws w (getopt_operands ctl_takes_value args)"
proof -
  obtain cmd rest where ops: "getopt_operands ctl_takes_value args = cmd # rest"
    and cmd: "cmd \<in> {''status'', ''stop'', ''reset'', ''restart''}" and rest: "cmd = ''reset'' \<Longrightarrow> rest \<noteq> []"
    and sent: "ctl_sent io = request_of (cmd # rest)"
    using run by (auto elim: wdctl_main_sent)
  let ?line = "if cmd = ''reset'' then ''reset '' @ hd rest else cmd"
  obtain post where req: "request_of (cmd # rest) = ?line @ CR # post" "length (request_of (cmd # rest)) < 64"
    using operands ops by (auto intro: request_of_line [OF cmd rest])
  have clean: "\<forall>c\<in>set ?line. \<not> is_eol c \<and> c \<noteq> NUL"
    using operands by (intro request_line_clean [OF cmd rest]) (simp_all add: ops)
  have "\<exists>tail. wdctl_read (map Bytes chunks @ later) ([] @ replicate MAX_BUF NUL) (length ([] :: string)) =
    Some (True, [] @ ?line @ NUL # tail)"
    using chunks sent req clean
    by (intro wdctl_read_chunks [where post = post and e = CR]) (auto simp: is_eol_def MAX_BUF_def)
  then obtain tail where read: "wdctl_read (map Bytes chunks @ later) (replicate MAX_BUF NUL) 0 = Some (True, ?line @ NUL # tail)"
    by auto
  show ?thesis
  proof (cases "cmd = ''reset''")
    case True
    with rest obtain param args1 where "rest = param # args1"
      by (auto simp: neq_Nil_conv)
    with True read clean show ?thesis
      using handler_reset [of "map Bytes chunks @ later" param tail env version calls ws w] by (auto simp: ops perform_def)
  next
    case False
    with cmd read show ?thesis
      using handler_plain [of "map Bytes chunks @ later" cmd tail env version calls ws w rest] by (auto simp: ops)
  qed
qed

definition willing_peer :: ctl_peer where
  "willing_peer = \<lparr>cp_socket = 3, cp_connect = (\<lambda>path. 0), cp_strerror = [], cp_writes = [10, 100],
     cp_reads = [Bytes ''Ye'', Bytes ''s'', Ret 0]\<rparr>"

definition no_io :: ctl_io where
  "no_io = \<lparr>ctl_stdout = [], ctl_stderr = [], ctl_sent = []\<rparr>"

lemmas client_eval = wdctl_main_def ctl_parse_commandline_def ctl_takes_value_def is_option_def ctl_operands_def init_config_def
  client_reset_def connect_to_server_def reset_request_def strncat_client_def read_reply.simps report_reset_def
  to_stdout_def to_stderr_def wdctl_codes willing_peer_def no_io_def cstr_def NUL_def NL_def CR_def

lemma willing_peer_run:
  "wdctl_main [''-s'', ''/run/x'', ''reset'', ''10.0.0.7''] willing_peer no_io =
   Exits 0 \<lparr>ctl_stdout = ''Connection 10.0.0.7 successfully reset.'' @ [NL], ctl_stderr = [],
     ctl_sent = ''reset 10.0.0.7'' @ [CR, NL, CR, NL]\<rparr>"
  by (simp add: client_eval Let_def)

lemma willing_peer_operands:
  "getopt_operands ctl_takes_value [''-s'', ''/run/x'', ''reset'', ''10.0.0.7''] = [''reset'', ''10.0.0.7'']"
  by (simp add: ctl_takes_value_def is_option_def)

theorem control_request_performed_witness:
  "\<forall>env version calls ws w.
     thread_wdctl_handler env version calls (map Bytes [''res'', ''et 10.0.0.7'' @ [CR], [NL, CR, NL]] @ [Ret 0]) ws w =
     map_option (\<lambda>(out, w1). (out, Proceed, w1)) (wdctl_reset env version ''10.0.0.7'' ws w)"
proof (intro allI)
  fix env version calls ws w
  have "thread_wdctl_handler env version calls (map Bytes [''res'', ''et 10.0.0.7'' @ [CR], [NL, CR, NL]] @ [Ret 0]) ws w =
    perform env version calls ws w [''reset'', ''10.0.0.7'']"
    by (rule control_request_performed [OF willing_peer_run, unfolded willing_peer_operands])
      (simp_all add: no_io_def sendable_def is_eol_def NL_def CR_def NUL_def)
  then show "thread_wdctl_handler env version calls (map Bytes [''res'', ''et 10.0.0.7'' @ [CR], [NL, CR, NL]] @ [Ret 0]) ws w =
    map_option (\<lambda>(out, w1). (out, Proceed, w1)) (wdctl_reset env version ''10.0.0.7'' ws w)"
    by (simp add: perform_def)
qed

text \<open>
  C37: The request of a \<open>reset\<close> is built in an array of 64 bytes. With a parameter of 57
  characters or more it has no line end, and the gateway waits for the rest of the line: however the
  bytes arrive, its handler never gets beyond reading.
\<close>

theorem long_reset_never_read:
  assumes "57 \<le> length param" "\<forall>c\<in>set param. \<not> is_eol c" "concat chunks = reset_request param"
  shows "thread_wdctl_handler env version calls (map Bytes chunks) ws w = None"
proof -
  have "reset_request param = ''reset '' @ take 57 param"
    using assms(1) by (simp add: reset_request_def strncat_client_def)
  moreover have "\<forall>c\<in>set (take 57 param). \<not> is_eol c"
    using assms(2) by (auto dest: in_set_takeD)
  ultimately have "wdctl_read (map Bytes chunks) (replicate MAX_BUF NUL) 0 = None"
    using assms(1,3) by (intro wdctl_read_waits) (auto simp: MAX_BUF_def is_eol_def CR_def NL_def)
  then show ?thesis
    by (simp add: thread_wdctl_handler_def)
qed

theorem long_reset_never_read_witness:
  "\<forall>env version calls ws w. thread_wdctl_handler env version calls (map Bytes [reset_request (replicate 57 CHR ''a'')]) ws w = None"
  by (intro allI, rule long_reset_never_read [of "replicate 57 CHR ''a''"]) (simp_all add: is_eol_def CR_def NL_def)

end
