(* ===== verification/Simple_Https.thy ===== *)
theory Simple_Https
  imports Centralserver
begin

text \<open>
  Requests over SSL (\<^verbatim>\<open>src/simple_http.c\<close>, compiled with \<open>USE_CYASSL\<close> and \<open>HAVE_SNI\<close>). The
  library CyaSSL is not part of the sources: its calls are the fields of \<open>cyassl\<close>, on contexts
  and connections of unknown types. Calls that configure a context return a status and the context
  that they leave.
\<close>

record ('ctx, 'ssl) cyassl =
  CyaSSL_CTX_new :: "'ctx option"
  CyaSSL_CTX_set_cipher_list :: "'ctx \<Rightarrow> string \<Rightarrow> int \<times> 'ctx"
  CyaSSL_CTX_UseSNI :: "'ctx \<Rightarrow> string \<Rightarrow> int \<times> 'ctx"
  CyaSSL_CTX_load_verify_locations :: "'ctx \<Rightarrow> string \<Rightarrow> int \<times> 'ctx"
  CyaSSL_CTX_set_verify_none :: "'ctx \<Rightarrow> 'ctx"
  CyaSSL_new :: "'ctx \<Rightarrow> 'ssl option"
  CyaSSL_check_domain_name :: "'ssl \<Rightarrow> string \<Rightarrow> 'ssl"
  CyaSSL_set_fd :: "'ssl \<Rightarrow> int \<Rightarrow> 'ssl"
  CyaSSL_send :: "'ssl \<Rightarrow> string \<Rightarrow> int"
  CyaSSL_reads :: "'ssl \<Rightarrow> sock_event list"

definition SSL_SUCCESS :: int where
  "SSL_SUCCESS = 1"

text \<open>
  The steps that configure a new context, in their order; each gets the context that the one
  before it left. The result is whether all succeeded, with the context that is kept in
  \<open>cyassl_ctx\<close> in either case.
\<close>

definition set_ciphers :: "('ctx, 'ssl) cyassl \<Rightarrow> s_config \<Rightarrow> 'ctx \<Rightarrow> bool \<times> 'ctx" where
  "set_ciphers lib config ctx =
     (case ssl_cipher_list config of
        None \<Rightarrow> (True, ctx)
      | Some l \<Rightarrow> (let (err, ctx') = CyaSSL_CTX_set_cipher_list lib ctx l in (err = SSL_SUCCESS, ctx')))"

definition set_sni :: "('ctx, 'ssl) cyassl \<Rightarrow> s_config \<Rightarrow> string \<Rightarrow> 'ctx \<Rightarrow> bool \<times> 'ctx" where
  "set_sni lib config hostname ctx =
     (if ssl_use_sni config \<noteq> 0 then
        (let (err, ctx') = CyaSSL_CTX_UseSNI lib ctx hostname in (err = SSL_SUCCESS, ctx'))
      else (True, ctx))"

definition set_verify :: "('ctx, 'ssl) cyassl \<Rightarrow> s_config \<Rightarrow> 'ctx \<Rightarrow> bool \<times> 'ctx" where
  "set_verify lib config ctx =
     (if ssl_verify config \<noteq> 0 then
        (let (err, ctx') = CyaSSL_CTX_load_verify_locations lib ctx (ssl_certs config) in (err = SSL_SUCCESS, ctx'))
      else (True, CyaSSL_CTX_set_verify_none lib ctx))"

definition configure_ctx :: "('ctx, 'ssl) cyassl \<Rightarrow> s_config \<Rightarrow> string \<Rightarrow> 'ctx \<Rightarrow> bool \<times> 'ctx" where
  "configure_ctx lib config hostname ctx =
     (let (ok1, ctx1) = set_ciphers lib config ctx
      in if \<not> ok1 then (False, ctx1)
         else let (ok2, ctx2) = set_sni lib config hostname ctx1
              in if \<not> ok2 then (False, ctx2) else set_verify lib config ctx2)"

text \<open>
  \<open>get_cyassl_ctx\<close>: the argument and the second part of the result are the static variable
  \<open>cyassl_ctx\<close> before and after the call.
\<close>

definition get_cyassl_ctx ::
  "('ctx, 'ssl) cyassl \<Rightarrow> s_config \<Rightarrow> string \<Rightarrow> 'ctx option \<Rightarrow> 'ctx option \<times> 'ctx option" where
  "get_cyassl_ctx lib config hostname cyassl_ctx =
     (case cyassl_ctx of
        Some ctx \<Rightarrow> (Some ctx, cyassl_ctx)
      | None \<Rightarrow>
          (case CyaSSL_CTX_new lib of
             None \<Rightarrow> (None, None)
           | Some ctx \<Rightarrow>
               let (ok, ctx') = configure_ctx lib config hostname ctx
               in if ok then (Some ctx', Some ctx') else (None, Some ctx')))"

definition https_get ::
  "env \<Rightarrow> ('ctx, 'ssl) cyassl \<Rightarrow> int \<Rightarrow> string \<Rightarrow> string \<Rightarrow> s_config \<Rightarrow> 'ctx option \<Rightarrow> (string option \<times> 'ctx option) option" where
  "https_get env lib sockfd req hostname config cyassl_ctx =
     (let (ctx, cyassl_ctx') = get_cyassl_ctx lib config hostname cyassl_ctx
      in case ctx of
           None \<Rightarrow> Some (None, cyassl_ctx')
         | Some c \<Rightarrow>
             if sockfd = -1 then Some (None, cyassl_ctx')
             else (case CyaSSL_new lib c of
                     None \<Rightarrow> Some (None, cyassl_ctx')
                   | Some ssl0 \<Rightarrow>
                       let ssl1 = (if ssl_verify config \<noteq> 0 then CyaSSL_check_domain_name lib ssl0 hostname else ssl0);
                           ssl = CyaSSL_set_fd lib ssl1 sockfd;
                           numbytes = CyaSSL_send lib ssl req
                       in if numbytes \<le> 0 \<or> numbytes \<noteq> int (length req) then Some (None, cyassl_ctx')
                          else map_option (\<lambda>res. (res, cyassl_ctx'))
                                 (http_read (e_junk env) (CyaSSL_reads lib ssl) pstr_new)))"

section \<open>One context for all hosts\<close>

text \<open>The contexts that a sequence of requests to hosts gets.\<close>

fun contexts_for :: "('ctx, 'ssl) cyassl \<Rightarrow> s_config \<Rightarrow> string list \<Rightarrow> 'ctx option \<Rightarrow> 'ctx option list" where
  "contexts_for lib config [] st = []"
| "contexts_for lib config (h # hs) st =
     (let (ctx, st') = get_cyassl_ctx lib config h st in ctx # contexts_for lib config hs st')"

lemma contexts_for_kept: "contexts_for lib config hs (Some ctx) = replicate (length hs) (Some ctx)"
  by (induction hs) (simp_all add: get_cyassl_ctx_def)

text \<open>
  C19: The SSL context is configured once, by the first request that gets as far as creating it,
  and every later request gets that context, whatever its host. So after a fail-over the name
  announced to the server (SNI) is still that of the first host; and when a step of the configuration
  failed, only the first request is told so: all later ones are given the context in the state in
  which the failing step left it.
\<close>

theorem ssl_context_of_first_host:
  assumes "CyaSSL_CTX_new lib = Some ctx"
  shows "contexts_for lib config (h # hs) None =
    (if fst (configure_ctx lib config h ctx) then Some (snd (configure_ctx lib config h ctx)) else None) #
    replicate (length hs) (Some (snd (configure_ctx lib config h ctx)))"
  using assms by (simp add: get_cyassl_ctx_def contexts_for_kept split: prod.split)

text \<open>
  An instance of the library that records the calls, and cannot load certificates.
\<close>

datatype ssl_call = Ciphers string | Sni string | Load_Certs string | Verify_None

definition recording :: "(ssl_call list, unit) cyassl" where
  "recording = \<lparr>CyaSSL_CTX_new = Some [], CyaSSL_CTX_set_cipher_list = (\<lambda>c l. (1, c @ [Ciphers l])),
     CyaSSL_CTX_UseSNI = (\<lambda>c h. (1, c @ [Sni h])), CyaSSL_CTX_load_verify_locations = (\<lambda>c p. (-1, c)),
     CyaSSL_CTX_set_verify_none = (\<lambda>c. c @ [Verify_None]), CyaSSL_new = (\<lambda>c. Some ()),
     CyaSSL_check_domain_name = (\<lambda>s h. s), CyaSSL_set_fd = (\<lambda>s fd. s), CyaSSL_send = (\<lambda>s r. int (length r)),
     CyaSSL_reads = (\<lambda>s. [Received ''Pong'', End_Of_File])\<rparr>"

theorem ssl_context_of_first_host_witness:
  "contexts_for recording (config_init\<lparr>ssl_use_sni := 1\<rparr>) [''a.example'', ''b.example''] None =
    [None, Some [Sni ''a.example'']] \<and>
   contexts_for recording (config_init\<lparr>ssl_use_sni := 1, ssl_verify := 0\<rparr>) [''a.example'', ''b.example''] None =
    [Some [Sni ''a.example'', Verify_None], Some [Sni ''a.example'', Verify_None]]"
proof -
  have "CyaSSL_CTX_new recording = Some []"
    by (simp add: recording_def)
  note t = ssl_context_of_first_host [OF this]
  show ?thesis
    unfolding t by (simp add: configure_ctx_def set_ciphers_def set_sni_def set_verify_def recording_def SSL_SUCCESS_def config_init_def)
qed

end
