(* ===== verification/Httpd_Vars.thy ===== *)
theory Httpd_Vars
  imports Httpd CHeap
begin

text \<open>
  The variables of a request as the C code keeps them (\<^verbatim>\<open>libhttpd/api.c\<close>, \<^verbatim>\<open>libhttpd/protocol.c\<close>):
  nodes on the heap, linked by \<open>nextVariable\<close> along the names and by \<open>nextValue\<close> along the further
  values of a name. The operations are shown to implement the ones on lists that the rest of the
  development uses (\<open>Httpd\<close>), and freeing the variables to free each node exactly once.
\<close>

section \<open>Nodes and operations\<close>

record var_node =
  n_name :: string
  n_value :: string
  n_nextValue :: ptr
  n_nextVariable :: ptr

type_synonym vars_state = "var_node heap \<times> ptr"

definition update :: "nat \<Rightarrow> (var_node \<Rightarrow> var_node) \<Rightarrow> var_node heap \<Rightarrow> var_node heap option" where
  "update a f h = Option.bind (load h a) (\<lambda>d. store h a (f d))"

text \<open>The loops over the names stop at the first node that passes a test.\<close>

partial_function (option) find_var :: "(string \<Rightarrow> bool) \<Rightarrow> var_node heap \<Rightarrow> ptr \<Rightarrow> ptr option" where
  "find_var test h curVar =
     (case curVar of
        None \<Rightarrow> Some None
      | Some a \<Rightarrow> Option.bind (load h a) (\<lambda>d.
          if test (n_name d) then Some curVar else find_var test h (n_nextVariable d)))"

definition getVariableByName :: "string \<Rightarrow> vars_state \<Rightarrow> ptr option" where
  "getVariableByName name s = find_var (\<lambda>n. n = name) (fst s) (snd s)"

text \<open>The inner loop of \<open>httpdAddVariable\<close>: the last node of the values.\<close>

partial_function (option) last_value :: "var_node heap \<Rightarrow> nat \<Rightarrow> nat option" where
  "last_value h a = Option.bind (load h a) (\<lambda>d.
     case n_nextValue d of None \<Rightarrow> Some a | Some b \<Rightarrow> last_value h b)"

partial_function (option) add_loop :: "string \<Rightarrow> nat \<Rightarrow> var_node heap \<Rightarrow> ptr \<Rightarrow> ptr \<Rightarrow> ptr \<Rightarrow> vars_state option" where
  "add_loop name newVar h vars lastVar curVar =
     (case curVar of
        None \<Rightarrow>
          (case lastVar of
             Some l \<Rightarrow> Option.bind (update l (\<lambda>d. d\<lparr>n_nextVariable := Some newVar\<rparr>) h) (\<lambda>h1. Some (h1, vars))
           | None \<Rightarrow> Some (h, Some newVar))
      | Some a \<Rightarrow> Option.bind (load h a) (\<lambda>d.
          if n_name d \<noteq> name then add_loop name newVar h vars curVar (n_nextVariable d)
          else Option.bind (last_value h a) (\<lambda>l.
            Option.bind (update l (\<lambda>d. d\<lparr>n_nextValue := Some newVar\<rparr>) h) (\<lambda>h1. Some (h1, vars)))))"

definition addVariable :: "string \<Rightarrow> string \<Rightarrow> vars_state \<Rightarrow> vars_state option" where
  "addVariable name val s =
     (let name = skip_blanks name;
          (newVar, h) = malloc (fst s) \<lparr>n_name = name, n_value = val, n_nextValue = None, n_nextVariable = None\<rparr>
      in add_loop name newVar h (snd s) None (snd s))"

definition setVariableValue :: "string \<Rightarrow> string \<Rightarrow> vars_state \<Rightarrow> vars_state option" where
  "setVariableValue name val s = do {
     var \<leftarrow> getVariableByName name s;
     (case var of
        Some a \<Rightarrow> do {
          h \<leftarrow> update a (\<lambda>d. d\<lparr>n_value := val\<rparr>) (fst s);
          Some (h, snd s)
        }
      | None \<Rightarrow> addVariable name val s)
   }"

text \<open>
  The recursion of \<open>_httpd_freeVariables\<close> goes along the names, its loop along the values; name and
  value of a node are freed with it.
\<close>

partial_function (option) free_values :: "var_node heap \<Rightarrow> ptr \<Rightarrow> var_node heap option" where
  "free_values h curVar =
     (case curVar of
        None \<Rightarrow> Some h
      | Some a \<Rightarrow> Option.bind (load h a) (\<lambda>d. Option.bind (free h a) (\<lambda>h1. free_values h1 (n_nextValue d))))"

partial_function (option) freeVariables :: "var_node heap \<Rightarrow> ptr \<Rightarrow> var_node heap option" where
  "freeVariables h var =
     (case var of
        None \<Rightarrow> Some h
      | Some a \<Rightarrow> Option.bind (load h a) (\<lambda>d.
          Option.bind (freeVariables h (n_nextVariable d)) (\<lambda>h1.
            Option.bind (update a (\<lambda>d. d\<lparr>n_nextVariable := None\<rparr>) h1) (\<lambda>h2. free_values h2 var))))"

definition requestFreeVariables :: "vars_state \<Rightarrow> var_node heap option" where
  "requestFreeVariables s = freeVariables (fst s) (snd s)"

text \<open>
  The end of a request: its variables are freed and its connection is closed, \<open>fds\<close> are the open
  descriptors; the request itself is freed last.
\<close>

definition httpdEndRequest :: "int \<Rightarrow> vars_state \<Rightarrow> int list \<Rightarrow> (var_node heap \<times> int list) option" where
  "httpdEndRequest clientSock s fds = do {
     h \<leftarrow> freeVariables (fst s) (snd s);
     Some (h, removeAll clientSock fds)
   }"

section \<open>The list of variables on the heap\<close>

text \<open>A variable with the addresses of its nodes: the first value, and the further ones.\<close>

type_synonym var_nodes = "nat \<times> string \<times> string \<times> (nat \<times> string) list"

fun values_at :: "(nat \<Rightarrow> var_node option) \<Rightarrow> string \<Rightarrow> ptr \<Rightarrow> (nat \<times> string) list \<Rightarrow> bool" where
  "values_at ld name p [] \<longleftrightarrow> p = None"
| "values_at ld name p ((a, val) # xs) \<longleftrightarrow> p = Some a \<and>
     (\<exists>q. ld a = Some \<lparr>n_name = name, n_value = val, n_nextValue = q, n_nextVariable = None\<rparr> \<and> values_at ld name q xs)"

fun vars_at :: "(nat \<Rightarrow> var_node option) \<Rightarrow> ptr \<Rightarrow> var_nodes list \<Rightarrow> bool" where
  "vars_at ld p [] \<longleftrightarrow> p = None"
| "vars_at ld p ((a, name, val, xs) # vs) \<longleftrightarrow> p = Some a \<and>
     (\<exists>q r. ld a = Some \<lparr>n_name = name, n_value = val, n_nextValue = q, n_nextVariable = r\<rparr> \<and>
        values_at ld name q xs \<and> vars_at ld r vs)"

fun nodes :: "var_nodes \<Rightarrow> nat list" where
  "nodes (a, name, val, xs) = a # map fst xs"

fun var_of :: "var_nodes \<Rightarrow> httpVar" where
  "var_of (a, name, val, xs) = \<lparr>v_name = name, v_value = val, v_nextValues = map snd xs\<rparr>"

abbreviation all_nodes :: "var_nodes list \<Rightarrow> nat list" where
  "all_nodes vs \<equiv> concat (map nodes vs)"

text \<open>The variables at \<open>p\<close>, with no node shared.\<close>

definition holds_vars :: "vars_state \<Rightarrow> var_nodes list \<Rightarrow> bool" where
  "holds_vars s vs \<longleftrightarrow> vars_at (load (fst s)) (snd s) vs \<and> distinct (all_nodes vs)"

lemma values_at_cong: "values_at ld name p xs \<Longrightarrow> (\<And>a. a \<in> fst ` set xs \<Longrightarrow> ld' a = ld a) \<Longrightarrow> values_at ld' name p xs"
  by (induction ld name p xs rule: values_at.induct) auto

lemma vars_at_cong: "vars_at ld p vs \<Longrightarrow> (\<And>a. a \<in> set (all_nodes vs) \<Longrightarrow> ld' a = ld a) \<Longrightarrow> vars_at ld' p vs"
proof (induction ld p vs rule: vars_at.induct)
  case (2 ld p a name val xs vs)
  then obtain q r where "ld' a = Some \<lparr>n_name = name, n_value = val, n_nextValue = q, n_nextVariable = r\<rparr>"
    "values_at ld name q xs" "vars_at ld' r vs" "p = Some a"
    by auto
  moreover have "values_at ld' name q xs"
    by (rule values_at_cong [OF calculation(2)]) (simp add: "2.prems"(2))
  ultimately show ?case
    by auto
qed simp

lemma values_at_outside:
  "values_at ld name p xs \<Longrightarrow> fst ` set xs \<inter> S = {} \<Longrightarrow> (\<And>c. c \<notin> S \<Longrightarrow> ld' c = ld c) \<Longrightarrow> values_at ld' name p xs"
  by (erule values_at_cong) blast

lemma values_at_load: "values_at ld name p xs \<Longrightarrow> a \<in> fst ` set xs \<Longrightarrow> ld a \<noteq> None"
  by (induction ld name p xs rule: values_at.induct) auto

lemma vars_at_load: "vars_at ld p vs \<Longrightarrow> a \<in> set (all_nodes vs) \<Longrightarrow> ld a \<noteq> None"
  by (induction ld p vs rule: vars_at.induct) (auto dest: values_at_load)

lemma update_some:
  assumes "load h a = Some d"
  shows "\<exists>h'. update a f h = Some h' \<and> load h' = (load h)(a \<mapsto> f d)"
  using cells.st_some [OF assms, of "f d"] assms by (auto simp: update_def)

section \<open>The operations on the heap implement those on lists\<close>

lemma find_var_spec:
  "vars_at (load h) p vs \<Longrightarrow> find_var test h p = Some (map_option fst (List.find (\<lambda>x. test (fst (snd x))) vs))"
proof (induction vs arbitrary: p)
  case Nil
  then show ?case
    by (simp add: find_var.simps)
next
  case (Cons v vs)
  obtain a n val xs where "v = (a, n, val, xs)" by (cases v)
  with Cons show ?case
    by (auto simp: find_var.simps [of _ _ "Some a"])
qed

text \<open>Another value behind the last one.\<close>

lemma append_value:
  assumes "load h a = Some d" "values_at (load h) name (n_nextValue d) xs" "distinct (a # map fst xs)"
    and "load h b = Some \<lparr>n_name = name, n_value = val, n_nextValue = None, n_nextVariable = None\<rparr>" "b \<notin> set (a # map fst xs)"
  shows "\<exists>l h' q. last_value h a = Some l \<and> update l (\<lambda>d. d\<lparr>n_nextValue := Some b\<rparr>) h = Some h' \<and>
    load h' a = Some (d\<lparr>n_nextValue := q\<rparr>) \<and> values_at (load h') name q (xs @ [(b, val)]) \<and>
    (\<forall>c. c \<notin> set (a # map fst xs) \<longrightarrow> load h' c = load h c)"
  using assms
proof (induction xs arbitrary: a d)
  case Nil
  then obtain h' where "update a (\<lambda>d. d\<lparr>n_nextValue := Some b\<rparr>) h = Some h'" "load h' = (load h)(a \<mapsto> d\<lparr>n_nextValue := Some b\<rparr>)"
    using update_some by blast
  then show ?case
    using Nil by (intro exI [of _ a] exI [of _ h'] exI [of _ "Some b"]) (simp add: last_value.simps [of h a])
next
  case (Cons x xs)
  obtain c v where x: "x = (c, v)" by (cases x)
  then obtain q where q: "n_nextValue d = Some c"
    "load h c = Some \<lparr>n_name = name, n_value = v, n_nextValue = q, n_nextVariable = None\<rparr>" "values_at (load h) name q xs"
    using Cons.prems(2) by auto
  obtain l h' r where IH: "last_value h c = Some l" "update l (\<lambda>d. d\<lparr>n_nextValue := Some b\<rparr>) h = Some h'"
    "load h' c = Some \<lparr>n_name = name, n_value = v, n_nextValue = r, n_nextVariable = None\<rparr>"
    "values_at (load h') name r (xs @ [(b, val)])" "\<forall>e. e \<notin> set (c # map fst xs) \<longrightarrow> load h' e = load h e"
    using Cons.IH [OF q(2)] q(3) Cons.prems x by auto
  have "load h' a = Some (d\<lparr>n_nextValue := Some c\<rparr>)"
    using IH(5) Cons.prems(1,3) x q(1) by (cases d) auto
  then show ?case
    using IH q(1) x Cons.prems(1)
    by (intro exI [of _ l] exI [of _ h'] exI [of _ "Some c"]) (auto simp: last_value.simps [of h a])
qed

text \<open>The list with the node \<open>b\<close> added where \<open>add_var\<close> adds the value.\<close>

fun add_node :: "nat \<Rightarrow> string \<Rightarrow> string \<Rightarrow> var_nodes list \<Rightarrow> var_nodes list" where
  "add_node b name val [] = [(b, name, val, [])]"
| "add_node b name val ((a, n, v, xs) # vs) =
     (if n = name then (a, n, v, xs @ [(b, val)]) # vs else (a, n, v, xs) # add_node b name val vs)"

lemma add_node_var: "map var_of (add_node b name val vs) = add_var name val (map var_of vs)"
  by (induction b name val vs rule: add_node.induct) auto

lemma add_node_set: "set (all_nodes (add_node b name val vs)) = insert b (set (all_nodes vs))"
  by (induction b name val vs rule: add_node.induct) auto

lemma add_node_distinct: "distinct (all_nodes vs) \<Longrightarrow> b \<notin> set (all_nodes vs) \<Longrightarrow> distinct (all_nodes (add_node b name val vs))"
proof (induction b name val vs rule: add_node.induct)
  case (2 b name val a n v xs vs)
  then show ?case
    using add_node_set [of b name val vs] by (cases "n = name") auto
qed simp

abbreviation fresh_node :: "string \<Rightarrow> string \<Rightarrow> var_node" where
  "fresh_node name val \<equiv> \<lparr>n_name = name, n_value = val, n_nextValue = None, n_nextVariable = None\<rparr>"

text \<open>The name is that of the node \<open>a\<close>.\<close>

lemma add_loop_found:
  assumes "vars_at (load h) (Some a) ((a, name, v, xs) # vs)" "distinct (all_nodes ((a, name, v, xs) # vs))"
    and "load h b = Some (fresh_node name val)" "b \<notin> set (all_nodes ((a, name, v, xs) # vs))"
  shows "\<exists>h'. add_loop name b h root prev (Some a) = Some (h', root) \<and>
    vars_at (load h') (Some a) ((a, name, v, xs @ [(b, val)]) # vs) \<and>
    (\<forall>c. c \<notin> set (nodes (a, name, v, xs)) \<longrightarrow> load h' c = load h c)"
proof -
  obtain q r where qr: "load h a = Some \<lparr>n_name = name, n_value = v, n_nextValue = q, n_nextVariable = r\<rparr>"
    "values_at (load h) name q xs" "vars_at (load h) r vs"
    using assms(1) by auto
  obtain l h' q' where l: "last_value h a = Some l" "update l (\<lambda>d. d\<lparr>n_nextValue := Some b\<rparr>) h = Some h'"
    "load h' a = Some \<lparr>n_name = name, n_value = v, n_nextValue = q', n_nextVariable = r\<rparr>"
    "values_at (load h') name q' (xs @ [(b, val)])" "\<forall>c. c \<notin> set (a # map fst xs) \<longrightarrow> load h' c = load h c"
    using append_value [OF qr(1) _ _ assms(3), of xs] qr(2) assms(2,4) by auto
  have "set (a # map fst xs) \<inter> set (all_nodes vs) = {}"
    using assms(2) by simp
  then have "vars_at (load h') r vs"
    using l(5) by (intro vars_at_cong [OF qr(3)]) blast
  then show ?thesis
    using l qr(1) by (intro exI [of _ h']) (auto simp: add_loop.simps [of _ _ _ _ _ "Some a"])
qed

text \<open>The loop behind the node \<open>l\<close>.\<close>

lemma add_loop_spec:
  assumes "load h l = Some d" "vars_at (load h) (n_nextVariable d) vs" "distinct (all_nodes vs)" "l \<notin> set (all_nodes vs)" "l \<noteq> b"
    and "load h b = Some (fresh_node name val)" "b \<notin> set (all_nodes vs)"
  shows "\<exists>h' q. add_loop name b h root (Some l) (n_nextVariable d) = Some (h', root) \<and> load h' l = Some (d\<lparr>n_nextVariable := q\<rparr>) \<and>
    vars_at (load h') q (add_node b name val vs) \<and> (\<forall>c. c \<noteq> l \<longrightarrow> c \<notin> set (all_nodes vs) \<longrightarrow> load h' c = load h c)"
  using assms
proof (induction vs arbitrary: l d)
  case Nil
  then obtain h' where "update l (\<lambda>d. d\<lparr>n_nextVariable := Some b\<rparr>) h = Some h'" "load h' = (load h)(l \<mapsto> d\<lparr>n_nextVariable := Some b\<rparr>)"
    using update_some by blast
  then show ?case
    using Nil by (intro exI [of _ h'] exI [of _ "Some b"]) (simp add: add_loop.simps)
next
  case (Cons x vs)
  obtain a n v xs where x: "x = (a, n, v, xs)" by (cases x)
  then obtain q r where a: "n_nextVariable d = Some a" "load h a = Some \<lparr>n_name = n, n_value = v, n_nextValue = q, n_nextVariable = r\<rparr>"
    "values_at (load h) n q xs" "vars_at (load h) r vs"
    using Cons.prems(2) by auto
  have same: "d\<lparr>n_nextVariable := Some a\<rparr> = d"
    using a(1) by simp
  show ?case
  proof (cases "n = name")
    case True
    obtain h' where "add_loop name b h root (Some l) (Some a) = Some (h', root)"
      "vars_at (load h') (Some a) ((a, name, v, xs @ [(b, val)]) # vs)"
      "\<forall>c. c \<notin> set (nodes (a, name, v, xs)) \<longrightarrow> load h' c = load h c"
      using add_loop_found [OF _ _ Cons.prems(6), of a v xs vs root "Some l"] Cons.prems x a True by auto
    then show ?thesis
      using Cons.prems(1,4) x a(1) same True by (intro exI [of _ h'] exI [of _ "Some a"]) auto
  next
    case False
    obtain h' p where IH: "add_loop name b h root (Some a) r = Some (h', root)"
      "load h' a = Some \<lparr>n_name = n, n_value = v, n_nextValue = q, n_nextVariable = p\<rparr>"
      "vars_at (load h') p (add_node b name val vs)" "\<forall>c. c \<noteq> a \<longrightarrow> c \<notin> set (all_nodes vs) \<longrightarrow> load h' c = load h c"
      using Cons.IH [OF a(2)] Cons.prems x a(4) by auto
    have "values_at (load h') n q xs"
      by (rule values_at_outside [OF a(3), of "set (a # all_nodes vs)"]) (use IH(4) Cons.prems(3) x in simp_all)
    then show ?thesis
      using IH a(1,2) Cons.prems(1,4) x same False
      by (intro exI [of _ h'] exI [of _ "Some a"]) (auto simp: add_loop.simps [of _ _ _ _ _ "Some a"])
  qed
qed

lemma addVariable_spec:
  assumes "holds_vars (h, p) vs"
  shows "\<exists>h' p' b. addVariable name val (h, p) = Some (h', p') \<and>
    holds_vars (h', p') (add_node b (skip_blanks name) val vs) \<and> load h b = None \<and>
    (\<forall>c. c \<noteq> b \<longrightarrow> c \<notin> set (all_nodes vs) \<longrightarrow> load h' c = load h c)"
proof -
  let ?n = "skip_blanks name"
  note vs = assms [unfolded holds_vars_def, simplified fst_conv snd_conv]
  obtain b h1 where m: "malloc h (fresh_node ?n val) = (b, h1)"
    by (cases "malloc h (fresh_node ?n val)")
  have b: "load h b = None" "load h1 = (load h)(b \<mapsto> fresh_node ?n val)"
    by (rule cells.new_fresh [OF m], rule cells.ld_new [OF m])
  then have out: "b \<notin> set (all_nodes vs)"
    using vars_at_load vs by blast
  have at: "vars_at (load h1) p vs"
    by (rule vars_at_cong [OF conjunct1 [OF vs]]) (use b(2) out in auto)
  have "\<exists>h' p'. add_loop ?n b h1 p None p = Some (h', p') \<and> vars_at (load h') p' (add_node b ?n val vs) \<and>
    (\<forall>c. c \<noteq> b \<longrightarrow> c \<notin> set (all_nodes vs) \<longrightarrow> load h' c = load h1 c)"
  proof (cases vs)
    case Nil
    then show ?thesis
      using at b(2) by (simp add: add_loop.simps)
  next
    case (Cons x xs)
    obtain a n v ys where x: "x = (a, n, v, ys)" by (cases x)
    note y = at [unfolded Cons x] conjunct2 [OF vs, unfolded Cons x] out [unfolded Cons x]
    show ?thesis
    proof (cases "n = ?n")
      case True
      then show ?thesis
        using add_loop_found [of h1 a ?n v ys xs b val p None] y b(2) Cons x by fastforce
    next
      case False
      obtain q r where a: "p = Some a" "load h1 a = Some \<lparr>n_name = n, n_value = v, n_nextValue = q, n_nextVariable = r\<rparr>"
        "values_at (load h1) n q ys" "vars_at (load h1) r xs"
        using y(1) by auto
      obtain h' s where r: "add_loop ?n b h1 p (Some a) r = Some (h', p)"
        "load h' a = Some \<lparr>n_name = n, n_value = v, n_nextValue = q, n_nextVariable = s\<rparr>"
        "vars_at (load h') s (add_node b ?n val xs)" "\<forall>c. c \<noteq> a \<longrightarrow> c \<notin> set (all_nodes xs) \<longrightarrow> load h' c = load h1 c"
        using add_loop_spec [OF a(2), of xs b ?n val p] a(4) y(2,3) b(2) by auto
      have "values_at (load h') n q ys"
        by (rule values_at_outside [OF a(3), of "set (a # all_nodes xs)"]) (use r(4) y(2) in simp_all)
      then show ?thesis
        using r a(1,2) Cons x False by (intro exI [of _ h'] exI [of _ p]) (auto simp: add_loop.simps [of _ _ _ _ _ "Some a"])
    qed
  qed
  then obtain h' p' where "add_loop ?n b h1 p None p = Some (h', p')" "vars_at (load h') p' (add_node b ?n val vs)"
    "\<forall>c. c \<noteq> b \<longrightarrow> c \<notin> set (all_nodes vs) \<longrightarrow> load h' c = load h1 c"
    by blast
  then show ?thesis
    using m b add_node_distinct [OF conjunct2 [OF vs] out]
    by (intro exI [of _ h'] exI [of _ p'] exI [of _ b]) (simp add: addVariable_def holds_vars_def)
qed

section \<open>Freeing\<close>

lemma free_values_spec:
  "values_at (load h) name p xs \<Longrightarrow> distinct (map fst xs) \<Longrightarrow>
    \<exists>h'. free_values h p = Some h' \<and> load h' = (\<lambda>c. if c \<in> fst ` set xs then None else load h c)"
proof (induction xs arbitrary: h p)
  case Nil
  then show ?case
    by (simp add: free_values.simps)
next
  case (Cons x xs)
  obtain a v where x: "x = (a, v)" by (cases x)
  with Cons.prems obtain q where a: "p = Some a" "load h a = Some \<lparr>n_name = name, n_value = v, n_nextValue = q, n_nextVariable = None\<rparr>"
    "values_at (load h) name q xs"
    by auto
  obtain h1 where h1: "free h a = Some h1" "load h1 = (load h)(a := None)"
    using cells.fr_some [OF a(2)] by blast
  have "values_at (load h1) name q xs"
    by (rule values_at_cong [OF a(3)]) (use h1(2) Cons.prems(2) x in auto)
  from Cons.IH [OF this] obtain h' where "free_values h1 q = Some h'"
    "load h' = (\<lambda>c. if c \<in> fst ` set xs then None else load h1 c)"
    using Cons.prems(2) by auto
  then show ?case
    using a h1 x by (auto simp: free_values.simps [of h "Some a"] fun_eq_iff)
qed

lemma freeVariables_spec:
  "vars_at (load h) p vs \<Longrightarrow> distinct (all_nodes vs) \<Longrightarrow>
    \<exists>h'. freeVariables h p = Some h' \<and> load h' = (\<lambda>c. if c \<in> set (all_nodes vs) then None else load h c)"
proof (induction vs arbitrary: p)
  case Nil
  then show ?case
    by (simp add: freeVariables.simps)
next
  case (Cons x vs)
  obtain a n v xs where x: "x = (a, n, v, xs)" by (cases x)
  with Cons.prems obtain q r where a: "p = Some a" "load h a = Some \<lparr>n_name = n, n_value = v, n_nextValue = q, n_nextVariable = r\<rparr>"
    "values_at (load h) n q xs" "vars_at (load h) r vs"
    by auto
  have d: "set (a # map fst xs) \<inter> set (all_nodes vs) = {}" "distinct (a # map fst xs)"
    using Cons.prems(2) x by auto
  obtain h1 where h1: "freeVariables h r = Some h1" "load h1 = (\<lambda>c. if c \<in> set (all_nodes vs) then None else load h c)"
    using Cons.IH [OF a(4)] Cons.prems(2) x by auto
  let ?d = "\<lparr>n_name = n, n_value = v, n_nextValue = q, n_nextVariable = r\<rparr>"
  have "load h1 a = Some ?d"
    using h1(2) a(2) d(1) by simp
  from update_some [OF this] obtain h2 where h2: "update a (\<lambda>d. d\<lparr>n_nextVariable := None\<rparr>) h1 = Some h2"
    "load h2 = (load h1)(a \<mapsto> ?d\<lparr>n_nextVariable := None\<rparr>)"
    by blast
  have "values_at (load h2) n q xs"
    by (rule values_at_outside [OF a(3), of "set (a # all_nodes vs)"]) (use h1(2) h2(2) Cons.prems(2) x in simp_all)
  then have "values_at (load h2) n (Some a) ((a, v) # xs)"
    using h2(2) by simp
  from free_values_spec [OF this] obtain h' where "free_values h2 (Some a) = Some h'"
    "load h' = (\<lambda>c. if c \<in> fst ` set ((a, v) # xs) then None else load h2 c)"
    using d(2) by auto
  then show ?case
    using a(1,2) h1 h2 x by (auto simp: freeVariables.simps [of h "Some a"] fun_eq_iff)
qed

section \<open>Setting a value\<close>

fun set_node :: "string \<Rightarrow> string \<Rightarrow> var_nodes list \<Rightarrow> var_nodes list" where
  "set_node name val [] = []"
| "set_node name val ((a, n, v, xs) # vs) =
     (if n = name then (a, n, val, xs) # vs else (a, n, v, xs) # set_node name val vs)"

lemma set_node_var: "map var_of (set_node name val vs) = set_var name val (map var_of vs)"
  by (induction name val vs rule: set_node.induct) auto

lemma set_node_nodes [simp]: "map nodes (set_node name val vs) = map nodes vs"
  by (induction name val vs rule: set_node.induct) auto

abbreviation find_node :: "string \<Rightarrow> var_nodes list \<Rightarrow> var_nodes option" where
  "find_node name \<equiv> List.find (\<lambda>x. fst (snd x) = name)"

lemma find_node_var: "List.find (\<lambda>v. v_name v = name) (map var_of vs) = map_option var_of (find_node name vs)"
proof (induction vs)
  case (Cons x vs)
  then show ?case
    by (cases x) simp
qed simp

lemma find_node_load:
  "vars_at ld p vs \<Longrightarrow> find_node name vs = Some (a, n, v, xs) \<Longrightarrow>
    (\<exists>d. ld a = Some d \<and> n_name d = name \<and> n_value d = v) \<and> a \<in> set (all_nodes vs)"
  by (induction ld p vs rule: vars_at.induct) (auto split: if_splits)

lemma set_node_at:
  assumes d: "ld a = Some d" and ld': "ld' a = Some (d\<lparr>n_value := val\<rparr>)" "\<And>c. c \<noteq> a \<Longrightarrow> ld' c = ld c"
  shows "vars_at ld p vs \<Longrightarrow> distinct (all_nodes vs) \<Longrightarrow> find_node name vs = Some (a, n, v, xs) \<Longrightarrow>
    vars_at ld' p (set_node name val vs)"
proof (induction vs arbitrary: p)
  case (Cons x vs)
  obtain b m u ys where x: "x = (b, m, u, ys)" by (cases x)
  then obtain q r where b: "p = Some b" "ld b = Some \<lparr>n_name = m, n_value = u, n_nextValue = q, n_nextVariable = r\<rparr>"
    "values_at ld m q ys" "vars_at ld r vs"
    using Cons.prems(1) by auto
  show ?case
  proof (cases "m = name")
    case True
    then have a: "a = b"
      using Cons.prems(3) x by simp
    have "values_at ld' m q ys"
      by (rule values_at_outside [OF b(3), of "{a}"]) (use Cons.prems(2) x a ld'(2) in simp_all)
    moreover have out: "a \<notin> set (all_nodes vs)"
      using Cons.prems(2) x a by simp
    have "vars_at ld' r vs"
      by (rule vars_at_cong [OF b(4)], rule ld'(2)) (use out in blast)
    ultimately show ?thesis
      using True a x b d ld'(1) by auto
  next
    case False
    then have f: "find_node name vs = Some (a, n, v, xs)"
      using Cons.prems(3) x by simp
    then have "vars_at ld' r (set_node name val vs)"
      using Cons.IH [OF b(4)] Cons.prems(2) x by simp
    moreover have "a \<in> set (all_nodes vs)"
      using find_node_load [OF b(4) f] by simp
    then have a: "a \<notin> set (b # map fst ys)"
      using Cons.prems(2) x by auto
    then have "values_at ld' m q ys"
      by (intro values_at_outside [OF b(3), of "{a}"]) (auto intro: ld'(2))
    ultimately show ?thesis
      using False x b a ld'(2) [of b] by auto
  qed
qed simp

section \<open>The variables of a request, from first to last\<close>

text \<open>What a request does to its variables: the parser adds, a page may set.\<close>

datatype var_op = Add_Variable string string | Set_Variable string string

fun vars_op :: "var_op \<Rightarrow> vars_state \<Rightarrow> vars_state option" where
  "vars_op (Add_Variable name val) s = addVariable name val s"
| "vars_op (Set_Variable name val) s = setVariableValue name val s"

fun list_op :: "var_op \<Rightarrow> 'f request \<Rightarrow> 'f request" where
  "list_op (Add_Variable name val) r = httpdAddVariable name val r"
| "list_op (Set_Variable name val) r = httpdSetVariableValue name val r"

fun vars_ops :: "var_op list \<Rightarrow> vars_state \<Rightarrow> vars_state option" where
  "vars_ops [] s = Some s"
| "vars_ops (e # es) s = Option.bind (vars_op e s) (vars_ops es)"

text \<open>The nodes were not allocated in \<open>h0\<close>, and nothing else has changed since.\<close>

definition owns_vars :: "var_node heap \<Rightarrow> vars_state \<Rightarrow> var_nodes list \<Rightarrow> bool" where
  "owns_vars h0 s vs \<longleftrightarrow> holds_vars s vs \<and>
     (\<forall>c. if c \<in> set (all_nodes vs) then load h0 c = None else load (fst s) c = load h0 c)"

lemma add_owned:
  assumes "owns_vars h0 s vs"
  shows "\<exists>s' b. addVariable name val s = Some s' \<and> owns_vars h0 s' (add_node b (skip_blanks name) val vs)"
proof -
  obtain h p where s: "s = (h, p)" by (cases s)
  obtain h' p' b where r: "addVariable name val (h, p) = Some (h', p')" "holds_vars (h', p') (add_node b (skip_blanks name) val vs)"
    "load h b = None" "\<forall>c. c \<noteq> b \<longrightarrow> c \<notin> set (all_nodes vs) \<longrightarrow> load h' c = load h c"
    using addVariable_spec assms s unfolding owns_vars_def by blast
  have "b \<notin> set (all_nodes vs)"
    using vars_at_load [of "load h" p vs b] assms r(3) s unfolding owns_vars_def holds_vars_def by auto
  then have "owns_vars h0 (h', p') (add_node b (skip_blanks name) val vs)"
    using assms r(2-4) s unfolding owns_vars_def add_node_set by (auto split: if_splits)
  then show ?thesis
    using r(1) s by blast
qed

lemma set_owned:
  assumes "owns_vars h0 s vs"
  shows "\<exists>s' vs'. setVariableValue name val s = Some s' \<and> owns_vars h0 s' vs' \<and>
    map var_of vs' = variables (httpdSetVariableValue name val (r\<lparr>variables := map var_of vs\<rparr>))"
proof -
  obtain h p where s: "s = (h, p)" by (cases s)
  have at: "vars_at (load h) p vs" "distinct (all_nodes vs)"
    using assms s by (simp_all add: owns_vars_def holds_vars_def)
  have f: "getVariableByName name s = Some (map_option fst (find_node name vs))"
    using find_var_spec [OF at(1)] s by (simp add: getVariableByName_def)
  show ?thesis
  proof (cases "find_node name vs")
    case None
    then have "httpdSetVariableValue name val (r\<lparr>variables := map var_of vs\<rparr>) = httpdAddVariable name val (r\<lparr>variables := map var_of vs\<rparr>)"
      "setVariableValue name val s = addVariable name val s"
      using f by (simp_all add: setVariableValue_def httpdSetVariableValue_def httpdGetVariableByName_def find_node_var)
    then show ?thesis
      using add_owned [OF assms, of name val] add_node_var by (fastforce simp: httpdAddVariable_def)
  next
    case (Some x)
    then obtain a n v xs where x: "find_node name vs = Some (a, n, v, xs)" by (cases x) auto
    then obtain d where d: "load h a = Some d" "a \<in> set (all_nodes vs)"
      using find_node_load [OF at(1)] by blast
    obtain h' where h': "update a (\<lambda>d. d\<lparr>n_value := val\<rparr>) h = Some h'" "load h' = (load h)(a \<mapsto> d\<lparr>n_value := val\<rparr>)"
      using update_some [OF d(1)] by blast
    have "owns_vars h0 (h', p) (set_node name val vs)"
      using assms s set_node_at [OF d(1) _ _ at x, of "load h'" val] at(2) h'(2) d(2)
      by (simp add: owns_vars_def holds_vars_def split: if_splits del: set_concat) blast
    then show ?thesis
      using f x h'(1) s
      by (intro exI [of _ "(h', p)"] exI [of _ "set_node name val vs"])
        (simp add: setVariableValue_def httpdSetVariableValue_def httpdGetVariableByName_def find_node_var set_node_var)
  qed
qed

lemma ops_owned:
  "owns_vars h0 s vs \<Longrightarrow> \<exists>s' vs'. vars_ops es s = Some s' \<and> owns_vars h0 s' vs' \<and>
    map var_of vs' = variables (fold list_op es (r\<lparr>variables := map var_of vs\<rparr>))"
proof (induction es arbitrary: s vs r)
  case Nil
  then show ?case by auto
next
  case (Cons e es)
  obtain s1 vs1 r1 where 1: "vars_op e s = Some s1" "owns_vars h0 s1 vs1"
    "list_op e (r\<lparr>variables := map var_of vs\<rparr>) = r1\<lparr>variables := map var_of vs1\<rparr>"
  proof (cases e)
    case (Add_Variable name val)
    obtain s' b where "addVariable name val s = Some s'" "owns_vars h0 s' (add_node b (skip_blanks name) val vs)"
      using add_owned [OF Cons.prems] by blast
    with Add_Variable show thesis
      by (intro that [of s' "add_node b (skip_blanks name) val vs" r]) (simp_all add: httpdAddVariable_def add_node_var)
  next
    case (Set_Variable name val)
    obtain s' vs' where "setVariableValue name val s = Some s'" "owns_vars h0 s' vs'"
      "map var_of vs' = variables (httpdSetVariableValue name val (r\<lparr>variables := map var_of vs\<rparr>))"
      using set_owned [OF Cons.prems] by blast
    with Set_Variable show thesis
      by (intro that [of s' vs' "httpdSetVariableValue name val (r\<lparr>variables := map var_of vs\<rparr>)"]) simp_all
  qed
  from Cons.IH [OF 1(2), of r1] 1(1,3) show ?case
    by simp
qed

text \<open>
  C6: The variables of a request live and die with it. For any sequence of variables added and set
  on a heap \<open>h\<close>, no pointer goes astray, each lookup by name finds a node with the value that the
  list of variables has, and freeing the variables at the end of the request frees every node once
  and leaves the heap as it was: nothing leaks and nothing else is touched.
\<close>

theorem request_variables_refined:
  "\<exists>h' p h''. vars_ops es (h, None) = Some (h', p) \<and>
    (\<forall>name. case httpdGetVariableByName (fold list_op es (r\<lparr>variables := []\<rparr>)) name of
       None \<Rightarrow> getVariableByName name (h', p) = Some None
     | Some v \<Rightarrow> \<exists>a d. getVariableByName name (h', p) = Some (Some a) \<and> load h' a = Some d \<and>
         n_name d = name \<and> n_value d = v_value v) \<and>
    httpdEndRequest sock (h', p) fds = Some (h'', removeAll sock fds) \<and> load h'' = load h"
proof -
  have "owns_vars h (h, None) []"
    by (simp add: owns_vars_def holds_vars_def)
  from ops_owned [OF this, of es r] obtain h' p vs where run: "vars_ops es (h, None) = Some (h', p)" and own: "owns_vars h (h', p) vs"
    and vs: "map var_of vs = variables (fold list_op es (r\<lparr>variables := []\<rparr>))"
    by auto
  have at: "vars_at (load h') p vs" "distinct (all_nodes vs)"
    using own by (simp_all add: owns_vars_def holds_vars_def)
  have f: "getVariableByName name (h', p) = Some (map_option fst (find_node name vs))"
    "httpdGetVariableByName (fold list_op es (r\<lparr>variables := []\<rparr>)) name = map_option var_of (find_node name vs)" for name
    using find_var_spec [OF at(1)] find_node_var [of name vs] vs by (simp_all add: getVariableByName_def httpdGetVariableByName_def)
  have look: "case httpdGetVariableByName (fold list_op es (r\<lparr>variables := []\<rparr>)) name of
       None \<Rightarrow> getVariableByName name (h', p) = Some None
     | Some v \<Rightarrow> \<exists>a d. getVariableByName name (h', p) = Some (Some a) \<and> load h' a = Some d \<and>
         n_name d = name \<and> n_value d = v_value v" for name
  proof (cases "find_node name vs")
    case (Some x)
    then show ?thesis
      using find_node_load [OF at(1)] unfolding f by (cases x) fastforce
  qed (simp add: f)
  obtain h'' where h'': "freeVariables h' p = Some h''" "load h'' = (\<lambda>c. if c \<in> set (all_nodes vs) then None else load h' c)"
    using freeVariables_spec [OF at] by blast
  have "if c \<in> set (all_nodes vs) then load h c = None else load h' c = load h c" for c
    using own unfolding owns_vars_def fst_conv by blast
  then have "load h'' c = load h c" for c
    using h''(2) by (cases "c \<in> set (all_nodes vs)") (metis (full_types))+
  then show ?thesis
    using run look h''(1) by (intro exI [of _ h'] exI [of _ p] exI [of _ h'']) (simp add: httpdEndRequest_def fun_eq_iff)
qed

end
