(* ===== verification/Conf_Types.thy ===== *)
theory Conf_Types
  imports Gateway
begin

text \<open>
  Which values the fields of the configuration can have: the types that its users rely on, though
  in C they are integers and strings, and that the command line and the configuration file keep them.
\<close>

section \<open>Well-typed configurations\<close>

definition flag :: "int \<Rightarrow> bool" where
  "flag b \<longleftrightarrow> b = 0 \<or> b = 1"

definition tristate :: "int \<Rightarrow> bool" where
  "tristate b \<longleftrightarrow> b = -1 \<or> b = 0 \<or> b = 1"

lemma flag_simps [simp]: "flag 0" "flag 1" "tristate 0" "tristate 1" "tristate (-1)"
  by (simp_all add: flag_def tristate_def)

definition typed_rule :: "t_firewall_rule \<Rightarrow> bool" where
  "typed_rule r \<longleftrightarrow>
     (case fr_protocol r of None \<Rightarrow> True | Some p \<Rightarrow> is_protocol p \<and> list_all (\<lambda>c. \<not> isblank c) p) \<and>
     (case fr_port r of None \<Rightarrow> True | Some p \<Rightarrow> list_all (\<lambda>c. isdigit c \<or> c = CHR '':'') p) \<and>
     list_all (\<lambda>c. \<not> isblank c) (fr_mask r)"

definition typed_ruleset :: "t_firewall_ruleset \<Rightarrow> bool" where
  "typed_ruleset s \<longleftrightarrow> rs_rules s \<noteq> [] \<and> list_all typed_rule (rs_rules s)"

definition typed_mac :: "string \<Rightarrow> bool" where
  "typed_mac mac \<longleftrightarrow> mac \<noteq> [] \<and> length mac \<le> 17 \<and> list_all (\<lambda>c. isxdigit c \<or> c = CHR '':'') mac"

definition typed_config :: "s_config \<Rightarrow> bool" where
  "typed_config c \<longleftrightarrow>
     tristate (daemon c) \<and> tristate (deltatraffic c) \<and> flag (ssl_verify c) \<and> flag (ssl_use_sni c) \<and>
     flag (log_stderr (debugconf c)) \<and>
     list_all (\<lambda>a. flag (authserv_use_ssl a)) (auth_servers c) \<and>
     map as_ptr (auth_servers c) = [0..<length (auth_servers c)] \<and>
     distinct (map rs_name (rulesets c)) \<and> list_all typed_ruleset (rulesets c) \<and>
     list_all typed_mac (trustedmaclist c) \<and>
     list_all (\<lambda>h. h \<noteq> [] \<and> list_all (\<lambda>c. \<not> isblank c) h) (popular_servers c)"

lemma typed_config_init: "typed_config config_init"
  by (simp add: typed_config_def config_init_def)

section \<open>Booleans and words\<close>

lemma parse_boolean_tristate: "tristate (parse_boolean_value s)"
  by (simp add: parse_boolean_value_def)

lemma parse_boolean_flag: "\<not> parse_boolean_value s < 0 \<Longrightarrow> flag (parse_boolean_value s)"
  using parse_boolean_tristate [of s] by (auto simp: flag_def tristate_def)

lemma next_word_unblank: "TO_NEXT_WORD s = (w, r, e) \<Longrightarrow> w = takeWhile (\<lambda>c. \<not> isblank c) s"
  by (auto simp: TO_NEXT_WORD_def Let_def split: list.splits)

lemma unblank_word: "list_all (\<lambda>c. \<not> isblank c) (takeWhile (\<lambda>c. \<not> isblank c) s)"
  using set_takeWhileD by (fastforce simp: list_all_iff)

lemma strncmp_word:
  assumes "strncmp_eq n s t" "list_all (\<lambda>c. \<not> isblank c) t" "length t = n"
  shows "strncmp_eq n (takeWhile (\<lambda>c. \<not> isblank c) s) t"
proof -
  have s: "s = t @ drop n s"
    using assms(1,3) append_take_drop_id [of n s] by (simp add: strncmp_eq_def)
  have "takeWhile (\<lambda>c. \<not> isblank c) (t @ drop n s) = t @ takeWhile (\<lambda>c. \<not> isblank c) (drop n s)"
    using assms(2) by (intro takeWhile_append2) (simp add: list_all_iff)
  then show ?thesis
    using s assms(3) by (metis append_eq_conv_conj strncmp_eq_def take_all le_refl)
qed

lemma is_protocol_word: "is_protocol s \<Longrightarrow> is_protocol (takeWhile (\<lambda>c. \<not> isblank c) s)"
  using strncmp_word [of 3 s "''tcp''"] strncmp_word [of 3 s "''udp''"] strncmp_word [of 4 s "''icmp''"]
  by (auto simp: is_protocol_def isblank_def TAB_def)

section \<open>Firewall rules\<close>

lemma read_dest_fields:
  "fr_protocol (read_dest t p q l f) = p" "fr_port (read_dest t p q l f) = q"
  "list_all (\<lambda>c. \<not> isblank c) (fr_mask (read_dest t p q l f))"
  using unblank_word
  by (auto simp: read_dest_def Let_def isblank_def TAB_def dest!: next_word_unblank split: prod.splits)

lemma read_port_typed:
  assumes "read_port t p l f = Inr r" "case p of None \<Rightarrow> True | Some p \<Rightarrow> is_protocol p \<and> list_all (\<lambda>c. \<not> isblank c) p"
  shows "typed_rule r"
  using assms by (auto simp: read_port_def Let_def typed_rule_def read_dest_fields split: if_splits prod.splits)

lemma read_rule_typed: "read_rule line = Inr r \<Longrightarrow> typed_rule r"
  by (auto simp: read_rule_def Let_def unblank_word is_protocol_word split: if_splits prod.splits option.splits
      intro!: read_port_typed dest!: next_word_unblank)

lemma append_rule_names: "set (map rs_name (append_rule n r ss)) = insert n (set (map rs_name ss))"
  by (induction n r ss rule: append_rule.induct) auto

lemma append_rule_typed:
  "typed_rule r \<Longrightarrow> distinct (map rs_name ss) \<Longrightarrow> list_all typed_ruleset ss \<Longrightarrow>
    distinct (map rs_name (append_rule n r ss)) \<and> list_all typed_ruleset (append_rule n r ss)"
proof (induction n r ss rule: append_rule.induct)
  case (1 n r)
  then show ?case
    by (simp add: typed_ruleset_def)
next
  case (2 n r s ss)
  then show ?case
    using append_rule_names [of n r ss] by (auto simp: typed_ruleset_def)
qed

lemma firewall_rule_typed: "typed_config c \<Longrightarrow> typed_config (snd (parse_firewall_rule n s c))"
  using append_rule_typed read_rule_typed
  by (auto simp: parse_firewall_rule_def typed_config_def split: sum.splits)

lemma ruleset_typed:
  "parse_firewall_ruleset n f c = Inr (c', rest) \<Longrightarrow> typed_config c \<Longrightarrow> typed_config c'"
proof (induction "length f" arbitrary: f c rule: less_induct)
  case less
  show ?case
  proof (cases "fgets (MAX_BUF - 1) f")
    case None
    with less.prems show ?thesis
      by (simp add: parse_ruleset_end)
  next
    case (Some a)
    then obtain line r where r: "fgets (MAX_BUF - 1) f = Some (line, r)" by (cases a) auto
    have "length r < length f"
      by (rule fgets_shrinks [OF r])
    from less.hyps [OF this] less.prems firewall_rule_typed show ?thesis
      by (auto simp: parse_ruleset_step [OF r] split: if_splits)
  qed
qed

section \<open>Servers and lists\<close>

lemma auth_option_flag: "auth_option opcode p2 b = Inr b' \<Longrightarrow> flag (b_ssl_available b) \<Longrightarrow> flag (b_ssl_available b')"
  by (cases opcode) (auto simp: auth_option_def split: if_splits dest!: parse_boolean_flag)

lemma auth_lines_flag:
  "parse_auth_lines f b = Inr (b', rest) \<Longrightarrow> flag (b_ssl_available b) \<Longrightarrow> flag (b_ssl_available b')"
proof (induction "length f" arbitrary: f b rule: less_induct)
  case less
  show ?case
  proof (cases "fgets (MAX_BUF - 1) f")
    case None
    with less.prems show ?thesis
      by (simp add: parse_auth_lines_end)
  next
    case (Some a)
    then obtain line r where r: "fgets (MAX_BUF - 1) f = Some (line, r)" by (cases a) auto
    have "length r < length f"
      by (rule fgets_shrinks [OF r])
    from less.hyps [OF this] less.prems auth_option_flag show ?thesis
      by (auto simp: parse_auth_lines_step [OF r] split: if_splits sum.splits)
  qed
qed

lemma auth_server_typed:
  assumes "parse_auth_server f c = Inr (c', rest)" "typed_config c"
  shows "typed_config c'"
proof -
  obtain b where b: "parse_auth_lines f auth_block_defaults = Inr (b, rest)"
    "c' = c \<or> (\<exists>host. c' = c\<lparr>auth_servers := auth_servers c @ [new_auth_server (length (auth_servers c)) host b]\<rparr>)"
    using assms(1) by (force simp: parse_auth_server_def split: sum.splits option.splits)
  have "flag (b_ssl_available b)"
    by (rule auth_lines_flag [OF b(1)]) (simp add: auth_block_defaults_def)
  with b(2) assms(2) show ?thesis
    by (auto simp: typed_config_def new_auth_server_def)
qed

lemma scan_mac_typed: "scan_mac s = Some mac \<Longrightarrow> typed_mac mac"
  using set_takeWhileD by (fastforce simp: scan_mac_def typed_mac_def Let_def list_all_iff split: if_splits
      intro: le_trans [OF length_takeWhile_le])

lemma trusted_tokens_typed:
  "parse_trusted_tokens ts l = Inr l' \<Longrightarrow> list_all typed_mac l \<Longrightarrow> list_all typed_mac l'"
  by (induction ts l rule: parse_trusted_tokens.induct)
     (auto split: if_splits option.splits simp: add_trusted_mac_def dest: scan_mac_typed)

lemma trusted_macs_typed: "parse_trusted_mac_list s c = Inr c' \<Longrightarrow> typed_config c \<Longrightarrow> typed_config c'"
  by (auto simp: parse_trusted_mac_list_def typed_config_def split: sum.splits dest: trusted_tokens_typed)

lemma add_popular_typed:
  "typed_config c \<Longrightarrow> h \<noteq> [] \<Longrightarrow> list_all (\<lambda>c. \<not> isblank c) h \<Longrightarrow> typed_config (add_popular_server h c)"
  by (simp add: typed_config_def add_popular_server_def)

lemma popular_servers_typed:
  assumes "typed_config c"
  shows "typed_config (parse_popular_servers s c)"
proof -
  have "typed_config c \<Longrightarrow> typed_config (fold (\<lambda>t c. let h = takeWhile (\<lambda>ch. \<not> isblank ch) (dropWhile isblank t)
                 in if h = [] then c else add_popular_server h c) ts c)" for ts c
    by (induction ts arbitrary: c) (simp_all add: Let_def add_popular_typed unblank_word)
  then show ?thesis
    using assms by (simp add: parse_popular_servers_def)
qed

lemma config_option_typed:
  assumes "config_option opcode p1 raw f c = Inr (c', rest)" "typed_config c"
  shows "typed_config c'"
proof -
  have upd: "typed_config (c\<lparr>deltatraffic := parse_boolean_value p1\<rparr>)"
    "\<not> parse_boolean_value p1 < 0 \<Longrightarrow> typed_config (c\<lparr>ssl_verify := parse_boolean_value p1\<rparr>)"
    "\<not> parse_boolean_value p1 < 0 \<Longrightarrow> typed_config (c\<lparr>ssl_use_sni := parse_boolean_value p1\<rparr>)"
    "typed_config (c\<lparr>daemon := parse_boolean_value p1, debugconf := (debugconf c)\<lparr>log_stderr := 0\<rparr>\<rparr>)"
    "typed_config (c\<lparr>daemon := parse_boolean_value p1, debugconf := (debugconf c)\<lparr>log_stderr := 1\<rparr>\<rparr>)"
    using assms(2) parse_boolean_tristate [of p1] parse_boolean_flag [of p1] by (simp_all add: typed_config_def)
  have other: "typed_config (c\<lparr>external_interface := x\<rparr>)" "typed_config (c\<lparr>gw_id := x\<rparr>)" "typed_config (c\<lparr>gw_interface := x\<rparr>)"
    "typed_config (c\<lparr>gw_address := x\<rparr>)" "typed_config (c\<lparr>gw_port := i\<rparr>)" "typed_config (c\<lparr>httpdname := x\<rparr>)"
    "typed_config (c\<lparr>httpdmaxconn := i\<rparr>)" "typed_config (c\<lparr>httpdrealm := s\<rparr>)" "typed_config (c\<lparr>httpdusername := x\<rparr>)"
    "typed_config (c\<lparr>httpdpassword := x\<rparr>)" "typed_config (c\<lparr>checkinterval := i\<rparr>)" "typed_config (c\<lparr>wdctl_sock := s\<rparr>)"
    "typed_config (c\<lparr>clienttimeout := i\<rparr>)" "typed_config (c\<lparr>debugconf := (debugconf c)\<lparr>syslog_facility := i\<rparr>\<rparr>)"
    "typed_config (c\<lparr>htmlmsgfile := s\<rparr>)" "typed_config (c\<lparr>proxy_port := i\<rparr>)" "typed_config (c\<lparr>ssl_certs := s\<rparr>)"
    "typed_config (c\<lparr>ssl_cipher_list := x\<rparr>)" for x i s
    using assms(2) by (simp_all add: typed_config_def)
  show ?thesis
    using assms upd other popular_servers_typed
    by (cases opcode) (auto simp: config_option_def Let_def split: if_splits sum.splits
        dest: auth_server_typed ruleset_typed trusted_macs_typed)
qed

lemma config_loop_typed: "config_read_loop f c = Inr c' \<Longrightarrow> typed_config c \<Longrightarrow> typed_config c'"
proof (induction f c rule: config_read_loop.induct)
  case (1 f c)
  from "1.prems"(1) [unfolded config_read_loop.simps [of f c]] "1.prems"(2) show ?case
    using "1.IH" config_option_typed by (auto split: option.splits prod.splits if_splits sum.splits)
qed

section \<open>The command line and validation\<close>

lemma parse_option_typed:
  assumes "parse_option opt optarg st = Inr st'" "typed_config (cmd_config st)"
  shows "typed_config (cmd_config st')"
  using assms by (auto simp: parse_option_def typed_config_def Let_def split: if_splits option.splits)

lemma parse_options_typed:
  "parse_options os st = Inr st' \<Longrightarrow> typed_config (cmd_config st) \<Longrightarrow> typed_config (cmd_config st')"
  by (induction os st rule: parse_options.induct) (auto split: sum.splits dest: parse_option_typed)

lemma commandline_typed:
  "parse_commandline argv c = Some (Inr st) \<Longrightarrow> typed_config c \<Longrightarrow> typed_config (cmd_config st)"
  by (auto simp: parse_commandline_def split: list.splits sum.splits if_splits dest!: parse_options_typed)

lemma validate_popular_typed:
  assumes "typed_config c"
  shows "typed_config (validate_popular_servers c)"
proof -
  have names: "list_all (\<lambda>c. \<not> isblank c) ''www.google.com''" "list_all (\<lambda>c. \<not> isblank c) ''www.yahoo.com''"
    by (simp_all add: isblank_def TAB_def)
  show ?thesis
    using add_popular_typed [OF add_popular_typed [OF assms _ names(1)] _ names(2)] assms
    by (simp add: validate_popular_servers_def)
qed

text \<open>
  C7: Whatever the command line and the configuration file say, a configuration that the gateway
  starts with is well typed: options that are yes or no are 0 or 1 (or -1 where they were not given
  or not understood), the servers are numbered in order, no rule set is there twice or empty, the
  ports of the rules are digits and colons and their other words have no blanks, trusted MAC
  addresses are at most 17 hexadecimal digits and colons; and there is an interface, a server, a
  popular server to ask for, and a password if there is a user name.
\<close>

theorem configuration_typed:
  assumes "parse_commandline argv config_init = Some (Inr st)" and "config_read file (cmd_config st) = Inr c1"
    and "config_validate missing_parms c1 = Inr c"
  shows "typed_config c \<and> gw_interface c \<noteq> None \<and> auth_servers c \<noteq> [] \<and> popular_servers c \<noteq> [] \<and>
    (httpdusername c = None \<or> httpdpassword c \<noteq> None)"
proof -
  obtain f where "config_read_loop f (cmd_config st) = Inr c1" and pw: "httpdusername c1 = None \<or> httpdpassword c1 \<noteq> None"
    using assms(2) by (auto simp: config_read_def split: option.splits sum.splits if_splits)
  then have "typed_config c1"
    using config_loop_typed commandline_typed [OF assms(1) typed_config_init] by blast
  moreover have c: "c = validate_popular_servers c1" "gw_interface c1 \<noteq> None" "auth_servers c1 \<noteq> []"
    using assms(3) by (auto simp: config_validate_def config_notnull_def Let_def split: if_splits)
  ultimately have "typed_config c"
    by (simp add: validate_popular_typed)
  then show ?thesis
    using c pw by (simp add: validate_popular_servers_def add_popular_server_def)
qed

text \<open>Reading line by line.\<close>

lemma fgets_line: "NL \<notin> set l \<Longrightarrow> length l + 2 \<le> n \<Longrightarrow> fgets n (l @ NL # r) = Some (l @ [NL], r)"
  by (auto simp: fgets_def Let_def takeWhile_append)

lemma read_line:
  assumes "NL \<notin> set l" "length l < 1000" "split_config_line (l @ [NL]) = (s, Some (p1, raw))" "p1 \<noteq> []" "\<not> strncmp_eq 1 s ''#''"
  shows "config_read_loop (l @ NL # r) c =
    (case config_option (config_parse_token s) p1 raw r c of Inl e \<Rightarrow> Inl e | Inr (c1, rest1) \<Rightarrow> config_read_loop rest1 c1)"
  using assms fgets_line [of l MAX_BUF r] by (subst config_read_loop.simps) (simp add: MAX_BUF_def)

text \<open>A small configuration, and the gateway started in the foreground.\<close>

definition small_file :: string where
  "small_file = ''GatewayInterface br0'' @ NL # ''AuthServer {'' @ NL # ''Hostname auth.org'' @ NL # ''SSLAvailable yes'' @ NL #
     ''}'' @ NL # ''FirewallRuleSet global {'' @ NL # ''FirewallRule allow udp port 53'' @ NL # ''}'' @ [NL]"

definition small_config :: s_config where
  "small_config = config_init\<lparr>daemon := 0, gw_interface := Some ''br0'',
     auth_servers := [new_auth_server 0 ''auth.org'' (auth_block_defaults\<lparr>b_host := Some ''auth.org'', b_ssl_available := 1\<rparr>)],
     rulesets := [\<lparr>rs_name = ''global'', rs_rules = [\<lparr>fr_target = TARGET_ACCEPT, fr_protocol = Some ''udp'', fr_port = Some ''53'',
       fr_mask = ''0.0.0.0/0'', fr_mask_is_ipset = False\<rparr>]\<rparr>]\<rparr>"

lemma small_lines:
  "split_config_line (''GatewayInterface br0'' @ [NL]) = (''GatewayInterface'', Some (''br0'', ''br0''))"
  "split_config_line (''AuthServer {'' @ [NL]) = (''AuthServer'', Some (''{'', ''{''))"
  "split_config_line (''FirewallRuleSet global {'' @ [NL]) = (''FirewallRuleSet'', Some (''global'', ''global {''))"
  by code_simp+

lemma small_words:
  "first_word (cut_line True (''Hostname auth.org'' @ [NL])) = (''Hostname'', ''auth.org'')"
  "first_word (cut_line True (''SSLAvailable yes'' @ [NL])) = (''SSLAvailable'', ''yes'')"
  "first_word (cut_line False (''FirewallRule allow udp port 53'' @ [NL])) = (''FirewallRule'', ''allow udp port 53'')"
  "cstr (cut_line True (''Hostname auth.org'' @ [NL])) \<noteq> []"
  "cstr (cut_line True (''SSLAvailable yes'' @ [NL])) \<noteq> []"
  "cstr (cut_line False (''FirewallRule allow udp port 53'' @ [NL])) \<noteq> []"
  by code_simp+

lemma small_tokens:
  "config_parse_token ''GatewayInterface'' = oGatewayInterface" "config_parse_token ''AuthServer'' = oAuthServer"
  by code_simp+

lemma small_server_tokens:
  "config_parse_token ''Hostname'' = oAuthServHostname" "config_parse_token ''SSLAvailable'' = oAuthServSSLAvailable"
  by code_simp+

lemma small_rule_tokens:
  "config_parse_token ''FirewallRuleSet'' = oFirewallRuleSet" "config_parse_token ''FirewallRule'' = oFirewallRule"
  by code_simp+

lemma small_rule: "read_rule ''allow udp port 53'' = Inr \<lparr>fr_target = TARGET_ACCEPT, fr_protocol = Some ''udp'',
    fr_port = Some ''53'', fr_mask = ''0.0.0.0/0'', fr_mask_is_ipset = False\<rparr>"
  by code_simp

lemma block_line: "NL \<notin> set l \<Longrightarrow> length l < 1000 \<Longrightarrow> fgets (MAX_BUF - 1) (l @ NL # r) = Some (l @ [NL], r)"
  by (rule fgets_line) (simp_all add: MAX_BUF_def)

lemma auth_line:
  assumes "NL \<notin> set l" "length l < 1000" "CHR ''}'' \<notin> set (cstr (l @ [NL]))"
    and "cstr (cut_line True (l @ [NL])) \<noteq> []" "first_word (cut_line True (l @ [NL])) = (w, v)"
    and "auth_option (config_parse_token w) v b = Inr b1"
  shows "parse_auth_lines (l @ NL # r) b = parse_auth_lines r b1"
  using assms by (simp add: parse_auth_lines_step [OF block_line])

lemma rule_line:
  assumes "NL \<notin> set l" "length l < 1000" "CHR ''}'' \<notin> set (cstr (l @ [NL]))"
    and "cstr (cut_line False (l @ [NL])) \<noteq> []" "first_word (cut_line False (l @ [NL])) = (w, v)"
    and "config_parse_token w = oFirewallRule"
  shows "parse_firewall_ruleset n (l @ NL # r) c = parse_firewall_ruleset n r (snd (parse_firewall_rule n v c))"
  using assms by (simp add: parse_ruleset_step [OF block_line])

lemma close_line:
  "parse_auth_lines (''}'' @ NL # r) b = Inr (b, r)" "parse_firewall_ruleset n (''}'' @ NL # r) c = Inr (c, r)"
proof -
  have "fgets (MAX_BUF - 1) (''}'' @ NL # r) = Some (''}'' @ [NL], r)"
    by (rule block_line) (simp_all add: NL_def)
  moreover have "CHR ''}'' \<in> set (cstr (''}'' @ [NL]))"
    by (simp add: NL_def cstr_def NUL_def)
  ultimately show "parse_auth_lines (''}'' @ NL # r) b = Inr (b, r)" "parse_firewall_ruleset n (''}'' @ NL # r) c = Inr (c, r)"
    by (metis parse_auth_lines_step, metis parse_ruleset_step)
qed

lemmas line_simps = NL_def cstr_def NUL_def

lemma small_server:
  "parse_auth_server (''Hostname auth.org'' @ NL # ''SSLAvailable yes'' @ NL # ''}'' @ NL # r) (config_init\<lparr>daemon := 0, gw_interface := Some ''br0''\<rparr>) =
    Inr (small_config\<lparr>rulesets := []\<rparr>, r)"
proof -
  have yes: "parse_boolean_value ''yes'' = 1"
    by code_simp
  have 1: "parse_auth_lines (''Hostname auth.org'' @ NL # r) auth_block_defaults = parse_auth_lines r (auth_block_defaults\<lparr>b_host := Some ''auth.org''\<rparr>)" for r
    by (rule auth_line [OF _ _ _ small_words(4,1)]) (simp_all add: small_server_tokens auth_option_def line_simps)
  have 2: "parse_auth_lines (''SSLAvailable yes'' @ NL # r) b = parse_auth_lines r (b\<lparr>b_ssl_available := 1\<rparr>)" for r b
    by (rule auth_line [OF _ _ _ small_words(5,2)]) (simp_all add: small_server_tokens auth_option_def yes line_simps)
  show ?thesis
    unfolding parse_auth_server_def 1 2 close_line by (simp add: small_config_def config_init_def)
qed

lemma small_ruleset:
  "parse_firewall_ruleset ''global'' (''FirewallRule allow udp port 53'' @ NL # ''}'' @ NL # r) (small_config\<lparr>rulesets := []\<rparr>) = Inr (small_config, r)"
proof -
  have "parse_firewall_ruleset ''global'' (''FirewallRule allow udp port 53'' @ NL # r) c =
      parse_firewall_ruleset ''global'' r (snd (parse_firewall_rule ''global'' ''allow udp port 53'' c))" for r c
    by (rule rule_line [OF _ _ _ small_words(6,3) small_rule_tokens(2)]) (simp_all add: line_simps)
  then show ?thesis
    by (simp only: close_line) (simp add: parse_firewall_rule_def small_rule small_config_def)
qed

lemma small_read: "config_read (Some small_file) (config_init\<lparr>daemon := 0\<rparr>) = Inr small_config"
proof -
  have l1: "config_read_loop (''GatewayInterface br0'' @ NL # r) c = config_read_loop r (c\<lparr>gw_interface := Some ''br0''\<rparr>)" for r c
    by (subst read_line [OF _ _ small_lines(1)]) (simp_all add: small_tokens config_option_def strncmp_eq_def NL_def)
  have l2: "config_read_loop (''AuthServer {'' @ NL # r) c =
      (case parse_auth_server r c of Inl e \<Rightarrow> Inl e | Inr (c1, rest1) \<Rightarrow> config_read_loop rest1 c1)" for r c
    by (subst read_line [OF _ _ small_lines(2)]) (simp_all add: small_tokens config_option_def strncmp_eq_def NL_def)
  have l3: "config_read_loop (''FirewallRuleSet global {'' @ NL # r) c =
      (case parse_firewall_ruleset ''global'' r c of Inl e \<Rightarrow> Inl e | Inr (c1, rest1) \<Rightarrow> config_read_loop rest1 c1)" for r c
    by (subst read_line [OF _ _ small_lines(3)]) (simp_all add: small_rule_tokens config_option_def strncmp_eq_def NL_def)
  have "config_read_loop small_file (config_init\<lparr>daemon := 0\<rparr>) = config_read_loop [] small_config"
    unfolding small_file_def l1 l2 small_server sum.case prod.case l3 small_ruleset [where r = "[]"] by simp
  moreover have "config_read_loop [] c = Inr c" for c
    by (subst config_read_loop.simps) (simp add: fgets_def)
  moreover have "httpdusername small_config = None"
    by (simp add: small_config_def config_init_def)
  ultimately show ?thesis
    by (simp add: config_read_def)
qed

theorem configuration_typed_witness:
  "parse_commandline [''wifidog'', ''-f''] config_init =
     Some (Inr \<lparr>cmd_config = config_init\<lparr>daemon := 0\<rparr>, cmd_orig_pid = 0, restartargv = [''wifidog'']\<rparr>) \<and>
   config_read (Some small_file) (config_init\<lparr>daemon := 0\<rparr>) = Inr small_config \<and>
   (\<exists>c. config_validate False small_config = Inr c \<and> typed_config c \<and> popular_servers c \<noteq> [])"
proof -
  have cmd: "parse_commandline [''wifidog'', ''-f''] config_init =
     Some (Inr \<lparr>cmd_config = config_init\<lparr>daemon := 0\<rparr>, cmd_orig_pid = 0, restartargv = [''wifidog'']\<rparr>)"
    by code_simp
  obtain c where c: "config_validate False small_config = Inr c"
    by (simp add: config_validate_def config_notnull_def small_config_def Let_def)
  from configuration_typed [OF cmd _ c] small_read cmd c show ?thesis
    by auto
qed

end
